(* ===== verification/Prelude.thy ===== *)
theory Prelude
  imports Main "HOL-Library.Word"
begin

text \<open>
  Shared vocabulary of the development.

  Strings of the program are byte strings (\<^verbatim>\<open>std::string\<close>, \<^verbatim>\<open>std::string_view\<close>); they are
  modelled as \<^typ>\<open>string\<close>, whose characters are exactly the 256 bytes.  This theory holds
  the members of \<^verbatim>\<open>std::string\<close> the sources call (\<open>find\<close>, \<open>substr\<close>, \<open>starts_with\<close>,
  \<open>remove_prefix\<close> in a loop, \<open>std::to_string\<close> ...), the collections of rewrite rules the
  component theories extend, and lemmas on lists they share.
\<close>

named_theorems str_simps \<open>rules on the string operations\<close>
named_theorems step_simps \<open>one-step equations of loops\<close>

section \<open>Bytes\<close>

abbreviation (input) NL :: char where "NL \<equiv> CHR 0x0A"
abbreviation (input) CR :: char where "CR \<equiv> CHR 0x0D"
abbreviation (input) TAB :: char where "TAB \<equiv> CHR 0x09"
abbreviation (input) SP :: char where "SP \<equiv> CHR 0x20"
abbreviation (input) DQUOTE :: char where "DQUOTE \<equiv> CHR 0x22"
abbreviation (input) SQUOTE :: char where "SQUOTE \<equiv> CHR 0x27"
abbreviation (input) BTICK :: char where "BTICK \<equiv> CHR 0x60"

definition byte :: "char \<Rightarrow> nat" where
  "byte c = of_char c"

definition is_digit :: "char \<Rightarrow> bool" where
  "is_digit c \<longleftrightarrow> 48 \<le> byte c \<and> byte c \<le> 57"

definition digit_val :: "char \<Rightarrow> nat" where
  "digit_val c = byte c - 48"

definition is_alpha :: "char \<Rightarrow> bool" where
  "is_alpha c \<longleftrightarrow> (97 \<le> byte c \<and> byte c \<le> 122) \<or> (65 \<le> byte c \<and> byte c \<le> 90)"

text \<open>\<^verbatim>\<open>std::isspace\<close> and \<^verbatim>\<open>std::tolower\<close> in the "C" locale, on \<^verbatim>\<open>unsigned char\<close>.\<close>

definition is_space :: "char \<Rightarrow> bool" where
  "is_space c \<longleftrightarrow> byte c = 32 \<or> (9 \<le> byte c \<and> byte c \<le> 13)"

definition to_lower :: "char \<Rightarrow> char" where
  "to_lower c = (if 65 \<le> byte c \<and> byte c \<le> 90 then char_of (byte c + 32) else c)"

section \<open>Members of std::string\<close>

text \<open>\<^verbatim>\<open>s.find(c)\<close>: index of the first occurrence, \<^verbatim>\<open>npos\<close> as \<^const>\<open>None\<close>.\<close>

fun find_char :: "char \<Rightarrow> string \<Rightarrow> nat option" where
  "find_char c [] = None"
| "find_char c (x # xs) = (if x = c then Some 0 else map_option Suc (find_char c xs))"

text \<open>\<^verbatim>\<open>s.starts_with(p)\<close>, \<^verbatim>\<open>s.ends_with(p)\<close>, \<^verbatim>\<open>s.find(p) != npos\<close>.\<close>

fun starts_with :: "string \<Rightarrow> string \<Rightarrow> bool" where
  "starts_with [] s = True"
| "starts_with (p # ps) [] = False"
| "starts_with (p # ps) (x # xs) = (p = x \<and> starts_with ps xs)"

definition ends_with :: "string \<Rightarrow> string \<Rightarrow> bool" where
  "ends_with p s = starts_with (rev p) (rev s)"

fun find_sub :: "string \<Rightarrow> string \<Rightarrow> nat option" where
  "find_sub p [] = (if p = [] then Some 0 else None)"
| "find_sub p (x # xs) =
     (if starts_with p (x # xs) then Some 0 else map_option Suc (find_sub p xs))"

definition contains_sub :: "string \<Rightarrow> string \<Rightarrow> bool" where
  "contains_sub p s \<longleftrightarrow> find_sub p s \<noteq> None"

text \<open>The loops \<^verbatim>\<open>while (!s.empty() && P(s.front())) s.remove_prefix(1)\<close> and its mirror image.\<close>

definition drop_front :: "(char \<Rightarrow> bool) \<Rightarrow> string \<Rightarrow> string" where
  "drop_front P s = dropWhile P s"

definition drop_back :: "(char \<Rightarrow> bool) \<Rightarrow> string \<Rightarrow> string" where
  "drop_back P s = rev (dropWhile P (rev s))"

text \<open>The guard \<^verbatim>\<open>if (!line.empty() && line.back() == '\r') line.remove_suffix(1)\<close>.\<close>

definition chop_cr :: "string \<Rightarrow> string" where
  "chop_cr s = (if s \<noteq> [] \<and> last s = CR then butlast s else s)"

text \<open>
  Cutting a text at every occurrence of a byte, as the loops over \<^verbatim>\<open>s.find(c, start)\<close> do:
  always at least one piece, and \<open>join_with\<close> puts the pieces together again.
\<close>

fun split_on :: "char \<Rightarrow> string \<Rightarrow> string list" where
  "split_on c [] = [[]]"
| "split_on c (x # xs) =
     (if x = c then [] # split_on c xs
      else (case split_on c xs of [] \<Rightarrow> [[x]] | l # ls \<Rightarrow> (x # l) # ls))"

fun join_with :: "char \<Rightarrow> string list \<Rightarrow> string" where
  "join_with c [] = []"
| "join_with c [l] = l"
| "join_with c (l # ls) = l @ c # join_with c ls"

text \<open>\<^verbatim>\<open>std::to_string\<close> of an unsigned and of a signed integer.\<close>

fun nat_to_string :: "nat \<Rightarrow> string" where
  "nat_to_string n =
     (if n < 10 then [char_of (48 + n)] else nat_to_string (n div 10) @ [char_of (48 + n mod 10)])"

declare nat_to_string.simps [simp del]

definition int_to_string :: "int \<Rightarrow> string" where
  "int_to_string i = (if i < 0 then ''-'' @ nat_to_string (nat (- i)) else nat_to_string (nat i))"

text \<open>Two's-complement reading of an integer at width 32 and 64 (C++20 conversions).\<close>

definition to_i64 :: "int \<Rightarrow> int" where
  "to_i64 i = sint (word_of_int i :: 64 word)"

definition to_i32 :: "int \<Rightarrow> int" where
  "to_i32 i = sint (word_of_int i :: 32 word)"

lemma to_i64_id: "- (2 ^ 63) \<le> i \<Longrightarrow> i < 2 ^ 63 \<Longrightarrow> to_i64 i = i"
  by (simp add: to_i64_def sint_sbintrunc' signed_take_bit_int_eq_self)

lemma to_i32_id: "- (2 ^ 31) \<le> i \<Longrightarrow> i < 2 ^ 31 \<Longrightarrow> to_i32 i = i"
  by (simp add: to_i32_def sint_sbintrunc' signed_take_bit_int_eq_self)

section \<open>Lists\<close>

text \<open>The values a partial function yields along a list, in order.\<close>

fun values_of :: "('a \<Rightarrow> 'b option) \<Rightarrow> 'a list \<Rightarrow> 'b list" where
  "values_of f [] = []"
| "values_of f (x # xs) = (case f x of None \<Rightarrow> values_of f xs | Some y \<Rightarrow> y # values_of f xs)"

lemma values_of_append [simp]: "values_of f (xs @ ys) = values_of f xs @ values_of f ys"
  by (induction xs) (auto split: option.splits)

lemma values_of_all: "(\<And>x. x \<in> set xs \<Longrightarrow> f x = Some (g x)) \<Longrightarrow> values_of f xs = map g xs"
  by (induction xs) auto

lemma set_values_of: "set (values_of f xs) = {y. \<exists>x \<in> set xs. f x = Some y}"
  by (induction xs) (auto split: option.splits)

section \<open>Lemmas on the string operations\<close>

lemma find_char_None_iff [str_simps]: "find_char c s = None \<longleftrightarrow> c \<notin> set s"
  by (induction s) auto

lemma find_char_None [str_simps]: "c \<notin> set s \<Longrightarrow> find_char c s = None"
  by (simp add: find_char_None_iff)

lemma find_char_append_mem [str_simps]: "c \<in> set s \<Longrightarrow> find_char c (s @ t) = find_char c s"
  by (induction s) auto

lemma find_char_append [str_simps]: "c \<notin> set s \<Longrightarrow> find_char c (s @ c # t) = Some (length s)"
  by (induction s) auto

lemma find_char_SomeD:
  "find_char c s = Some i \<Longrightarrow> i < length s \<and> s ! i = c \<and> c \<notin> set (take i s)"
  by (induction s arbitrary: i) (auto split: if_splits)

lemma find_char_split:
  assumes "find_char c s = Some i"
  shows "s = take i s @ c # drop (Suc i) s"
  using find_char_SomeD [OF assms] by (metis id_take_nth_drop)

lemma sep_unique:
  "c \<notin> set f \<Longrightarrow> c \<notin> set g \<Longrightarrow> f @ c # w = g @ c # t \<longleftrightarrow> f = g \<and> w = t"
proof (induction f arbitrary: g)
  case Nil
  then show ?case by (cases g) auto
next
  case (Cons x f)
  then show ?case by (cases g) auto
qed

lemma split_on_nonempty [simp]: "split_on c s \<noteq> []"
  by (induction s) (auto split: list.splits)

lemma split_on_absent [str_simps]: "c \<notin> set s \<Longrightarrow> split_on c s = [s]"
  by (induction s) auto

lemma split_on_append: "c \<notin> set s \<Longrightarrow> split_on c (s @ c # t) = s # split_on c t"
  by (induction s) auto

lemma split_on_find:
  "split_on c s =
     (case find_char c s of None \<Rightarrow> [s] | Some i \<Rightarrow> take i s # split_on c (drop (Suc i) s))"
proof (cases "find_char c s")
  case None
  then have "c \<notin> set s" by (simp add: find_char_None_iff)
  with None show ?thesis by (simp add: split_on_absent)
next
  case (Some i)
  from find_char_SomeD [OF Some] have "c \<notin> set (take i s)" by simp
  from split_on_append [OF this, of "drop (Suc i) s"] find_char_split [OF Some] Some
  show ?thesis by simp
qed

lemma split_on_no_sep: "l \<in> set (split_on c s) \<Longrightarrow> c \<notin> set l"
  by (induction s arbitrary: l) (auto split: if_splits list.splits)

lemma split_on_set: "l \<in> set (split_on c s) \<Longrightarrow> set l \<subseteq> set s"
proof (induction s arbitrary: l)
  case (Cons x s)
  obtain m ms where ms: "split_on c s = m # ms" by (cases "split_on c s") auto
  from Cons.IH [of m] Cons.IH [of l] Cons.prems ms show ?case by (auto split: if_splits)
qed simp

lemma join_with_split_on: "join_with c (split_on c s) = s"
proof (induction s)
  case (Cons x xs)
  obtain l ls where ls: "split_on c xs = l # ls" by (cases "split_on c xs") auto
  with Cons show ?case by (cases ls) auto
qed simp

lemma split_on_join_with:
  "ls \<noteq> [] \<Longrightarrow> \<forall>l \<in> set ls. c \<notin> set l \<Longrightarrow> split_on c (join_with c ls) = ls"
  by (induction c ls rule: join_with.induct) (auto simp: split_on_append str_simps)

lemma join_with_snoc:
  "join_with c (ls @ [l]) = (if ls = [] then l else join_with c ls @ c # l)"
  by (induction c ls rule: join_with.induct) auto

lemma starts_with_iff [str_simps]: "starts_with p s \<longleftrightarrow> (\<exists>t. s = p @ t)"
  by (induction p s rule: starts_with.induct) auto

lemma starts_with_append [simp]: "starts_with p (p @ t)"
  by (simp add: starts_with_iff)

lemma ends_with_iff [str_simps]: "ends_with p s \<longleftrightarrow> (\<exists>t. s = t @ p)"
proof -
  have "rev s = rev p @ u \<longleftrightarrow> s = rev u @ p" for u
    by (metis rev_append rev_rev_ident)
  then show ?thesis
    by (metis ends_with_def rev_rev_ident starts_with_iff)
qed

lemma chop_cr_noop [str_simps]: "CR \<notin> set s \<Longrightarrow> chop_cr s = s"
  by (auto simp: chop_cr_def dest: last_in_set)

lemma chop_cr_snoc [simp]: "chop_cr (s @ [CR]) = s"
  by (simp add: chop_cr_def)

lemma chop_cr_Nil [simp]: "chop_cr [] = []"
  by (simp add: chop_cr_def)

lemma nat_to_string_nonempty [simp]: "nat_to_string n \<noteq> []"
  by (subst nat_to_string.simps) simp

lemma byte_char_of [simp]: "n < 256 \<Longrightarrow> byte (char_of n) = n"
  by (simp add: byte_def)

lemma nat_to_string_digits: "\<forall>c \<in> set (nat_to_string n). is_digit c"
proof (induction n rule: nat_to_string.induct)
  case (1 n)
  have "n mod 10 < 10" by simp
  with "1" show ?case
    by (subst nat_to_string.simps) (auto simp: is_digit_def)
qed

section \<open>Searching\<close>

text \<open>\<^verbatim>\<open>s.find(p, k)\<close>.\<close>

definition find_from :: "string \<Rightarrow> nat \<Rightarrow> string \<Rightarrow> nat option" where
  "find_from p k s = map_option (\<lambda>i. k + i) (find_sub p (drop k s))"

lemma starts_with_take: "starts_with p s \<longleftrightarrow> take (length p) s = p"
  by (auto simp: starts_with_iff) (metis append_take_drop_id)

lemma find_sub_Some:
  "find_sub p s = Some i \<longleftrightarrow>
     i \<le> length s \<and> starts_with p (drop i s) \<and> (\<forall>j < i. \<not> starts_with p (drop j s))"
proof (induction s arbitrary: i)
  case Nil
  then show ?case by (cases p) auto
next
  case (Cons x s)
  show ?case
  proof (cases "starts_with p (x # s)")
    case True
    then show ?thesis by (cases i) auto
  next
    case False
    then show ?thesis by (cases i) (auto simp: Cons.IH less_Suc_eq_0_disj)
  qed
qed

lemma up_to_Suc: "(\<forall>j \<le> Suc n. P j) \<longleftrightarrow> P 0 \<and> (\<forall>j \<le> n. P (Suc j))"
  by (metis Suc_le_mono le0 not0_implies_Suc)

lemma find_sub_None: "find_sub p s = None \<longleftrightarrow> (\<forall>j \<le> length s. \<not> starts_with p (drop j s))"
proof (induction s)
  case Nil
  then show ?case by (cases p) auto
next
  case (Cons x s)
  have "(\<forall>j \<le> length (x # s). \<not> starts_with p (drop j (x # s))) \<longleftrightarrow>
      \<not> starts_with p (x # s) \<and> (\<forall>j \<le> length s. \<not> starts_with p (drop j s))"
    by (auto simp: up_to_Suc)
  with Cons show ?case by simp
qed

lemma find_sub_shift:
  "k \<le> length s \<Longrightarrow> \<forall>j < k. \<not> starts_with p (drop j s) \<Longrightarrow> find_sub p s = find_from p k s"
proof (induction k arbitrary: s)
  case 0
  then show ?case by (simp add: find_from_def option.map_ident)
next
  case (Suc k)
  then obtain x t where s: "s = x # t" by (cases s) auto
  from Suc.prems(2) s have "\<not> starts_with p s" by auto
  moreover from Suc.prems s have "find_sub p t = find_from p k t" by (intro Suc.IH) auto
  ultimately show ?case using s by (cases "find_sub p (drop k t)") (simp_all add: find_from_def)
qed

lemma starts_with_inside:
  assumes "starts_with p (drop j (s @ t))" "j + length p \<le> length s"
  shows "starts_with p (drop j s)"
  using assms by (simp add: starts_with_take)

lemma find_sub_append_Some: "find_sub p s = Some i \<Longrightarrow> find_sub p (s @ t) = Some i"
proof -
  assume found: "find_sub p s = Some i"
  then have i: "i \<le> length s" "starts_with p (drop i s)" "\<forall>j < i. \<not> starts_with p (drop j s)"
    by (simp_all add: find_sub_Some)
  from i(2) obtain u where "drop i s = p @ u" by (auto simp: starts_with_iff)
  from arg_cong [OF this, of length] i(1) have "i + length p \<le> length s" by simp
  then have "\<not> starts_with p (drop j (s @ t))" if "j < i" for j
    using i(3) that starts_with_inside [of p j s t] by fastforce
  with i(1,2) show ?thesis by (auto simp: find_sub_Some starts_with_iff)
qed

text \<open>After a search without success only the end of the text has to be looked at again.\<close>

lemma find_sub_append_None:
  assumes "find_sub p s = None" "k \<le> length s - length p"
  shows "find_sub p (s @ t) = find_from p k (s @ t)"
proof (rule find_sub_shift)
  show "k \<le> length (s @ t)" using assms(2) by simp
  have "\<not> starts_with p (drop j s)" if "j \<le> length s" for j
    using assms(1) that by (simp add: find_sub_None)
  then show "\<forall>j < k. \<not> starts_with p (drop j (s @ t))"
    using starts_with_inside [of p _ s t] assms(2) by fastforce
qed

lemma find_sub_end: "find_sub p s = Some i \<Longrightarrow> i + length p \<le> length s"
proof -
  assume "find_sub p s = Some i"
  then have i: "i \<le> length s" "starts_with p (drop i s)" by (simp_all add: find_sub_Some)
  from i(2) obtain u where "drop i s = p @ u" by (auto simp: starts_with_iff)
  from arg_cong [OF this, of length] i(1) show ?thesis by simp
qed

lemma contains_sub_iff: "contains_sub p s \<longleftrightarrow> (\<exists>u v. s = u @ p @ v)"
proof
  assume "contains_sub p s"
  then obtain i where "i \<le> length s" "starts_with p (drop i s)"
    by (auto simp: contains_sub_def find_sub_Some)
  then show "\<exists>u v. s = u @ p @ v" by (metis append_take_drop_id starts_with_iff)
next
  assume "\<exists>u v. s = u @ p @ v"
  then obtain u v where s: "s = u @ p @ v" by blast
  then have "starts_with p (drop (length u) s)" "length u \<le> length s" by simp_all
  then have "find_sub p s \<noteq> None" unfolding find_sub_None by blast
  then show "contains_sub p s" by (simp add: contains_sub_def)
qed

end
