(* ===== verification/Errors.thy ===== *)
theory Errors
  imports Prelude
begin

text \<open>
  \<^verbatim>\<open>include/gemini/error.hpp\<close> and \<^verbatim>\<open>src/error.cpp\<close>: the error values of the client library.

  \<^verbatim>\<open>Result<T>\<close> is \<^verbatim>\<open>std::expected<T, Error>\<close>.  A call can also be left by a C++ exception
  (the JSON library throws in a few of its operations), and a few conversions are undefined
  behaviour on extreme inputs, so the result type of the model has three kinds of failure:
  \<open>Failed e\<close> is the error value \<open>e\<close>, \<open>Thrown m\<close> an exception, \<open>Undefined m\<close> an execution
  the C++ standard gives no meaning to.
\<close>

section \<open>Error codes\<close>

datatype error_code =
    KTransport | KTimeout | KCancelled | KInvalidArgument | KUnauthenticated | KNotFound
  | KRateLimited | KServer | KHttp | KParse | KBlocked | KConfig | KIo

fun error_code_to_string :: "error_code \<Rightarrow> string" where
  "error_code_to_string KTransport = ''transport''"
| "error_code_to_string KTimeout = ''timeout''"
| "error_code_to_string KCancelled = ''cancelled''"
| "error_code_to_string KInvalidArgument = ''invalid_argument''"
| "error_code_to_string KUnauthenticated = ''unauthenticated''"
| "error_code_to_string KNotFound = ''not_found''"
| "error_code_to_string KRateLimited = ''rate_limited''"
| "error_code_to_string KServer = ''server''"
| "error_code_to_string KHttp = ''http''"
| "error_code_to_string KParse = ''parse''"
| "error_code_to_string KBlocked = ''blocked''"
| "error_code_to_string KConfig = ''config''"
| "error_code_to_string KIo = ''io''"

section \<open>Error values\<close>

record error =
  code :: error_code
  message :: string
  http_status :: int
  api_status :: string
  retry_after :: "int option"  \<comment> \<open>milliseconds\<close>

definition retryable :: "error \<Rightarrow> bool" where
  "retryable e =
     (case code e of
        KTransport \<Rightarrow> True
      | KTimeout \<Rightarrow> True
      | KRateLimited \<Rightarrow> True
      | KServer \<Rightarrow> True
      | _ \<Rightarrow> False)"

definition describe :: "error \<Rightarrow> string" where
  "describe e =
     ''['' @ error_code_to_string (code e) @ ''] '' @ message e @
     (if http_status e \<noteq> 0 \<or> api_status e \<noteq> [] then
        '' ('' @
        (if http_status e \<noteq> 0 then ''HTTP '' @ int_to_string (http_status e) else []) @
        (if api_status e \<noteq> [] then
           (if http_status e \<noteq> 0 then '' '' else []) @ api_status e
         else []) @
        '')''
      else [])"

definition make_error :: "error_code \<Rightarrow> string \<Rightarrow> error" where
  "make_error c m = \<lparr>code = c, message = m, http_status = 0, api_status = [], retry_after = None\<rparr>"

section \<open>Results\<close>

datatype failure = Failed error | Thrown string | Undefined string

type_synonym 'a result = "failure + 'a"

definition err :: "error_code \<Rightarrow> string \<Rightarrow> 'a result" where
  "err c m = Inl (Failed (make_error c m))"

definition bind_result :: "'a result \<Rightarrow> ('a \<Rightarrow> 'b result) \<Rightarrow> 'b result" where
  "bind_result r f = (case r of Inl e \<Rightarrow> Inl e | Inr a \<Rightarrow> f a)"

text \<open>The call returns: a value or an error value, no exception, nothing undefined.\<close>

fun returns :: "'a result \<Rightarrow> bool" where
  "returns (Inr a) \<longleftrightarrow> True"
| "returns (Inl (Failed e)) \<longleftrightarrow> True"
| "returns (Inl (Thrown m)) \<longleftrightarrow> False"
| "returns (Inl (Undefined m)) \<longleftrightarrow> False"

section \<open>Lemmas\<close>

lemma bind_result_simps [simp]:
  "bind_result (Inl e) f = Inl e"
  "bind_result (Inr a) f = f a"
  by (simp_all add: bind_result_def)

lemma bind_result_Inr:
  "bind_result r f = Inr b \<longleftrightarrow> (\<exists>a. r = Inr a \<and> f a = Inr b)"
  by (cases r) auto

lemma make_error_sel [simp]:
  "code (make_error c m) = c" "message (make_error c m) = m"
  "http_status (make_error c m) = 0" "api_status (make_error c m) = []"
  "retry_after (make_error c m) = None"
  by (simp_all add: make_error_def)

lemma err_not_Inr [simp]: "err c m \<noteq> Inr a" "Inr a \<noteq> err c m"
  by (simp_all add: err_def)

lemma returns_err [simp]: "returns (err c m)"
  by (simp add: err_def)

lemma returns_cases:
  assumes "returns r"
  obtains (ok) a where "r = Inr a" | (failed) e where "r = Inl (Failed e)"
  using assms by (cases r rule: returns.cases) auto

lemma retryable_iff:
  "retryable e \<longleftrightarrow> code e \<in> {KTransport, KTimeout, KRateLimited, KServer}"
  by (cases "code e") (simp_all add: retryable_def)

lemma error_code_to_string_inj: "inj error_code_to_string"
proof (rule injI)
  fix a b
  assume "error_code_to_string a = error_code_to_string b"
  then show "a = b" by (cases a; cases b) simp_all
qed

end
