(* ===== verification/Sse.thy ===== *)
theory Sse
  imports Prelude
begin

text \<open>
  \<^verbatim>\<open>include/gemini/sse.hpp\<close> and \<^verbatim>\<open>src/sse.cpp\<close>: the incremental parser of the
  \<^verbatim>\<open>text/event-stream\<close> format.

  The handler of the parser is a C++ closure; it is modelled as a function on the payload and
  the closure's own state, which it returns updated together with its verdict.
\<close>

section \<open>State and operations\<close>

type_synonym 'h event_handler = "string \<Rightarrow> 'h \<Rightarrow> bool \<times> 'h"

record sse_parser =
  buffer :: string
  data :: string
  has_data :: bool

definition new_parser :: sse_parser where
  "new_parser = \<lparr>buffer = [], data = [], has_data = False\<rparr>"

definition dispatch :: "'h event_handler \<Rightarrow> sse_parser \<Rightarrow> 'h \<Rightarrow> bool \<times> sse_parser \<times> 'h" where
  "dispatch h p s =
     (if \<not> has_data p then (True, p, s)
      else let (keep, s') = h (data p) s
           in (keep, p\<lparr>data := [], has_data := False\<rparr>, s'))"

definition split_field :: "string \<Rightarrow> string \<times> string" where
  "split_field line =
     (case find_char (CHR '':'') line of
        None \<Rightarrow> (line, [])
      | Some colon \<Rightarrow>
          let value = drop (Suc colon) line
          in (take colon line, if value \<noteq> [] \<and> hd value = SP then tl value else value))"

definition process_line ::
  "'h event_handler \<Rightarrow> string \<Rightarrow> sse_parser \<Rightarrow> 'h \<Rightarrow> bool \<times> sse_parser \<times> 'h" where
  "process_line h line p s =
     (if line = [] then dispatch h p s
      else if hd line = CHR '':'' then (True, p, s)
      else let (field, value) = split_field line
           in if field = ''data''
              then (True, p\<lparr>data := data p @ (if has_data p then [NL] else []) @ value,
                            has_data := True\<rparr>, s)
              else (True, p, s))"

text \<open>
  The loop of \<^verbatim>\<open>feed\<close>; \<open>rest\<close> is the buffer from the index \<^verbatim>\<open>start\<close> on, which is what
  \<^verbatim>\<open>buffer_.erase(0, start)\<close> leaves.
\<close>

function feed_loop ::
  "'h event_handler \<Rightarrow> string \<Rightarrow> sse_parser \<Rightarrow> 'h \<Rightarrow> bool \<times> string \<times> sse_parser \<times> 'h" where
  "feed_loop h rest p s =
     (case find_char NL rest of
        None \<Rightarrow> (True, rest, p, s)
      | Some newline \<Rightarrow>
          let (keep, p', s') = process_line h (chop_cr (take newline rest)) p s
          in if keep then feed_loop h (drop (Suc newline) rest) p' s'
             else (False, drop (Suc newline) rest, p', s'))"
  by pat_completeness auto
termination
  by (relation "measure (\<lambda>(h, rest, p, s). length rest)") (auto dest: find_char_SomeD)

declare feed_loop.simps [simp del]

definition feed :: "'h event_handler \<Rightarrow> string \<Rightarrow> sse_parser \<Rightarrow> 'h \<Rightarrow> bool \<times> sse_parser \<times> 'h" where
  "feed h bytes p s =
     (let (keep, rest, p', s') = feed_loop h (buffer p @ bytes) p s
      in (keep, p'\<lparr>buffer := rest\<rparr>, s'))"

definition finish :: "'h event_handler \<Rightarrow> sse_parser \<Rightarrow> 'h \<Rightarrow> bool \<times> sse_parser \<times> 'h" where
  "finish h p s =
     (if buffer p \<noteq> [] then
        let (keep, p', s') = process_line h (chop_cr (buffer p)) (p\<lparr>buffer := []\<rparr>) s
        in if keep then dispatch h p' s' else (False, p', s')
      else dispatch h p s)"

text \<open>A transport hands over the body in pieces until the callback returns false.\<close>

fun feed_chunks ::
  "'h event_handler \<Rightarrow> string list \<Rightarrow> sse_parser \<Rightarrow> 'h \<Rightarrow> bool \<times> sse_parser \<times> 'h" where
  "feed_chunks h [] p s = (True, p, s)"
| "feed_chunks h (c # cs) p s =
     (let (keep, p', s') = feed h c p s
      in if keep then feed_chunks h cs p' s' else (False, p', s'))"

section \<open>Independence of the chunk boundaries\<close>

lemma process_line_buffer [simp]:
  "buffer (fst (snd (process_line h l p s))) = buffer p"
  by (auto simp: process_line_def dispatch_def split: prod.splits)

lemma feed_loop_buffer:
  "feed_loop h r p s = (k, r', p', s') \<Longrightarrow> buffer p' = buffer p"
proof (induction h r p s arbitrary: k r' p' s' rule: feed_loop.induct)
  case (1 h r p s)
  show ?case
  proof (cases "find_char NL r")
    case None
    with "1.prems" show ?thesis by (simp add: feed_loop.simps [of h r])
  next
    case (Some j)
    obtain k1 p1 s1 where pl: "process_line h (chop_cr (take j r)) p s = (k1, p1, s1)"
      by (metis prod_cases3)
    from process_line_buffer [of h "chop_cr (take j r)" p s] pl have "buffer p1 = buffer p" by simp
    with "1.IH" [OF Some pl [symmetric] refl refl, of k r' p' s'] "1.prems" Some pl show ?thesis
      by (auto simp: feed_loop.simps [of h r] split: if_splits)
  qed
qed

lemma process_line_any_buffer:
  "process_line h l (p\<lparr>buffer := b\<rparr>) s =
     (case process_line h l p s of (k, p', s') \<Rightarrow> (k, p'\<lparr>buffer := b\<rparr>, s'))"
  by (auto simp: process_line_def dispatch_def split: prod.splits)

lemma feed_loop_any_buffer:
  "feed_loop h r (p\<lparr>buffer := b\<rparr>) s =
     (case feed_loop h r p s of (k, r', p', s') \<Rightarrow> (k, r', p'\<lparr>buffer := b\<rparr>, s'))"
proof (induction h r p s rule: feed_loop.induct)
  case (1 h r p s)
  show ?case
  proof (cases "find_char NL r")
    case None
    then show ?thesis by (simp add: feed_loop.simps [of h r])
  next
    case (Some j)
    obtain k1 p1 s1 where pl: "process_line h (chop_cr (take j r)) p s = (k1, p1, s1)"
      by (metis prod_cases3)
    with Some "1.IH" [OF Some pl [symmetric] refl refl] show ?thesis
      by (auto simp: feed_loop.simps [of h r] process_line_any_buffer)
  qed
qed

lemma feed_loop_append:
  "feed_loop h (r @ b) p s =
     (case feed_loop h r p s of
        (k, r', p', s') \<Rightarrow> if k then feed_loop h (r' @ b) p' s' else (False, r' @ b, p', s'))"
proof (induction h r p s rule: feed_loop.induct)
  case (1 h r p s)
  show ?case
  proof (cases "find_char NL r")
    case None
    then show ?thesis by (simp add: feed_loop.simps [of h r])
  next
    case (Some j)
    obtain k1 p1 s1 where pl: "process_line h (chop_cr (take j r)) p s = (k1, p1, s1)"
      by (metis prod_cases3)
    from find_char_SomeD [OF Some] have j: "j < length r" and mem: "NL \<in> set r"
      using nth_mem [of j r] by auto
    from mem Some have "find_char NL (r @ b) = Some j" by (simp add: find_char_append_mem)
    with j Some pl "1.IH" [OF Some pl [symmetric] refl refl] show ?thesis
      by (auto simp: feed_loop.simps [of h "r @ b"] feed_loop.simps [of h r])
  qed
qed

lemma feed_append:
  "feed h (a @ b) p s =
     (case feed h a p s of
        (k, p', s') \<Rightarrow> if k then feed h b p' s' else (False, p'\<lparr>buffer := buffer p' @ b\<rparr>, s'))"
  using feed_loop_append [of h "buffer p @ a" b p s]
  by (auto simp: feed_def feed_loop_any_buffer split: prod.splits)

lemma feed_Nil_settled: "NL \<notin> set (buffer p) \<Longrightarrow> feed h [] p s = (True, p, s)"
  by (simp add: feed_def feed_loop.simps [of h "buffer p"] str_simps)

lemma feed_loop_settles: "feed_loop h r p s = (True, r', p', s') \<Longrightarrow> NL \<notin> set r'"
proof (induction h r p s arbitrary: r' p' s' rule: feed_loop.induct)
  case (1 h r p s)
  show ?case
  proof (cases "find_char NL r")
    case None
    with "1.prems" show ?thesis by (simp add: feed_loop.simps [of h r] str_simps)
  next
    case (Some j)
    obtain k1 p1 s1 where pl: "process_line h (chop_cr (take j r)) p s = (k1, p1, s1)"
      by (metis prod_cases3)
    with "1.IH" [OF Some pl [symmetric] refl refl] "1.prems" Some show ?thesis
      by (auto simp: feed_loop.simps [of h r] split: if_splits)
  qed
qed

lemma feed_settles: "feed h a p s = (True, p', s') \<Longrightarrow> NL \<notin> set (buffer p')"
  by (auto simp: feed_def split: prod.splits dest: feed_loop_settles)

lemma feed_chunks_concat:
  assumes "NL \<notin> set (buffer p)"
  shows "case feed_chunks h cs p s of
           (k, p', s') \<Rightarrow> \<exists>b. feed h (concat cs) p s = (k, p'\<lparr>buffer := b\<rparr>, s') \<and> (k \<longrightarrow> b = buffer p')"
  using assms
proof (induction cs arbitrary: p s)
  case Nil
  then show ?case by (auto simp: feed_Nil_settled intro: exI [of _ "buffer p"])
next
  case (Cons c cs)
  obtain k p1 s1 where f: "feed h c p s = (k, p1, s1)" by (metis prod_cases3)
  show ?case
  proof (cases k)
    case True
    with f have "NL \<notin> set (buffer p1)" by (auto dest: feed_settles)
    from Cons.IH [OF this, of s1] f True show ?thesis by (simp add: feed_append)
  next
    case False
    with f show ?thesis by (auto simp: feed_append)
  qed
qed

section \<open>Invariants of a handler's state\<close>

text \<open>
  Whatever every call of the handler keeps true of its state, every operation of the parser keeps
  true: the parser reaches the state through the handler only.
\<close>

locale handler_invariant =
  fixes h :: "'h event_handler" and inv :: "'h \<Rightarrow> bool"
  assumes keep: "inv s \<Longrightarrow> inv (snd (h d s))"
begin

lemma dispatch_keeps: "inv s \<Longrightarrow> inv (snd (snd (dispatch h p s)))"
  using keep [of s "data p"] by (auto simp: dispatch_def split: prod.splits)

lemma process_line_keeps: "inv s \<Longrightarrow> inv (snd (snd (process_line h l p s)))"
  using dispatch_keeps by (auto simp: process_line_def split: prod.splits)

lemma feed_loop_keeps: "inv s \<Longrightarrow> inv (snd (snd (snd (feed_loop h r p s))))"
proof (induction r arbitrary: p s rule: length_induct)
  case (1 r)
  show ?case
  proof (cases "find_char NL r")
    case None
    with "1.prems" show ?thesis by (simp add: feed_loop.simps [of h r])
  next
    case (Some i)
    obtain k1 p1 s1 where pl: "process_line h (chop_cr (take i r)) p s = (k1, p1, s1)"
      by (metis prod_cases3)
    with process_line_keeps [OF "1.prems", of "chop_cr (take i r)" p] have "inv s1" by simp
    moreover have "length (drop (Suc i) r) < length r"
      using find_char_SomeD [OF Some] by (cases r) auto
    ultimately show ?thesis using "1.IH" Some pl by (simp add: feed_loop.simps [of h r])
  qed
qed

lemma feed_keeps: "inv s \<Longrightarrow> inv (snd (snd (feed h b p s)))"
  using feed_loop_keeps [of s "buffer p @ b" p] by (auto simp: feed_def split: prod.splits)

lemma feed_chunks_keeps: "inv s \<Longrightarrow> inv (snd (snd (feed_chunks h cs p s)))"
proof (induction cs arbitrary: p s)
  case (Cons c cs)
  from feed_keeps [OF Cons.prems, of c p] Cons.IH show ?case by (auto split: prod.splits)
qed simp

lemma finish_keeps: "inv s \<Longrightarrow> inv (snd (snd (finish h p s)))"
  using process_line_keeps [of s "chop_cr (buffer p)" "p\<lparr>buffer := []\<rparr>"] dispatch_keeps
  by (auto simp: finish_def split: prod.splits)

end

section \<open>What the format means\<close>

text \<open>
  The stream as a document: lines, cut at every newline and with one trailing carriage return
  dropped; an empty line ends an event; the payload of an event is made of its \<^verbatim>\<open>data\<close> fields,
  one line each; an event without a \<^verbatim>\<open>data\<close> field is no event; the end of the stream ends the
  last event.
\<close>

definition line_data :: "string \<Rightarrow> string option" where
  "line_data l =
     (if l = ''data'' then Some []
      else if starts_with ''data:'' l then
        Some (if starts_with ''data: '' l then drop 6 l else drop 5 l)
      else None)"

fun event_blocks :: "string list \<Rightarrow> string list list" where
  "event_blocks [] = [[]]"
| "event_blocks (l # ls) =
     (if l = [] then [] # event_blocks ls
      else (case event_blocks ls of [] \<Rightarrow> [[l]] | b # bs \<Rightarrow> (l # b) # bs))"

definition payload_of :: "string list \<Rightarrow> string option" where
  "payload_of vs = (if vs = [] then None else Some (join_with NL vs))"

definition sse_events :: "string \<Rightarrow> string list" where
  "sse_events text =
     values_of (\<lambda>b. payload_of (values_of line_data b))
       (event_blocks (map chop_cr (split_on NL text)))"

section \<open>Handlers that never stop\<close>

fun process_lines ::
  "'h event_handler \<Rightarrow> string list \<Rightarrow> sse_parser \<Rightarrow> 'h \<Rightarrow> bool \<times> sse_parser \<times> 'h" where
  "process_lines h [] p s = (True, p, s)"
| "process_lines h (l # ls) p s =
     (let (keep, p', s') = process_line h l p s
      in if keep then process_lines h ls p' s' else (False, p', s'))"

text \<open>The events of a suffix of the lines, when the values \<open>vs\<close> are already collected.\<close>

definition events_from :: "string list \<Rightarrow> string list \<Rightarrow> string list" where
  "events_from vs ls =
     values_of payload_of
       ((vs @ values_of line_data (hd (event_blocks ls))) # map (values_of line_data) (tl (event_blocks ls)))"

definition pending :: "sse_parser \<Rightarrow> string list \<Rightarrow> bool" where
  "pending p vs \<longleftrightarrow> has_data p = (vs \<noteq> []) \<and> data p = join_with NL vs"

lemma event_blocks_nonempty [simp]: "event_blocks ls \<noteq> []"
  by (induction ls) (auto split: list.splits)

lemma events_from_Nil: "events_from vs [] = (case payload_of vs of None \<Rightarrow> [] | Some d \<Rightarrow> [d])"
  by (simp add: events_from_def split: option.splits)

lemma values_of_map: "values_of f (map g xs) = values_of (\<lambda>x. f (g x)) xs"
  by (induction xs) (auto split: option.splits)

lemma events_from_blank:
  "events_from vs ([] # ls) = (case payload_of vs of None \<Rightarrow> [] | Some d \<Rightarrow> [d]) @ events_from [] ls"
  by (cases "event_blocks ls") (auto simp: events_from_def split: option.splits)

lemma events_from_line:
  "l \<noteq> [] \<Longrightarrow>
   events_from vs (l # ls) = events_from (vs @ (case line_data l of None \<Rightarrow> [] | Some v \<Rightarrow> [v])) ls"
  by (cases "event_blocks ls") (auto simp: events_from_def split: option.splits)

lemma sse_events_eq: "sse_events text = events_from [] (map chop_cr (split_on NL text))"
proof -
  have "values_of (\<lambda>b. payload_of (values_of line_data b)) bs =
        values_of payload_of (map (values_of line_data) bs)" for bs
    by (simp add: values_of_map)
  then show ?thesis
    by (cases "event_blocks (map chop_cr (split_on NL text))")
       (auto simp: sse_events_def events_from_def)
qed

lemma split_field_data:
  "split_field l = (f, v) \<Longrightarrow> l \<noteq> [] \<Longrightarrow> hd l \<noteq> CHR '':'' \<Longrightarrow>
   line_data l = (if f = ''data'' then Some v else None)"
proof (cases "find_char (CHR '':'') l")
  case None
  assume "split_field l = (f, v)"
  with None have "f = l" "v = []" by (auto simp: split_field_def)
  moreover from None have "\<not> starts_with ''data:'' l"
    by (auto simp: find_char_None_iff starts_with_iff)
  ultimately show ?thesis by (simp add: line_data_def)
next
  case (Some i)
  assume sf: "split_field l = (f, v)"
  let ?w = "drop (Suc i) l"
  from sf Some have f: "f = take i l" and v: "v = (if ?w \<noteq> [] \<and> hd ?w = SP then tl ?w else ?w)"
    by (simp_all add: split_field_def Let_def)
  from find_char_split [OF Some] f have l: "l = f @ CHR '':'' # ?w" by simp
  from find_char_SomeD [OF Some] f have nf: "CHR '':'' \<notin> set f" by simp
  define w where "w = ?w"
  have l: "l = f @ CHR '':'' # w" unfolding w_def by (rule l)
  have v: "v = (if w \<noteq> [] \<and> hd w = SP then tl w else w)" unfolding w_def by (rule v)
  have "starts_with ''data:'' l \<longleftrightarrow> (\<exists>t. f @ CHR '':'' # w = ''data'' @ CHR '':'' # t)"
    by (simp add: starts_with_iff l)
  also have "\<dots> \<longleftrightarrow> f = ''data''"
    using sep_unique [of "CHR '':''" f "''data''"] nf by simp
  finally have sw: "starts_with ''data:'' l \<longleftrightarrow> f = ''data''" .
  have "CHR '':'' \<in> set l" by (simp add: l)
  then have "l \<noteq> ''data''" by auto
  moreover have "line_data l = Some v" if "f = ''data''"
    using that v by (cases w) (simp_all add: l line_data_def)
  ultimately show ?thesis using sw by (auto simp: line_data_def)
qed

lemma process_line_text:
  "l \<noteq> [] \<Longrightarrow>
   process_line h l p s =
     (True,
      (case line_data l of
         None \<Rightarrow> p
       | Some v \<Rightarrow> p\<lparr>data := data p @ (if has_data p then [NL] else []) @ v, has_data := True\<rparr>),
      s)"
proof (cases "hd l = CHR '':''")
  case True
  moreover assume "l \<noteq> []"
  ultimately have "line_data l = None" by (cases l) (auto simp: line_data_def)
  with True \<open>l \<noteq> []\<close> show ?thesis by (simp add: process_line_def)
next
  case False
  assume "l \<noteq> []"
  obtain f v where fv: "split_field l = (f, v)" by fastforce
  from split_field_data [OF this \<open>l \<noteq> []\<close> False] \<open>l \<noteq> []\<close> False fv show ?thesis
    by (simp add: process_line_def)
qed

lemma process_line_blank: "process_line h [] p s = dispatch h p s"
  by (simp add: process_line_def)

lemma pending_new: "pending new_parser []"
  by (simp add: pending_def new_parser_def)

lemma pending_text:
  "pending p vs \<Longrightarrow> pending (p\<lparr>data := data p @ (if has_data p then [NL] else []) @ v, has_data := True\<rparr>) (vs @ [v])"
  by (auto simp: pending_def join_with_snoc)

lemma pending_buffer [simp]: "pending (p\<lparr>buffer := b\<rparr>) vs = pending p vs"
  by (simp add: pending_def)

text \<open>
  The contract of a handler that never asks the parser to stop.  Under it the parser is a pure
  decoder: every event of the document reaches the handler, in order, once.
\<close>

locale steady_handler =
  fixes h :: "'h event_handler"
  assumes steady: "fst (h d s)"
begin

definition deliver :: "string list \<Rightarrow> 'h \<Rightarrow> 'h" where
  "deliver ds s = fold (\<lambda>d t. snd (h d t)) ds s"

lemma deliver_simps [simp]:
  "deliver [] s = s" "deliver (d # ds) s = deliver ds (snd (h d s))"
  "deliver (ds @ es) s = deliver es (deliver ds s)"
  by (simp_all add: deliver_def)

lemma dispatch_pending:
  assumes "pending p vs"
  shows "dispatch h p s =
    (True, p\<lparr>data := [], has_data := False\<rparr>, deliver (case payload_of vs of None \<Rightarrow> [] | Some d \<Rightarrow> [d]) s)"
  using assms steady [of "data p" s]
  by (cases p) (auto simp: dispatch_def pending_def payload_of_def split: prod.splits)

lemma pending_reset_iff: "pending (p\<lparr>data := [], has_data := False\<rparr>) vs \<longleftrightarrow> vs = []"
  by (cases vs) (auto simp: pending_def)

lemmas pending_reset = pending_reset_iff [THEN iffD2, OF refl]

lemma process_lines_deliver:
  "pending p vs \<Longrightarrow>
   \<exists>p' ws s'. process_lines h ls p s = (True, p', s') \<and> pending p' ws \<and> buffer p' = buffer p \<and>
     deliver (events_from vs ls) s = deliver (events_from ws []) s'"
proof (induction ls arbitrary: p vs s)
  case Nil
  then show ?case by auto
next
  case (Cons l ls)
  show ?case
  proof (cases "l = []")
    case True
    from Cons.IH [OF pending_reset, of p] dispatch_pending [OF Cons.prems, of s] True show ?thesis
      by (simp add: process_line_blank events_from_blank)
  next
    case False
    let ?p1 = "case line_data l of None \<Rightarrow> p
       | Some v \<Rightarrow> p\<lparr>data := data p @ (if has_data p then [NL] else []) @ v, has_data := True\<rparr>"
    have p1: "pending ?p1 (vs @ (case line_data l of None \<Rightarrow> [] | Some v \<Rightarrow> [v]))" "buffer ?p1 = buffer p"
      using Cons.prems pending_text [OF Cons.prems] by (auto split: option.splits)
    from Cons.IH [OF p1(1), of s] p1(2) False show ?thesis
      by (simp add: process_line_text events_from_line)
  qed
qed

lemma process_line_steady: "fst (process_line h l p s)"
  using steady [of "data p" s]
  by (cases "l = []") (auto simp: process_line_text process_line_blank dispatch_def split: prod.splits)

lemma feed_loop_lines:
  "feed_loop h r p s =
     (case process_lines h (map chop_cr (butlast (split_on NL r))) p s of
        (k, p', s') \<Rightarrow> (True, last (split_on NL r), p', s'))"
proof (induction r arbitrary: p s rule: length_induct)
  case (1 r)
  show ?case
  proof (cases "find_char NL r")
    case None
    then show ?thesis by (simp add: feed_loop.simps [of h r] split_on_find [of NL r])
  next
    case (Some i)
    obtain k1 p1 s1 where pl: "process_line h (chop_cr (take i r)) p s = (k1, p1, s1)"
      by (metis prod_cases3)
    with process_line_steady [of "chop_cr (take i r)" p s] have k1 by simp
    moreover have "length (drop (Suc i) r) < length r"
      using find_char_SomeD [OF Some] by (cases r) auto
    ultimately show ?thesis
      using 1 Some pl by (simp add: feed_loop.simps [of h r] split_on_find [of NL r])
  qed
qed

lemma process_lines_append:
  "process_lines h (ls @ ms) p s =
     (case process_lines h ls p s of (k, p', s') \<Rightarrow> if k then process_lines h ms p' s' else (False, p', s'))"
  by (induction ls arbitrary: p s) (auto split: prod.splits)

theorem feed_finish:
  assumes "pending p []" "buffer p = []"
  shows "case feed h text p s of (k, p', s') \<Rightarrow>
    k \<and> (case finish h p' s' of (k'', p'', s'') \<Rightarrow> k'' \<and> s'' = deliver (sse_events text) s)"
proof -
  let ?ls = "map chop_cr (split_on NL text)"
  let ?init = "map chop_cr (butlast (split_on NL text))" and ?l = "last (split_on NL text)"
  have ls: "?ls = ?init @ [chop_cr ?l]"
    by (metis append_butlast_last_id list.simps(8,9) map_append split_on_nonempty)
  from process_lines_deliver [OF assms(1), of "?init" s]
  obtain p1 ws s1 where p1: "process_lines h ?init p s = (True, p1, s1)" "pending p1 ws" by blast
  from process_lines_deliver [OF assms(1), of "?ls" s]
  obtain p2 us s2 where p2: "process_lines h ?ls p s = (True, p2, s2)" "pending p2 us"
    "deliver (events_from [] ?ls) s = deliver (events_from us []) s2" by blast
  from p1 p2 ls have last: "process_line h (chop_cr ?l) p1 s1 = (True, p2, s2)"
    by (simp add: process_lines_append split: prod.splits if_splits)
  have "feed h text p s = (True, p1\<lparr>buffer := ?l\<rparr>, s1)"
    using p1 assms(2) by (simp add: feed_def feed_loop_lines)
  moreover have "\<exists>q. finish h (p1\<lparr>buffer := ?l\<rparr>) s1 = (True, q, deliver (sse_events text) s)"
  proof (cases "?l = []")
    case True
    with last p1 have p2': "p2 = p1\<lparr>data := [], has_data := False\<rparr>"
      "s2 = deliver (events_from ws []) s1"
      by (simp_all add: process_line_blank dispatch_pending [of _ ws] events_from_Nil)
    with p2(2) have "us = []" by (simp add: pending_reset_iff)
    with True p1 p2(3) p2' show ?thesis
      by (simp add: finish_def dispatch_pending [of _ ws] sse_events_eq events_from_Nil payload_of_def)
  next
    case False
    then show ?thesis
      using last p2(2,3) sse_events_eq [of "text"]
      by (simp add: finish_def process_line_any_buffer dispatch_pending [of _ us] events_from_Nil)
  qed
  ultimately show ?thesis by auto
qed

end

section \<open>Handlers that stop\<close>

text \<open>The events a handler sees: all of them, up to and including the one it refuses.\<close>

fun run_events :: "'h event_handler \<Rightarrow> string list \<Rightarrow> 'h \<Rightarrow> bool \<times> 'h" where
  "run_events h [] s = (True, s)"
| "run_events h (d # ds) s =
     (let (keep, s') = h d s in if keep then run_events h ds s' else (False, s'))"

text \<open>
  A handler that stops is turned into a steady one that remembers the refusal and ignores what
  follows it.  The parser treats the two alike up to the refusal.
\<close>

definition latch :: "'h event_handler \<Rightarrow> (bool \<times> 'h) event_handler" where
  "latch h d st = (True, if fst st then h d (snd st) else st)"

interpretation latched: steady_handler "latch h"
  by unfold_locales (simp add: latch_def)

lemma latch_open: "latch h d (True, s) = (True, h d s)"
  and latch_refused: "latch h d (False, s) = (True, False, s)"
  by (simp_all add: latch_def)

interpretation refused: handler_invariant "latch h" "\<lambda>st. st = (False, s)"
  by unfold_locales (simp add: latch_def)

lemma latched_run: "latched.deliver h ds (True, s) = run_events h ds s"
proof (induction ds arbitrary: s)
  case (Cons d ds)
  have "latched.deliver h ds (False, t) = (False, t)" for t ds
    by (induction ds) (simp_all add: latch_refused)
  with Cons show ?case by (cases "h d s") (auto simp: latch_open)
qed simp

lemma dispatch_latch:
  "dispatch h p s = (k, p', s') \<Longrightarrow> dispatch (latch h) p (True, s) = (True, p', (k, s'))"
  by (auto simp: dispatch_def latch_open split: if_splits prod.splits)

lemma process_line_latch:
  "process_line h l p s = (k, p', s') \<Longrightarrow> process_line (latch h) l p (True, s) = (True, p', (k, s'))"
  using dispatch_latch [of h p s k p' s']
  by (cases "l = []") (auto simp: process_line_blank process_line_text)

lemma feed_loop_latch:
  "feed_loop h r p s = (k, r', p', s') \<Longrightarrow>
   \<exists>r'' p''. feed_loop (latch h) r p (True, s) = (True, r'', p'', (k, s')) \<and> (k \<longrightarrow> r'' = r' \<and> p'' = p')"
proof (induction h r p s arbitrary: k r' p' s' rule: feed_loop.induct)
  case (1 h r p s)
  show ?case
  proof (cases "find_char NL r")
    case None
    with "1.prems" show ?thesis
      by (simp add: feed_loop.simps [of h r] feed_loop.simps [of "latch h" r'])
  next
    case (Some j)
    obtain k1 p1 s1 where pl: "process_line h (chop_cr (take j r)) p s = (k1, p1, s1)"
      by (metis prod_cases3)
    let ?tail = "feed_loop (latch h) (drop (Suc j) r) p1 (k1, s1)"
    have step: "feed_loop (latch h) r p (True, s) = ?tail"
      using Some process_line_latch [OF pl] by (simp add: feed_loop.simps [of "latch h" r])
    show ?thesis
    proof (cases k1)
      case True
      with "1.IH" [OF Some pl [symmetric] refl refl] "1.prems" Some pl step show ?thesis
        by (simp add: feed_loop.simps [of h r])
    next
      case False
      with "1.prems" Some pl have "k = False" "s' = s1" by (simp_all add: feed_loop.simps [of h r])
      moreover have "fst ?tail" by (simp add: latched.feed_loop_lines split: prod.splits)
      moreover have "snd (snd (snd ?tail)) = (False, s1)"
        using False by (intro refused.feed_loop_keeps) simp
      ultimately show ?thesis using step by (cases ?tail) auto
    qed
  qed
qed

lemma feed_latch:
  assumes "feed h bs p s = (k, p', s')"
  shows "\<exists>p''. feed (latch h) bs p (True, s) = (True, p'', (k, s')) \<and> (k \<longrightarrow> p'' = p')"
proof -
  obtain k1 r1 p1 s1 where fl: "feed_loop h (buffer p @ bs) p s = (k1, r1, p1, s1)"
    by (metis prod_cases4)
  from feed_loop_latch [OF this] fl assms show ?thesis by (auto simp: feed_def)
qed

lemma finish_latch:
  "finish h p s = (k, p', s') \<Longrightarrow> \<exists>p''. finish (latch h) p (True, s) = (True, p'', (k, s'))"
proof -
  assume fin: "finish h p s = (k, p', s')"
  show ?thesis
  proof (cases "buffer p = []")
    case True
    with fin dispatch_latch [of h p s k p' s'] show ?thesis by (simp add: finish_def)
  next
    case False
    obtain k1 p1 s1 where pl: "process_line h (chop_cr (buffer p)) (p\<lparr>buffer := []\<rparr>) s = (k1, p1, s1)"
      by (metis prod_cases3)
    have "\<exists>p''. dispatch (latch h) p1 (k1, s1) = (True, p'', (k, s'))"
    proof (cases k1)
      case True
      with fin False pl have "dispatch h p1 s1 = (k, p', s')" by (simp add: finish_def)
      with True show ?thesis by (auto dest: dispatch_latch)
    next
      case f: False
      with fin False pl have "k = False" "s' = s1" by (simp_all add: finish_def)
      with f show ?thesis by (simp add: dispatch_def latch_refused)
    qed
    with False process_line_latch [OF pl] show ?thesis by (simp add: finish_def)
  qed
qed

text \<open>The state a handler is left in by a whole stream; a refusal ends it without \<^verbatim>\<open>finish\<close>.\<close>

lemma feed_finish_run:
  assumes "feed_chunks h chunks new_parser s = (keep, p, s1)"
  shows "if keep then (\<exists>k p'. finish h p s1 = (k, p', snd (run_events h (sse_events (concat chunks)) s)))
         else run_events h (sse_events (concat chunks)) s = (False, s1)"
proof -
  have "NL \<notin> set (buffer new_parser)" by (simp add: new_parser_def)
  from feed_chunks_concat [OF this, of h chunks s] assms obtain q where q:
    "feed h (concat chunks) new_parser s = (keep, q, s1)" "keep \<longrightarrow> q = p" by auto
  from feed_latch [OF q(1)] obtain q' where q':
    "feed (latch h) (concat chunks) new_parser (True, s) = (True, q', (keep, s1))" "keep \<longrightarrow> q' = q"
    by blast
  have "buffer new_parser = []" by (simp add: new_parser_def)
  from latched.feed_finish [OF pending_new this, of h "concat chunks" "(True, s)"] q'(1)
  have fin: "snd (snd (finish (latch h) q' (keep, s1))) = run_events h (sse_events (concat chunks)) s"
    by (auto simp: latched_run split: prod.splits)
  show ?thesis
  proof (cases keep)
    case True
    obtain k p' s2 where f: "finish h p s1 = (k, p', s2)" by (metis prod_cases3)
    from finish_latch [OF this] True fin q q' have "run_events h (sse_events (concat chunks)) s = (k, s2)"
      by auto
    with True f show ?thesis by simp
  next
    case False
    have "snd (snd (finish (latch h) q' (False, s1))) = (False, s1)"
      by (rule refused.finish_keeps) simp
    with False fin show ?thesis by simp
  qed
qed

section \<open>The collecting handler\<close>

text \<open>The closure of \<^verbatim>\<open>collect\<close> in \<^verbatim>\<open>tests/test_sse.cpp\<close>: append the payload, go on.\<close>

definition collect_event :: "string list event_handler" where
  "collect_event d s = (True, s @ [d])"

definition decode_stream :: "string list \<Rightarrow> string list" where
  "decode_stream chunks =
     (let (_, p, s) = feed_chunks collect_event chunks new_parser [];
          (_, _, s') = finish collect_event p s
      in s')"

interpretation collecting: steady_handler collect_event
  by unfold_locales (simp add: collect_event_def)

lemma collecting_deliver: "collecting.deliver ds s = s @ ds"
  by (induction ds arbitrary: s) (auto simp: collect_event_def)

lemma decode_stream_events: "decode_stream chunks = sse_events (concat chunks)"
proof -
  obtain k p' s' where cs: "feed_chunks collect_event chunks new_parser [] = (k, p', s')"
    by (metis prod_cases3)
  have "NL \<notin> set (buffer new_parser)" by (simp add: new_parser_def)
  from feed_chunks_concat [OF this, of collect_event chunks "[]"] cs obtain b where b:
    "feed collect_event (concat chunks) new_parser [] = (k, p'\<lparr>buffer := b\<rparr>, s')"
    "k \<longrightarrow> b = buffer p'" by auto
  have "buffer new_parser = []" by (simp add: new_parser_def)
  from collecting.feed_finish [OF pending_new this, of "concat chunks" "[]"] b
  show ?thesis by (auto simp: decode_stream_def cs collecting_deliver split: prod.splits)
qed

section \<open>Encoding\<close>

text \<open>The inverse: one \<^verbatim>\<open>data: \<close> line per line of the payload, then a blank line.\<close>

definition encode_event :: "string \<Rightarrow> string" where
  "encode_event d = concat (map (\<lambda>l. ''data: '' @ l @ [NL]) (split_on NL d)) @ [NL]"

lemma split_on_lines:
  "\<forall>l \<in> set ls. NL \<notin> set l \<Longrightarrow>
   split_on NL (concat (map (\<lambda>l. l @ [NL]) ls) @ t) = ls @ split_on NL t"
  by (induction ls) (auto simp: split_on_append)

lemma split_on_encode:
  "split_on NL (encode_event d @ t) = map (\<lambda>l. ''data: '' @ l) (split_on NL d) @ [[]] @ split_on NL t"
proof -
  let ?ls = "map (\<lambda>l. ''data: '' @ l) (split_on NL d)"
  have "\<forall>l \<in> set ?ls. NL \<notin> set l" by (auto dest: split_on_no_sep)
  from split_on_lines [OF this, of "NL # t"] show ?thesis
    by (simp add: encode_event_def comp_def)
qed

lemma event_blocks_append:
  "\<forall>l \<in> set ls. l \<noteq> [] \<Longrightarrow> event_blocks (ls @ [] # ms) = ls # event_blocks ms"
  by (induction ls) auto

lemma line_data_encode: "line_data (''data: '' @ l) = Some l"
  by (simp add: line_data_def)

lemma chop_cr_encode: "CR \<notin> set d \<Longrightarrow> l \<in> set (split_on NL d) \<Longrightarrow> chop_cr (''data: '' @ l) = ''data: '' @ l"
proof -
  assume "CR \<notin> set d" "l \<in> set (split_on NL d)"
  then have "CR \<notin> set l" using split_on_set by blast
  then show ?thesis by (simp add: chop_cr_noop)
qed

lemma sse_events_encode:
  "CR \<notin> set d \<Longrightarrow> sse_events (encode_event d @ t) = d # sse_events t"
proof -
  assume cr: "CR \<notin> set d"
  define ls where "ls = map (\<lambda>l. ''data: '' @ l) (split_on NL d)"
  have chop: "map chop_cr ls = ls"
    using chop_cr_encode [OF cr] by (simp add: ls_def)
  have "values_of line_data ls = map (\<lambda>l. l) (split_on NL d)"
    unfolding ls_def values_of_map by (rule values_of_all) (rule line_data_encode)
  then have "payload_of (values_of line_data ls) = Some d"
    by (simp add: payload_of_def join_with_split_on)
  moreover have "event_blocks (ls @ [] # ms) = ls # event_blocks ms" for ms
    by (rule event_blocks_append) (simp add: ls_def)
  moreover have "split_on NL (encode_event d @ t) = ls @ [] # split_on NL t"
    using split_on_encode by (simp add: ls_def)
  ultimately show ?thesis
    using chop by (simp add: sse_events_def)
qed

lemma sse_events_Nil: "sse_events [] = []"
  by (simp add: sse_events_def payload_of_def line_data_def)

section \<open>Properties\<close>

text \<open>
  How a body is cut into chunks does not matter.  For every handler, stopping ones included,
  handing over the chunks one by one and handing over all bytes at once give the same verdict and
  leave the handler in the same state (so it has seen the same events); while nobody stops, the
  parser is in the same state too.
\<close>

theorem sse_chunk_boundaries:
  assumes "feed_chunks h chunks new_parser s = (keep, p, s')"
  shows "\<exists>q. feed h (concat chunks) new_parser s = (keep, q, s') \<and> (keep \<longrightarrow> q = p)"
proof -
  have "NL \<notin> set (buffer new_parser)" by (simp add: new_parser_def)
  from feed_chunks_concat [OF this, of h chunks s] assms show ?thesis by auto
qed

theorem sse_chunk_boundaries_witness:
  "\<exists>q. feed collect_event (concat [''data: a'', [NL], [NL]]) new_parser [] = (True, q, [''a''])"
proof -
  have "feed_chunks collect_event [''data: a'', [NL], [NL]] new_parser [] = (True, new_parser, [''a''])"
    by code_simp
  from sse_chunk_boundaries [OF this] show ?thesis by auto
qed

text \<open>
  C1: the incremental parser implements the format.  Whatever the chunks, the payloads the handler
  receives are the events of the whole document: lines without their line ends, grouped at blank
  lines, the \<^verbatim>\<open>data\<close> fields of a group joined by newlines, groups without data dropped, and the
  last group flushed by \<^verbatim>\<open>finish\<close>.
\<close>

theorem sse_decodes_document: "decode_stream chunks = sse_events (concat chunks)"
  by (rule decode_stream_events)

text \<open>
  Handlers that stop.  The handler sees exactly the events of the document, in order and once
  each, up to and including the first one it refuses: if the chunks are taken to the end and the
  parser is finished, or if a chunk is refused, the handler's state is the one that handing it the
  events one by one leaves, and a refusal during the chunks is a refusal of one of the events.
\<close>

theorem sse_stopping_handler:
  "case feed_chunks h chunks new_parser s of
     (True, p, s1) \<Rightarrow> snd (snd (finish h p s1)) = snd (run_events h (sse_events (concat chunks)) s)
   | (False, p, s1) \<Rightarrow> run_events h (sse_events (concat chunks)) s = (False, s1)"
proof -
  obtain keep p s1 where fc: "feed_chunks h chunks new_parser s = (keep, p, s1)"
    by (metis prod_cases3)
  from feed_finish_run [OF fc] fc show ?thesis by (auto split: if_splits)
qed

text \<open>
  Encoding payloads as events and parsing them gives the payloads back, for payloads without
  carriage returns, multi-line and empty ones included, and for every way to cut the bytes.
\<close>

theorem sse_roundtrip:
  assumes "\<forall>d \<in> set ds. CR \<notin> set d" and "concat chunks = concat (map encode_event ds)"
  shows "decode_stream chunks = ds"
proof -
  from assms(1) have "sse_events (concat (map encode_event ds)) = ds"
    by (induction ds) (auto simp: sse_events_Nil sse_events_encode)
  with assms(2) show ?thesis by (simp add: decode_stream_events)
qed

theorem sse_roundtrip_witness:
  "decode_stream [take 3 (encode_event (''a'' @ [NL] @ ''b'')),
                  drop 3 (encode_event (''a'' @ [NL] @ ''b'')), encode_event []] = [''a'' @ [NL] @ ''b'', []]"
  by (rule sse_roundtrip) (simp_all del: take.simps drop.simps)

end
