(* ===== verification/Double.thy ===== *)
theory Double
  imports Complex_Main "HOL-Library.Log_Nat"
begin

text \<open>
  The C++ type \<^verbatim>\<open>double\<close> as IEEE 754 binary64 with rounding to nearest, ties to even: what the
  sources use of it in arithmetic, comparison and conversion.  A finite value is a sign and a
  magnitude (so \<open>-0.0\<close> and \<open>0.0\<close> are different values that compare equal); magnitudes are exact
  rationals, and every arithmetic operation is the exact one followed by \<open>mk_double\<close>, which
  rounds to 53 significant bits, flushes to the subnormal grid \<open>2^-1074\<close> and overflows to
  infinity from \<open>2^1024\<close> on.
\<close>

datatype double = NaN | Inf bool | Fin bool rat  \<comment> \<open>the flag is the sign: true for minus\<close>

section \<open>Rounding\<close>

definition pow2 :: "int \<Rightarrow> rat" where
  "pow2 e = (if 0 \<le> e then 2 ^ nat e else 1 / 2 ^ nat (- e))"

text \<open>\<open>ilog2 q\<close> is the exponent of the largest power of two not above \<open>q > 0\<close>.\<close>

definition ilog2 :: "rat \<Rightarrow> int" where
  "ilog2 q =
     (let (n, d) = quotient_of q; k = bitlen n - bitlen d
      in if q < pow2 k then k - 1 else k)"

definition round_even :: "rat \<Rightarrow> int" where
  "round_even q =
     (let f = \<lfloor>q\<rfloor>; r = q - of_int f
      in if r < 1 / 2 then f else if 1 / 2 < r then f + 1 else if even f then f else f + 1)"

definition round_mag :: "rat \<Rightarrow> rat" where
  "round_mag q =
     (if q \<le> 0 then 0
      else let e = max (ilog2 q - 52) (-1074)
           in of_int (round_even (q / pow2 e)) * pow2 e)"

definition mk_double :: "bool \<Rightarrow> rat \<Rightarrow> double" where
  "mk_double s q = (if pow2 1024 \<le> round_mag q then Inf s else Fin s (round_mag q))"

section \<open>Operations\<close>

definition signed_val :: "bool \<Rightarrow> rat \<Rightarrow> rat" where
  "signed_val s q = (if s then - q else q)"

definition double_of_rat :: "rat \<Rightarrow> double" where
  "double_of_rat q = mk_double (q < 0) \<bar>q\<bar>"

definition double_of_int :: "int \<Rightarrow> double" where
  "double_of_int i = double_of_rat (of_int i)"

fun d_neg :: "double \<Rightarrow> double" where
  "d_neg NaN = NaN"
| "d_neg (Inf s) = Inf (\<not> s)"
| "d_neg (Fin s q) = Fin (\<not> s) q"

fun d_mul :: "double \<Rightarrow> double \<Rightarrow> double" where
  "d_mul (Fin s p) (Fin t q) = mk_double (s \<noteq> t) (p * q)"
| "d_mul (Inf s) (Inf t) = Inf (s \<noteq> t)"
| "d_mul (Inf s) (Fin t q) = (if q = 0 then NaN else Inf (s \<noteq> t))"
| "d_mul (Fin s p) (Inf t) = (if p = 0 then NaN else Inf (s \<noteq> t))"
| "d_mul _ _ = NaN"

fun d_add :: "double \<Rightarrow> double \<Rightarrow> double" where
  "d_add (Fin s p) (Fin t q) =
     (let r = signed_val s p + signed_val t q
      in if r = 0 then Fin (s \<and> t) 0 else double_of_rat r)"
| "d_add (Inf s) (Inf t) = (if s = t then Inf s else NaN)"
| "d_add (Inf s) (Fin t q) = Inf s"
| "d_add (Fin s p) (Inf t) = Inf t"
| "d_add _ _ = NaN"

definition d_sub :: "double \<Rightarrow> double \<Rightarrow> double" where
  "d_sub a b = d_add a (d_neg b)"

fun d_div :: "double \<Rightarrow> double \<Rightarrow> double" where
  "d_div (Fin s p) (Fin t q) =
     (if q = 0 then (if p = 0 then NaN else Inf (s \<noteq> t)) else mk_double (s \<noteq> t) (p / q))"
| "d_div (Inf s) (Fin t q) = Inf (s \<noteq> t)"
| "d_div (Fin s p) (Inf t) = Fin (s \<noteq> t) 0"
| "d_div _ _ = NaN"

text \<open>The comparison \<open><\<close>; it is false whenever a NaN takes part.\<close>

fun d_less :: "double \<Rightarrow> double \<Rightarrow> bool" where
  "d_less (Fin s p) (Fin t q) \<longleftrightarrow> signed_val s p < signed_val t q"
| "d_less (Inf s) (Fin t q) \<longleftrightarrow> s"
| "d_less (Fin s p) (Inf t) \<longleftrightarrow> \<not> t"
| "d_less (Inf s) (Inf t) \<longleftrightarrow> s \<and> \<not> t"
| "d_less _ _ \<longleftrightarrow> False"

fun d_eq :: "double \<Rightarrow> double \<Rightarrow> bool" where
  "d_eq (Fin s p) (Fin t q) \<longleftrightarrow> signed_val s p = signed_val t q"
| "d_eq (Inf s) (Inf t) \<longleftrightarrow> s = t"
| "d_eq _ _ \<longleftrightarrow> False"

definition d_le :: "double \<Rightarrow> double \<Rightarrow> bool" where
  "d_le a b \<longleftrightarrow> d_less a b \<or> d_eq a b"

text \<open>\<^verbatim>\<open>std::min(a, b)\<close> is \<open>b < a ? b : a\<close> and \<^verbatim>\<open>std::max(a, b)\<close> is \<open>a < b ? b : a\<close>.\<close>

definition d_min :: "double \<Rightarrow> double \<Rightarrow> double" where
  "d_min a b = (if d_less b a then b else a)"

definition d_max :: "double \<Rightarrow> double \<Rightarrow> double" where
  "d_max a b = (if d_less a b then b else a)"

fun d_isfinite :: "double \<Rightarrow> bool" where
  "d_isfinite (Fin s q) \<longleftrightarrow> True"
| "d_isfinite _ \<longleftrightarrow> False"

text \<open>
  \<^verbatim>\<open>static_cast<std::int64_t>(d)\<close>: truncation towards zero; \<^const>\<open>None\<close> where the standard makes
  the conversion undefined (NaN, infinities, values that do not fit).
\<close>

fun d_to_i64 :: "double \<Rightarrow> int option" where
  "d_to_i64 (Fin s q) =
     (let i = (if s then - \<lfloor>q\<rfloor> else \<lfloor>q\<rfloor>)
      in if - (2 ^ 63) \<le> i \<and> i < 2 ^ 63 then Some i else None)"
| "d_to_i64 _ = None"

text \<open>\<^verbatim>\<open>std::ceil\<close>; the result of a finite argument is an integer and exactly representable.\<close>

fun d_ceil :: "double \<Rightarrow> double" where
  "d_ceil (Fin s q) = (if s then Fin True (of_int \<lfloor>q\<rfloor>) else Fin False (of_int \<lceil>q\<rceil>))"
| "d_ceil d = d"

section \<open>Powers of two\<close>

lemma pow2_pos [simp]: "0 < pow2 e"
  by (simp add: pow2_def)

lemma pow2_nonzero [simp]: "pow2 e \<noteq> 0"
  using pow2_pos [of e] by linarith

lemma pow2_nonneg [simp]: "0 \<le> pow2 e"
  using pow2_pos [of e] by linarith

lemma pow2_powi: "pow2 e = 2 powi e"
  by (auto simp: pow2_def power_int_def field_simps)

lemma pow2_add: "pow2 (a + b) = pow2 a * pow2 b"
  by (simp add: pow2_powi power_int_add)

lemma pow2_diff: "pow2 (a - b) = pow2 a / pow2 b"
  by (simp add: pow2_powi power_int_diff)

lemma pow2_le_iff [simp]: "pow2 a \<le> pow2 b \<longleftrightarrow> a \<le> b"
  unfolding pow2_powi
  using power_int_increasing [of a b "2 :: rat"] power_int_strict_increasing [of b a "2 :: rat"]
  by (cases "a \<le> b") auto

lemma pow2_less_iff [simp]: "pow2 a < pow2 b \<longleftrightarrow> a < b"
  using pow2_le_iff [of b a] by (simp add: not_le [symmetric])

lemma pow2_Suc: "pow2 (e + 1) = 2 * pow2 e"
  by (simp add: pow2_add) (simp add: pow2_def)

lemma pow2_nat: "0 \<le> e \<Longrightarrow> pow2 e = of_int (2 ^ nat e)"
  by (simp add: pow2_def)

lemma bitlen_pow2_bounds:
  assumes "0 < n"
  shows "pow2 (bitlen n - 1) \<le> of_int n" "of_int n < pow2 (bitlen n)"
proof -
  have "1 \<le> bitlen n" using assms by (metis bitlen_eq_zero_iff bitlen_nonneg int_one_le_iff_zero_less le_less not_le)
  with bitlen_bounds [OF assms] show "pow2 (bitlen n - 1) \<le> of_int n" "of_int n < pow2 (bitlen n)"
    by (simp_all add: pow2_nat del: of_int_power of_int_numeral)
qed

lemma ilog2_bounds:
  assumes "0 < q"
  shows "pow2 (ilog2 q) \<le> q \<and> q < pow2 (ilog2 q + 1)"
proof -
  obtain n d where nd: "quotient_of q = (n, d)" by fastforce
  from quotient_of_denom_pos [OF nd] have d: "0 < d" .
  from quotient_of_div [OF nd] have q: "q = of_int n / of_int d" .
  with assms d have n: "0 < n" by (simp add: zero_less_divide_iff)
  let ?k = "bitlen n - bitlen d"
  have "q < pow2 (bitlen n) / pow2 (bitlen d - 1)"
    unfolding q using bitlen_pow2_bounds [OF n] bitlen_pow2_bounds [OF d] n d
    by (intro frac_less) auto
  then have up: "q < pow2 (?k + 1)"
    by (simp add: pow2_diff [symmetric] algebra_simps)
  have "pow2 (bitlen n - 1) / pow2 (bitlen d) \<le> q"
    unfolding q using bitlen_pow2_bounds [OF n] bitlen_pow2_bounds [OF d] n d
    by (intro frac_le) auto
  then have "pow2 (?k - 1) \<le> q"
    by (simp add: pow2_diff [symmetric] algebra_simps)
  with up show ?thesis by (auto simp: ilog2_def nd Let_def)
qed

lemma ilog2_eq:
  assumes "pow2 k \<le> q" "q < pow2 (k + 1)"
  shows "ilog2 q = k"
proof -
  have "0 < q" using assms(1) pow2_pos [of k] by linarith
  from ilog2_bounds [OF this] assms have "pow2 k < pow2 (ilog2 q + 1)" "pow2 (ilog2 q) < pow2 (k + 1)"
    by linarith+
  then show ?thesis by simp
qed

lemma ilog2_mono: "0 < p \<Longrightarrow> p \<le> q \<Longrightarrow> ilog2 p \<le> ilog2 q"
proof -
  assume "0 < p" "p \<le> q"
  then have "pow2 (ilog2 p) < pow2 (ilog2 q + 1)"
    using ilog2_bounds [of p] ilog2_bounds [of q] by linarith
  then show ?thesis by simp
qed

section \<open>Rounding to an integer\<close>

lemma round_even_of_int [simp]: "round_even (of_int i) = i"
  by (simp add: round_even_def)

lemma round_even_cases: "round_even q = \<lfloor>q\<rfloor> \<or> (round_even q = \<lfloor>q\<rfloor> + 1 \<and> of_int \<lfloor>q\<rfloor> < q)"
  by (auto simp: round_even_def Let_def)

lemma round_even_mono:
  assumes "p \<le> q"
  shows "round_even p \<le> round_even q"
proof (cases "\<lfloor>p\<rfloor> = \<lfloor>q\<rfloor>")
  case True
  with assms show ?thesis by (auto simp: round_even_def Let_def)
next
  case False
  with floor_mono [OF assms] have "\<lfloor>p\<rfloor> + 1 \<le> \<lfloor>q\<rfloor>" by linarith
  then show ?thesis using round_even_cases [of p] round_even_cases [of q] by linarith
qed

lemma round_even_le: "q \<le> of_int i \<Longrightarrow> round_even q \<le> i"
  using round_even_mono [of q "of_int i"] by simp

lemma round_even_ge: "of_int i \<le> q \<Longrightarrow> i \<le> round_even q"
  using round_even_mono [of "of_int i" q] by simp

section \<open>Rounding to a magnitude\<close>

definition grid_exp :: "rat \<Rightarrow> int" where
  "grid_exp q = max (ilog2 q - 52) (-1074)"

lemma round_mag_pos:
  "0 < q \<Longrightarrow> round_mag q = of_int (round_even (q / pow2 (grid_exp q))) * pow2 (grid_exp q)"
  by (simp add: round_mag_def grid_exp_def Let_def)

lemma round_mag_nonneg [simp]: "0 \<le> round_mag q"
proof (cases "0 < q")
  case True
  then have "0 \<le> round_even (q / pow2 (grid_exp q))" by (intro round_even_ge) (simp add: less_imp_le)
  with True show ?thesis by (simp add: round_mag_pos less_imp_le)
qed (simp add: round_mag_def)

lemma round_mag_zero [simp]: "round_mag 0 = 0"
  by (simp add: round_mag_def)

text \<open>Magnitudes a \<^verbatim>\<open>double\<close> can hold, but for the upper bound.\<close>

definition representable :: "rat \<Rightarrow> bool" where
  "representable q \<longleftrightarrow> (\<exists>m e. q = of_int m * pow2 e \<and> 0 \<le> m \<and> m < 2 ^ 53 \<and> -1074 \<le> e)"

lemma grid_exp_upper:
  assumes "0 < q" "q < pow2 (e + 53)" "-1074 \<le> e"
  shows "grid_exp q \<le> e"
proof -
  from ilog2_bounds [OF assms(1)] assms(2) have "pow2 (ilog2 q) < pow2 (e + 53)" by linarith
  with assms(3) show ?thesis by (simp add: grid_exp_def)
qed

lemma round_mag_representable:
  assumes "representable q"
  shows "round_mag q = q"
proof (cases "q = 0")
  case False
  from assms obtain m e where q: "q = of_int m * pow2 e" "0 \<le> m" "m < 2 ^ 53" "-1074 \<le> e"
    by (auto simp: representable_def)
  from q(1,2) False have m: "0 < m" by (auto simp: le_less)
  then have pos: "0 < q" by (simp add: q(1))
  have "(of_int m :: rat) < of_int (2 ^ 53)" using q(3) by (simp only: of_int_less_iff)
  moreover have "of_int (2 ^ 53) = pow2 53" by (simp add: pow2_def)
  ultimately have "q < pow2 53 * pow2 e" unfolding q(1) by (metis mult_strict_right_mono pow2_pos)
  then have "q < pow2 (e + 53)" by (simp add: pow2_add mult.commute)
  from grid_exp_upper [OF pos this q(4)] have g: "grid_exp q \<le> e" .
  have "q / pow2 (grid_exp q) = of_int m * pow2 (e - grid_exp q)"
    by (simp add: q(1) pow2_diff)
  also have "\<dots> = of_int (m * 2 ^ nat (e - grid_exp q))"
    using g by (simp add: pow2_def)
  finally have "round_even (q / pow2 (grid_exp q)) = m * 2 ^ nat (e - grid_exp q)"
    by (simp only: round_even_of_int)
  then have "round_mag q = of_int m * (of_int (2 ^ nat (e - grid_exp q)) * pow2 (grid_exp q))"
    using pos by (simp add: round_mag_pos)
  also have "of_int (2 ^ nat (e - grid_exp q)) = pow2 (e - grid_exp q)"
    using g by (simp add: pow2_def)
  finally show ?thesis by (simp add: q(1) pow2_add [symmetric])
qed simp

lemma grid_exp_mono: "0 < p \<Longrightarrow> p \<le> q \<Longrightarrow> grid_exp p \<le> grid_exp q"
  using ilog2_mono [of p q] by (simp add: grid_exp_def)

lemma round_even_grid_le:
  assumes "0 < q"
  shows "round_even (q / pow2 (grid_exp q)) \<le> 2 ^ 53"
proof (rule round_even_le)
  have "q < pow2 (ilog2 q + 1)" using ilog2_bounds [OF assms] by simp
  also have "\<dots> \<le> pow2 (grid_exp q + 53)" by (simp add: grid_exp_def)
  finally have "q < pow2 53 * pow2 (grid_exp q)" by (simp add: pow2_add mult.commute)
  moreover have "of_int (2 ^ 53) = pow2 53" by (simp add: pow2_def)
  ultimately show "q / pow2 (grid_exp q) \<le> of_int (2 ^ 53)"
    by (simp add: pos_divide_le_eq del: of_int_power)
qed

lemma round_mag_le_pow2: "0 < q \<Longrightarrow> round_mag q \<le> pow2 (grid_exp q + 53)"
proof -
  assume q: "0 < q"
  have "(of_int (round_even (q / pow2 (grid_exp q))) :: rat) \<le> of_int (2 ^ 53)"
    using round_even_grid_le [OF q] by (simp only: of_int_le_iff)
  moreover have "of_int (2 ^ 53) = pow2 53" by (simp add: pow2_def)
  ultimately show ?thesis
    by (simp add: round_mag_pos [OF q] pow2_add mult.commute [of "pow2 (grid_exp q)"] mult_right_mono
        del: of_int_power)
qed

lemma round_mag_mono:
  assumes "p \<le> q"
  shows "round_mag p \<le> round_mag q"
proof (cases "0 < p")
  case True
  then have q: "0 < q" using assms by simp
  show ?thesis
  proof (cases "grid_exp p = grid_exp q")
    case True
    have "p / pow2 (grid_exp q) \<le> q / pow2 (grid_exp q)" using assms by (simp add: divide_right_mono)
    from round_even_mono [OF this] True show ?thesis
      by (simp add: round_mag_pos \<open>0 < p\<close> q)
  next
    case False
    with grid_exp_mono [OF \<open>0 < p\<close> assms] have lt: "grid_exp p < grid_exp q" by simp
    then have g: "grid_exp q = ilog2 q - 52" by (auto simp: grid_exp_def)
    then have "pow2 (grid_exp q + 52) \<le> q" using ilog2_bounds [OF q] by simp
    then have "of_int (2 ^ 52) \<le> q / pow2 (grid_exp q)"
      by (simp add: pow2_add pos_le_divide_eq mult.commute) (simp add: pow2_def)
    from round_even_ge [OF this] have "(of_int (2 ^ 52) :: rat) \<le> of_int (round_even (q / pow2 (grid_exp q)))"
      by (simp only: of_int_le_iff)
    moreover have "of_int (2 ^ 52) = pow2 52" by (simp add: pow2_def)
    ultimately have "pow2 (grid_exp q + 52) \<le> round_mag q"
      by (simp add: round_mag_pos [OF q] pow2_add mult.commute [of "pow2 (grid_exp q)"] mult_right_mono
          del: of_int_power)
    moreover have "pow2 (grid_exp p + 53) \<le> pow2 (grid_exp q + 52)" using lt by simp
    ultimately show ?thesis using round_mag_le_pow2 [OF \<open>0 < p\<close>] by linarith
  qed
next
  case False
  then show ?thesis using round_mag_nonneg [of q] by (simp add: round_mag_def)
qed

lemma representable_round_mag [simp]: "representable (round_mag q)"
proof (cases "0 < q")
  case True
  let ?m = "round_even (q / pow2 (grid_exp q))" and ?e = "grid_exp q"
  have m: "0 \<le> ?m" "?m \<le> 2 ^ 53" and e: "-1074 \<le> ?e"
    using True round_even_grid_le [OF True] by (auto intro: round_even_ge simp: less_imp_le grid_exp_def)
  show ?thesis
  proof (cases "?m = 2 ^ 53")
    case True
    then have "round_mag q = of_int (2 ^ 52) * pow2 (?e + 1)"
      using \<open>0 < q\<close> by (simp add: round_mag_pos pow2_Suc)
    with e show ?thesis unfolding representable_def by (intro exI [of _ "2 ^ 52"] exI [of _ "?e + 1"]) simp
  next
    case False
    with m e \<open>0 < q\<close> show ?thesis unfolding representable_def
      by (intro exI [of _ ?m] exI [of _ ?e]) (simp add: round_mag_pos)
  qed
next
  case False
  then show ?thesis
    unfolding representable_def by (intro exI [of _ 0] exI [of _ 0]) (simp add: round_mag_def)
qed

lemma representable_of_int: "0 \<le> i \<Longrightarrow> i < 2 ^ 53 \<Longrightarrow> representable (of_int i)"
  unfolding representable_def by (intro exI [of _ i] exI [of _ 0]) (simp add: pow2_def)

section \<open>Values of doubles\<close>

text \<open>The values a \<^verbatim>\<open>double\<close> can have: magnitudes are representable and below \<open>2^1024\<close>.\<close>

fun wf_double :: "double \<Rightarrow> bool" where
  "wf_double (Fin s q) \<longleftrightarrow> representable q \<and> q < pow2 1024"
| "wf_double _ \<longleftrightarrow> True"

lemma representable_nonneg: "representable q \<Longrightarrow> 0 \<le> q"
  by (metis round_mag_nonneg round_mag_representable)

lemma wf_mk_double [simp]: "wf_double (mk_double s q)"
  by (simp add: mk_double_def not_le)

lemma wf_double_of_int [simp]: "wf_double (double_of_int i)"
  by (simp add: double_of_int_def double_of_rat_def)

lemma wf_double_arith [simp]:
  "wf_double (d_mul a b)" "wf_double (d_div a b)" "wf_double (d_add a b)"
proof -
  have z: "representable 0" using representable_of_int [of 0] by simp
  show "wf_double (d_mul a b)" by (cases "(a, b)" rule: d_mul.cases) auto
  show "wf_double (d_div a b)" using z by (cases "(a, b)" rule: d_div.cases) auto
  show "wf_double (d_add a b)" using z
    by (cases "(a, b)" rule: d_add.cases) (auto simp: double_of_rat_def Let_def)
qed

lemma mk_double_exact: "representable q \<Longrightarrow> q < pow2 1024 \<Longrightarrow> mk_double s q = Fin s q"
  by (simp add: mk_double_def round_mag_representable)

lemma double_of_int_exact:
  assumes "\<bar>i\<bar> < 2 ^ 53"
  shows "double_of_int i = Fin (i < 0) (of_int \<bar>i\<bar>)"
proof -
  have "(of_int \<bar>i\<bar> :: rat) < of_int (2 ^ 53)" using assms by (simp only: of_int_less_iff)
  also have "\<dots> = pow2 53" by (simp add: pow2_def)
  also have "\<dots> \<le> pow2 1024" by simp
  finally show ?thesis
    using representable_of_int [OF _ assms] by (simp add: double_of_int_def double_of_rat_def mk_double_exact)
qed

lemma mk_double_nat:
  assumes "n < 2 ^ 53"
  shows "mk_double s (of_nat n) = Fin s (of_nat n)"
proof -
  have "(of_nat n :: rat) = of_int (int n)" by simp
  moreover have "(of_int (int n) :: rat) < of_int (2 ^ 53)" using assms by (simp only: of_int_less_iff) auto
  moreover have "(of_int (2 ^ 53) :: rat) = pow2 53" "pow2 53 \<le> pow2 1024" by (simp_all add: pow2_def)
  ultimately show ?thesis
    using representable_of_int [of "int n"] assms by (simp add: mk_double_exact del: of_int_power)
qed

lemma double_of_int_nat: "n < 2 ^ 53 \<Longrightarrow> double_of_int (int n) = Fin False (of_nat n)"
  using double_of_int_exact [of "int n"] by simp

end
