(* ===== verification/Json.thy ===== *)
theory Json
  imports Errors Double
begin

text \<open>
  The interface of the JSON library (nlohmann::json, fetched by the build and not part of the
  sources).  Every definition that handles JSON takes the library as an argument: a record of
  the member functions the sources call.  The locale \<open>json_api\<close> states the documented behaviour
  the sources rely on; it says nothing about how text is parsed or printed.

  Conventions: \<open>json_find j k\<close> is \<^verbatim>\<open>j.find(k)\<close>, \<^const>\<open>None\<close> for \<^verbatim>\<open>end()\<close>, which is also the result on
  a value that is not an object; \<open>json_get_string j\<close> is \<^verbatim>\<open>j.get<std::string>()\<close> guarded by
  \<^verbatim>\<open>j.is_string()\<close>, and so on; \<open>json_parse t\<close> is \<^verbatim>\<open>json::parse(t, nullptr, false)\<close>, \<^const>\<open>None\<close> when
  \<^verbatim>\<open>is_discarded()\<close>; \<open>json_dump j\<close> is \<^verbatim>\<open>j.dump()\<close>, \<^const>\<open>None\<close> when it throws \<^verbatim>\<open>type_error.316\<close>
  because a string of \<open>j\<close> is not valid UTF-8.
\<close>

section \<open>The library as a parameter\<close>

record 'j json_lib =
  json_null :: 'j
  json_object :: "(string \<times> 'j) list \<Rightarrow> 'j"
  json_array :: "'j list \<Rightarrow> 'j"
  json_string :: "string \<Rightarrow> 'j"
  json_int :: "int \<Rightarrow> 'j"
  json_double :: "double \<Rightarrow> 'j"
  json_bool :: "bool \<Rightarrow> 'j"
  json_set :: "'j \<Rightarrow> string \<Rightarrow> 'j \<Rightarrow> 'j"
  json_find :: "'j \<Rightarrow> string \<Rightarrow> 'j option"
  json_is_null :: "'j \<Rightarrow> bool"
  json_is_object :: "'j \<Rightarrow> bool"
  json_empty :: "'j \<Rightarrow> bool"
  json_get_string :: "'j \<Rightarrow> string option"
  json_get_int :: "'j \<Rightarrow> int option"
  json_get_bool :: "'j \<Rightarrow> bool option"
  json_get_array :: "'j \<Rightarrow> 'j list option"
  json_parse :: "string \<Rightarrow> 'j option"
  json_dump :: "'j \<Rightarrow> string option"

text \<open>
  \<^verbatim>\<open>j.value(key, default)\<close> for a Boolean default: a key that is present with a value of another
  type (null included) makes it throw \<^verbatim>\<open>type_error.302\<close>.
\<close>

definition value_bool :: "'j json_lib \<Rightarrow> 'j \<Rightarrow> string \<Rightarrow> bool \<Rightarrow> bool result" where
  "value_bool J j k dflt =
     (case json_find J j k of
        None \<Rightarrow> Inr dflt
      | Some v \<Rightarrow> (case json_get_bool J v of Some b \<Rightarrow> Inr b | None \<Rightarrow> Inl (Thrown ''type_error.302'')))"

definition value_string :: "'j json_lib \<Rightarrow> 'j \<Rightarrow> string \<Rightarrow> string \<Rightarrow> string result" where
  "value_string J j k dflt =
     (case json_find J j k of
        None \<Rightarrow> Inr dflt
      | Some v \<Rightarrow> (case json_get_string J v of Some s \<Rightarrow> Inr s | None \<Rightarrow> Inl (Thrown ''type_error.302'')))"

section \<open>Documented behaviour\<close>

locale json_api =
  fixes J :: "'j json_lib"
  assumes null_is_null: "json_is_null J (json_null J)"
    and find_null: "json_find J (json_null J) k = None"
    and object_is_object: "json_is_object J (json_object J kvs)"
    and find_object: "distinct (map fst kvs) \<Longrightarrow> json_find J (json_object J kvs) k = map_of kvs k"
    and set_is_object:
      "json_is_null J j \<or> json_is_object J j \<Longrightarrow> json_is_object J (json_set J j k v)"
    and find_set:
      "json_is_null J j \<or> json_is_object J j \<Longrightarrow>
       json_find J (json_set J j k v) k' = (if k' = k then Some v else json_find J j k')"
    and get_string: "json_get_string J (json_string J s) = Some s"
    and get_bool: "json_get_bool J (json_bool J b) = Some b"
    and get_int: "- (2 ^ 63) \<le> i \<Longrightarrow> i < 2 ^ 63 \<Longrightarrow> json_get_int J (json_int J i) = Some i"
    and get_array: "json_get_array J (json_array J js) = Some js"
begin

lemmas api_simps =
  null_is_null find_null object_is_object find_object set_is_object find_set get_string get_bool
  get_array

lemma find_set_null:
  "json_find J (json_set J (json_null J) k v) k' = (if k' = k then Some v else None)"
  by (simp add: api_simps)

lemma value_bool_set:
  "json_is_object J j \<Longrightarrow> value_bool J (json_set J j k (json_bool J b)) k d = Inr b"
  by (simp add: value_bool_def api_simps)

lemma value_bool_absent: "json_find J j k = None \<Longrightarrow> value_bool J j k d = Inr d"
  by (simp add: value_bool_def)

end

section \<open>A reference instance\<close>

text \<open>
  JSON values as a data type, with objects as association lists in which a key occurs once.
  The parser and the printer stay parameters.  It shows that the documented behaviour can hold,
  and the concrete instances of the properties are built on it.
\<close>

datatype jval =
    JNull
  | JBool bool
  | JInt int
  | JDouble double
  | JString string
  | JArray "jval list"
  | JObject "(string \<times> jval) list"

fun obj_set :: "(string \<times> 'a) list \<Rightarrow> string \<Rightarrow> 'a \<Rightarrow> (string \<times> 'a) list" where
  "obj_set [] k v = [(k, v)]"
| "obj_set ((k', v') # kvs) k v = (if k' = k then (k, v) # kvs else (k', v') # obj_set kvs k v)"

fun jval_find :: "jval \<Rightarrow> string \<Rightarrow> jval option" where
  "jval_find (JObject kvs) k = map_of kvs k"
| "jval_find _ k = None"

fun jval_set :: "jval \<Rightarrow> string \<Rightarrow> jval \<Rightarrow> jval" where
  "jval_set (JObject kvs) k v = JObject (obj_set kvs k v)"
| "jval_set JNull k v = JObject [(k, v)]"
| "jval_set j k v = j"

fun jval_empty :: "jval \<Rightarrow> bool" where
  "jval_empty JNull = True"
| "jval_empty (JArray js) = (js = [])"
| "jval_empty (JObject kvs) = (kvs = [])"
| "jval_empty _ = False"

definition jval_lib :: "(string \<Rightarrow> jval option) \<Rightarrow> (jval \<Rightarrow> string option) \<Rightarrow> jval json_lib" where
  "jval_lib parse dump =
     \<lparr>json_null = JNull, json_object = JObject, json_array = JArray, json_string = JString,
      json_int = JInt, json_double = JDouble, json_bool = JBool, json_set = jval_set,
      json_find = jval_find,
      json_is_null = (\<lambda>j. case j of JNull \<Rightarrow> True | _ \<Rightarrow> False),
      json_is_object = (\<lambda>j. case j of JObject _ \<Rightarrow> True | _ \<Rightarrow> False),
      json_empty = jval_empty,
      json_get_string = (\<lambda>j. case j of JString s \<Rightarrow> Some s | _ \<Rightarrow> None),
      json_get_int = (\<lambda>j. case j of JInt i \<Rightarrow> Some i | _ \<Rightarrow> None),
      json_get_bool = (\<lambda>j. case j of JBool b \<Rightarrow> Some b | _ \<Rightarrow> None),
      json_get_array = (\<lambda>j. case j of JArray js \<Rightarrow> Some js | _ \<Rightarrow> None),
      json_parse = parse, json_dump = dump\<rparr>"

lemma map_of_obj_set: "map_of (obj_set kvs k v) k' = (if k' = k then Some v else map_of kvs k')"
  by (induction kvs) auto

lemma jval_lib_sel [simp]:
  "json_null (jval_lib p d) = JNull" "json_object (jval_lib p d) = JObject"
  "json_array (jval_lib p d) = JArray" "json_string (jval_lib p d) = JString"
  "json_int (jval_lib p d) = JInt" "json_double (jval_lib p d) = JDouble"
  "json_bool (jval_lib p d) = JBool" "json_set (jval_lib p d) = jval_set"
  "json_find (jval_lib p d) = jval_find" "json_empty (jval_lib p d) = jval_empty"
  "json_parse (jval_lib p d) = p" "json_dump (jval_lib p d) = d"
  by (simp_all add: jval_lib_def)

lemma jval_lib_get [simp]:
  "json_get_string (jval_lib p d) j = (case j of JString s \<Rightarrow> Some s | _ \<Rightarrow> None)"
  "json_get_int (jval_lib p d) j = (case j of JInt i \<Rightarrow> Some i | _ \<Rightarrow> None)"
  "json_get_bool (jval_lib p d) j = (case j of JBool b \<Rightarrow> Some b | _ \<Rightarrow> None)"
  "json_get_array (jval_lib p d) j = (case j of JArray js \<Rightarrow> Some js | _ \<Rightarrow> None)"
  "json_is_object (jval_lib p d) j = (case j of JObject _ \<Rightarrow> True | _ \<Rightarrow> False)"
  "json_is_null (jval_lib p d) j = (case j of JNull \<Rightarrow> True | _ \<Rightarrow> False)"
  by (simp_all add: jval_lib_def)

interpretation reference_json: json_api "jval_lib parse dump"
proof unfold_locales
  fix j k v k'
  assume "json_is_null (jval_lib parse dump) j \<or> json_is_object (jval_lib parse dump) j"
  then show "json_is_object (jval_lib parse dump) (json_set (jval_lib parse dump) j k v)"
    and "json_find (jval_lib parse dump) (json_set (jval_lib parse dump) j k v) k' =
      (if k' = k then Some v else json_find (jval_lib parse dump) j k')"
    by (cases j; simp add: map_of_obj_set)+
qed simp_all

end
