(* ===== verification/Types.thy ===== *)
theory Types
  imports Json
begin

text \<open>
  \<^verbatim>\<open>include/gemini/types.hpp\<close> and \<^verbatim>\<open>src/types.cpp\<close>: the value types of the API and the folding of
  streamed chunks into one response.  \<^typ>\<open>'j\<close> is the JSON value type.
\<close>

section \<open>Data\<close>

datatype role = User | Model

fun role_to_string :: "role \<Rightarrow> string" where
  "role_to_string Model = ''model''"
| "role_to_string User = ''user''"

record 'j function_call =
  fc_name :: string
  fc_args :: 'j
  fc_id :: string

record 'j function_response =
  fr_name :: string
  fr_response :: 'j
  fr_id :: string

text \<open>The variant \<^verbatim>\<open>Part::value\<close>.\<close>

datatype 'j part_value =
    Text string
  | Call "'j function_call"
  | Response "'j function_response"

record 'j part =
  part_value :: "'j part_value"
  thought :: bool
  thought_signature :: string

record 'j content =
  role :: role
  parts :: "'j part list"

record 'j function_declaration =
  fd_name :: string
  fd_description :: string
  fd_parameters :: 'j

record 'j generation_config =
  temperature :: "double option"
  top_p :: "double option"
  top_k :: "int option"
  max_output_tokens :: "int option"
  candidate_count :: "int option"
  seed :: "int option"
  thinking_budget :: "int option"
  response_mime_type :: "string option"
  response_schema :: 'j
  stop_sequences :: "string list"

definition plain_config :: "'j json_lib \<Rightarrow> 'j generation_config" where
  "plain_config J =
     \<lparr>temperature = None, top_p = None, top_k = None, max_output_tokens = None, candidate_count = None,
      seed = None, thinking_budget = None, response_mime_type = None, response_schema = json_null J,
      stop_sequences = []\<rparr>"

record safety_setting =
  category :: string
  threshold :: string

record 'j generate_request =
  contents :: "'j content list"
  system_instruction :: "'j content option"
  tools :: "'j function_declaration list"
  config :: "'j generation_config"
  safety_settings :: "safety_setting list"

text \<open>The counters are \<^verbatim>\<open>std::int64_t\<close>.\<close>

record usage_metadata =
  prompt_tokens :: int
  candidates_tokens :: int
  thoughts_tokens :: int
  total_tokens :: int

record 'j candidate =
  cand_content :: "'j content"
  cand_finish_reason :: string
  cand_index :: int

record 'j generate_response =
  candidates :: "'j candidate list"
  usage :: usage_metadata
  model_version :: string
  response_id :: string
  prompt_block_reason :: "string option"

record model_info =
  mi_name :: string
  mi_display_name :: string
  mi_description :: string
  mi_input_token_limit :: int
  mi_output_token_limit :: int
  mi_supported_methods :: "string list"

section \<open>Constructors and accessors\<close>

definition text_part :: "string \<Rightarrow> 'j part" where
  "text_part t = \<lparr>part_value = Text t, thought = False, thought_signature = []\<rparr>"

definition response_part :: "'j function_response \<Rightarrow> 'j part" where
  "response_part r = \<lparr>part_value = Response r, thought = False, thought_signature = []\<rparr>"

fun as_text :: "'j part_value \<Rightarrow> string option" where
  "as_text (Text t) = Some t"
| "as_text _ = None"

fun as_call :: "'j part_value \<Rightarrow> 'j function_call option" where
  "as_call (Call c) = Some c"
| "as_call _ = None"

fun as_response :: "'j part_value \<Rightarrow> 'j function_response option" where
  "as_response (Response r) = Some r"
| "as_response _ = None"

definition user_content :: "string \<Rightarrow> 'j content" where
  "user_content t = \<lparr>role = User, parts = [text_part t]\<rparr>"

definition model_content :: "string \<Rightarrow> 'j content" where
  "model_content t = \<lparr>role = Model, parts = [text_part t]\<rparr>"

fun parts_text :: "'j part list \<Rightarrow> string" where
  "parts_text [] = []"
| "parts_text (p # ps) =
     (case as_text (part_value p) of
        Some t \<Rightarrow> (if \<not> thought p then t else [])
      | None \<Rightarrow> []) @ parts_text ps"

definition content_text :: "'j content \<Rightarrow> string" where
  "content_text c = parts_text (parts c)"

definition zero_usage :: usage_metadata where
  "zero_usage = \<lparr>prompt_tokens = 0, candidates_tokens = 0, thoughts_tokens = 0, total_tokens = 0\<rparr>"

text \<open>\<^verbatim>\<open>operator+=\<close>; a sum beyond 64 bits, which C++ leaves undefined, wraps around in the model.\<close>

definition add_usage :: "usage_metadata \<Rightarrow> usage_metadata \<Rightarrow> usage_metadata" where
  "add_usage u v =
     \<lparr>prompt_tokens = to_i64 (prompt_tokens u + prompt_tokens v),
      candidates_tokens = to_i64 (candidates_tokens u + candidates_tokens v),
      thoughts_tokens = to_i64 (thoughts_tokens u + thoughts_tokens v),
      total_tokens = to_i64 (total_tokens u + total_tokens v)\<rparr>"

definition empty_response :: "'j generate_response" where
  "empty_response =
     \<lparr>candidates = [], usage = zero_usage, model_version = [], response_id = [],
      prompt_block_reason = None\<rparr>"

definition response_text :: "'j generate_response \<Rightarrow> string" where
  "response_text r = (case candidates r of [] \<Rightarrow> [] | c # _ \<Rightarrow> content_text (cand_content c))"

definition function_calls :: "'j generate_response \<Rightarrow> 'j function_call list" where
  "function_calls r =
     (case candidates r of
        [] \<Rightarrow> []
      | c # _ \<Rightarrow> values_of (\<lambda>p. as_call (part_value p)) (parts (cand_content c)))"

definition response_finish_reason :: "'j generate_response \<Rightarrow> string" where
  "response_finish_reason r = (case candidates r of [] \<Rightarrow> [] | c # _ \<Rightarrow> cand_finish_reason c)"

section \<open>Folding a stream\<close>

definition append_part :: "'j part list \<Rightarrow> 'j part \<Rightarrow> 'j part list" where
  "append_part ps incoming =
     (case as_text (part_value incoming) of
        Some incoming_text \<Rightarrow>
          if ps \<noteq> [] then
            (let last_part = last ps in
             case as_text (part_value last_part) of
               Some last_text \<Rightarrow>
                 if thought last_part = thought incoming \<and>
                    (thought_signature last_part = [] \<or> thought_signature incoming = [])
                 then butlast ps @
                   [last_part\<lparr>part_value := Text (last_text @ incoming_text),
                      thought_signature :=
                        (if thought_signature last_part = [] then thought_signature incoming
                         else thought_signature last_part)\<rparr>]
                 else ps @ [incoming]
             | None \<Rightarrow> ps @ [incoming])
          else ps @ [incoming]
      | None \<Rightarrow> ps @ [incoming])"

definition absorb :: "'j candidate \<Rightarrow> 'j candidate \<Rightarrow> 'j candidate" where
  "absorb c incoming =
     c\<lparr>cand_content := (cand_content c)\<lparr>parts :=
         foldl append_part (parts (cand_content c)) (parts (cand_content incoming))\<rparr>,
       cand_finish_reason :=
         (if cand_finish_reason incoming \<noteq> [] then cand_finish_reason incoming
          else cand_finish_reason c)\<rparr>"

text \<open>
  One round of the loop of \<^verbatim>\<open>merge\<close>: \<^verbatim>\<open>find_if\<close> on the index, a fresh candidate at the end when
  there is none, then the incoming parts and finish reason.
\<close>

fun merge_candidate :: "'j candidate list \<Rightarrow> 'j candidate \<Rightarrow> 'j candidate list" where
  "merge_candidate [] incoming =
     [absorb \<lparr>cand_content = \<lparr>role = Model, parts = []\<rparr>, cand_finish_reason = [],
              cand_index = cand_index incoming\<rparr> incoming]"
| "merge_candidate (c # cs) incoming =
     (if cand_index c = cand_index incoming then absorb c incoming # cs
      else c # merge_candidate cs incoming)"

definition merge_response :: "'j generate_response \<Rightarrow> 'j generate_response \<Rightarrow> 'j generate_response" where
  "merge_response agg chunk =
     \<lparr>candidates = foldl merge_candidate (candidates agg) (candidates chunk),
      usage = (if total_tokens (usage chunk) \<noteq> 0 \<or> prompt_tokens (usage chunk) \<noteq> 0
               then usage chunk else usage agg),
      model_version = (if model_version chunk \<noteq> [] then model_version chunk else model_version agg),
      response_id = (if response_id chunk \<noteq> [] then response_id chunk else response_id agg),
      prompt_block_reason =
        (case prompt_block_reason chunk of Some r \<Rightarrow> Some r | None \<Rightarrow> prompt_block_reason agg)\<rparr>"

text \<open>What a stream of chunks adds up to.\<close>

definition aggregate :: "'j generate_response list \<Rightarrow> 'j generate_response" where
  "aggregate chunks = foldl merge_response empty_response chunks"

section \<open>What the folding preserves\<close>

fun kind_text :: "bool \<Rightarrow> 'j part list \<Rightarrow> string" where
  "kind_text b [] = []"
| "kind_text b (p # ps) =
     (case as_text (part_value p) of
        Some t \<Rightarrow> (if thought p = b then t else [])
      | None \<Rightarrow> []) @ kind_text b ps"

definition part_calls :: "'j part list \<Rightarrow> 'j function_call list" where
  "part_calls ps = values_of (\<lambda>p. as_call (part_value p)) ps"

definition signatures :: "'j part list \<Rightarrow> string list" where
  "signatures ps = filter (\<lambda>g. g \<noteq> []) (map thought_signature ps)"

lemma parts_text_kind: "parts_text ps = kind_text False ps"
  by (induction ps) (auto split: option.splits)

lemma kind_text_append [simp]: "kind_text b (ps @ qs) = kind_text b ps @ kind_text b qs"
  by (induction ps) auto

lemma as_text_Some [simp]: "as_text v = Some t \<longleftrightarrow> v = Text t"
  by (cases v) auto

lemma as_call_Some [simp]: "as_call v = Some c \<longleftrightarrow> v = Call c"
  by (cases v) auto

lemma append_part_cases:
  obtains (pushed) "append_part ps p = ps @ [p]"
  | (glued) qs q l t where "ps = qs @ [q]" "part_value q = Text l" "part_value p = Text t"
      "thought q = thought p" "thought_signature q = [] \<or> thought_signature p = []"
      "append_part ps p =
         qs @ [q\<lparr>part_value := Text (l @ t),
                 thought_signature := (if thought_signature q = [] then thought_signature p
                                       else thought_signature q)\<rparr>]"
proof (cases "append_part ps p = ps @ [p]")
  case False
  then have "ps \<noteq> []" by (auto simp: append_part_def split: option.splits)
  then obtain qs q where ps: "ps = qs @ [q]" by (metis rev_exhaust)
  from False ps show thesis
    by (auto simp: append_part_def Let_def split: option.splits if_splits intro: glued)
qed (rule pushed)

text \<open>
  An observation of the parts that gluing two text fragments leaves alone: it splits over
  concatenation and over \<open>append_part\<close>.  Its value on the aggregate of a stream is then the
  concatenation of its values on the chunks, candidate by candidate.
\<close>

locale part_observation =
  fixes obs :: "'j part list \<Rightarrow> 'a list"
  assumes obs_Nil: "obs [] = []"
    and obs_append: "obs (ps @ qs) = obs ps @ obs qs"
    and obs_append_part: "obs (append_part ps p) = obs ps @ obs [p]"
begin

lemma obs_foldl: "obs (foldl append_part ps qs) = obs ps @ obs qs"
proof (induction qs arbitrary: ps)
  case (Cons q qs)
  show ?case using obs_append [of "[q]" qs] by (simp add: Cons.IH obs_append_part)
qed (simp add: obs_Nil)

definition at_index :: "int \<Rightarrow> 'j candidate list \<Rightarrow> 'a list" where
  "at_index i cs =
     concat (map (\<lambda>c. obs (parts (cand_content c))) (filter (\<lambda>c. cand_index c = i) cs))"

lemma obs_absorb:
  "obs (parts (cand_content (absorb c d))) = obs (parts (cand_content c)) @ obs (parts (cand_content d))"
  by (simp add: absorb_def obs_foldl)

lemma cand_index_absorb [simp]: "cand_index (absorb c d) = cand_index c"
  by (simp add: absorb_def)

lemma at_index_absent: "i \<notin> set (map cand_index cs) \<Longrightarrow> at_index i cs = []"
  by (auto simp: at_index_def filter_False)

lemma at_index_Nil [simp]: "at_index i [] = []"
  by (simp add: at_index_def)

lemma at_index_Cons:
  "at_index i (c # cs) = (if cand_index c = i then obs (parts (cand_content c)) else []) @ at_index i cs"
  by (simp add: at_index_def)

lemma at_index_merge_candidate:
  "distinct (map cand_index cs) \<Longrightarrow>
   at_index i (merge_candidate cs d) = at_index i cs @ at_index i [d]"
proof (induction cs d rule: merge_candidate.induct)
  case (1 d)
  then show ?case by (simp add: at_index_Cons obs_absorb obs_Nil)
next
  case (2 c cs d)
  have "at_index i cs = []" if "cand_index c = i"
    using at_index_absent [of i cs] that "2.prems" by simp
  with 2 show ?case by (auto simp: at_index_Cons obs_absorb)
qed

end

lemma cand_indices_merge_candidate:
  "map cand_index (merge_candidate cs d) =
     map cand_index cs @ (if cand_index d \<in> set (map cand_index cs) then [] else [cand_index d])"
  by (induction cs d rule: merge_candidate.induct) (auto simp: absorb_def)

lemma distinct_merge_candidate:
  "distinct (map cand_index cs) \<Longrightarrow> distinct (map cand_index (merge_candidate cs d))"
  by (simp only: cand_indices_merge_candidate) auto

lemma distinct_merge_candidates:
  "distinct (map cand_index cs) \<Longrightarrow> distinct (map cand_index (foldl merge_candidate cs ds))"
  by (induction ds arbitrary: cs) (simp_all add: distinct_merge_candidate)

lemma candidates_merge:
  "candidates (merge_response a b) = foldl merge_candidate (candidates a) (candidates b)"
  by (simp add: merge_response_def)

lemma aggregate_snoc: "aggregate (chunks @ [c]) = merge_response (aggregate chunks) c"
  by (simp add: aggregate_def)

lemma distinct_aggregate: "distinct (map cand_index (candidates (aggregate chunks)))"
proof (induction chunks rule: rev_induct)
  case Nil
  show ?case by (simp add: aggregate_def empty_response_def)
next
  case (snoc c chunks)
  then show ?case by (simp add: aggregate_snoc candidates_merge distinct_merge_candidates)
qed

context part_observation
begin

lemma at_index_append: "at_index i (cs @ ds) = at_index i cs @ at_index i ds"
  by (simp add: at_index_def)

lemma at_index_merge_candidates:
  "distinct (map cand_index cs) \<Longrightarrow>
   at_index i (foldl merge_candidate cs ds) = at_index i cs @ at_index i ds"
proof (induction ds arbitrary: cs)
  case (Cons d ds)
  show ?case
    using Cons.IH [OF distinct_merge_candidate [OF Cons.prems], of d] Cons.prems
      at_index_append [of i "[d]" ds]
    by (simp add: at_index_merge_candidate)
qed (simp add: at_index_def)

lemma at_index_aggregate:
  "at_index i (candidates (aggregate chunks)) = concat (map (\<lambda>c. at_index i (candidates c)) chunks)"
proof (induction chunks rule: rev_induct)
  case Nil
  show ?case by (simp add: aggregate_def empty_response_def at_index_def)
next
  case (snoc c chunks)
  then show ?case
    by (simp add: aggregate_snoc candidates_merge at_index_merge_candidates distinct_aggregate)
qed

end

interpretation visible_text: part_observation parts_text
proof unfold_locales
  show "parts_text (append_part ps p) = parts_text ps @ parts_text [p]" for ps :: "'a part list" and p
    by (cases rule: append_part_cases [of ps p]) (simp_all add: parts_text_kind)
qed (simp_all add: parts_text_kind)

interpretation thought_text: part_observation "kind_text True"
proof unfold_locales
  show "kind_text True (append_part ps p) = kind_text True ps @ kind_text True [p]" for ps :: "'a part list" and p
    by (cases rule: append_part_cases [of ps p]) simp_all
qed simp_all

interpretation calls: part_observation part_calls
proof unfold_locales
  show "part_calls (append_part ps p) = part_calls ps @ part_calls [p]" for ps :: "'a part list" and p
    by (cases rule: append_part_cases [of ps p]) (simp_all add: part_calls_def)
qed (simp_all add: part_calls_def)

interpretation signature_tokens: part_observation signatures
proof unfold_locales
  show "signatures (append_part ps p) = signatures ps @ signatures [p]" for ps :: "'a part list" and p
    by (cases rule: append_part_cases [of ps p]) (auto simp: signatures_def)
qed (simp_all add: signatures_def)

section \<open>The shape of an aggregate\<close>

text \<open>Two neighbouring fragments that \<open>append_part\<close> would have glued.\<close>

definition gluable :: "'j part \<Rightarrow> 'j part \<Rightarrow> bool" where
  "gluable p q \<longleftrightarrow>
     as_text (part_value p) \<noteq> None \<and> as_text (part_value q) \<noteq> None \<and> thought p = thought q \<and>
     (thought_signature p = [] \<or> thought_signature q = [])"

fun compacted :: "'j part list \<Rightarrow> bool" where
  "compacted (p # q # ps) \<longleftrightarrow> \<not> gluable p q \<and> compacted (q # ps)"
| "compacted _ \<longleftrightarrow> True"

lemma compact_snoc2: "compacted (ps @ [p, q]) \<longleftrightarrow> compacted (ps @ [p]) \<and> \<not> gluable p q"
proof (induction ps)
  case (Cons r ps)
  then show ?case by (cases ps) auto
qed simp

lemma compact_snoc: "compacted (ps @ [q]) \<longleftrightarrow> compacted ps \<and> (ps \<noteq> [] \<longrightarrow> \<not> gluable (last ps) q)"
proof (cases ps rule: rev_exhaust)
  case (snoc qs p)
  then show ?thesis using compact_snoc2 [of qs p q] by simp
qed simp

lemma append_part_pushed:
  "append_part ps p = ps @ [p] \<Longrightarrow> ps \<noteq> [] \<Longrightarrow> \<not> gluable (last ps) p"
  by (cases ps rule: rev_exhaust) (auto simp: append_part_def gluable_def Let_def split: if_splits)

lemma compact_append_part: "compacted ps \<Longrightarrow> compacted (append_part ps p)"
proof (cases rule: append_part_cases [of ps p])
  case pushed
  moreover assume "compacted ps"
  ultimately show ?thesis using append_part_pushed [OF pushed] by (simp add: compact_snoc)
next
  case (glued qs q l t)
  moreover assume "compacted ps"
  ultimately show ?thesis by (auto simp: compact_snoc gluable_def)
qed

lemma compact_foldl: "compacted ps \<Longrightarrow> compacted (foldl append_part ps qs)"
  by (induction qs arbitrary: ps) (simp_all add: compact_append_part)

lemma compact_merge_candidate:
  "\<forall>c \<in> set cs. compacted (parts (cand_content c)) \<Longrightarrow>
   \<forall>c \<in> set (merge_candidate cs d). compacted (parts (cand_content c))"
  by (induction cs d rule: merge_candidate.induct) (auto simp: absorb_def compact_foldl)

lemma compact_merge_candidates:
  "\<forall>c \<in> set cs. compacted (parts (cand_content c)) \<Longrightarrow>
   \<forall>c \<in> set (foldl merge_candidate cs ds). compacted (parts (cand_content c))"
proof (induction ds arbitrary: cs)
  case (Cons d ds)
  from Cons.IH [OF compact_merge_candidate [OF Cons.prems, of d]] show ?case by simp
qed simp

lemma compact_aggregate: "\<forall>c \<in> set (candidates (aggregate chunks)). compacted (parts (cand_content c))"
proof (induction chunks rule: rev_induct)
  case Nil
  show ?case by (simp add: aggregate_def empty_response_def)
next
  case (snoc c chunks)
  from compact_merge_candidates [OF snoc] show ?case by (simp only: aggregate_snoc candidates_merge)
qed

lemma indices_merge_candidates:
  "set (map cand_index (foldl merge_candidate cs ds)) = set (map cand_index cs) \<union> set (map cand_index ds)"
proof (induction ds arbitrary: cs)
  case (Cons d ds)
  have "set (map cand_index (merge_candidate cs d)) = insert (cand_index d) (set (map cand_index cs))"
    by (subst cand_indices_merge_candidate) auto
  with Cons show ?case by (simp del: set_map)
qed simp

lemma indices_aggregate:
  "set (map cand_index (candidates (aggregate chunks))) =
     (\<Union>c \<in> set chunks. set (map cand_index (candidates c)))"
proof (induction chunks rule: rev_induct)
  case Nil
  show ?case by (simp add: aggregate_def empty_response_def)
next
  case (snoc c chunks)
  then show ?case by (simp only: aggregate_snoc candidates_merge indices_merge_candidates) auto
qed

lemma at_most_one:
  assumes "distinct (map cand_index cs)" "\<forall>c \<in> set cs. cand_index c = i"
  shows "cs = [] \<or> (\<exists>c. cs = [c])"
proof (cases cs)
  case (Cons c ds)
  with assms show ?thesis by (cases ds) auto
qed simp

section \<open>Properties\<close>

text \<open>
  C38: nothing a stream carries is lost, doubled or reordered by the folding of its chunks.  For
  every candidate index, the visible text, the thinking text, the function calls and the thought
  signatures of the aggregate are those of the chunks' candidates with this index, one after the
  other.
\<close>

theorem stream_folding_lossless:
  "visible_text.at_index i (candidates (aggregate chunks)) =
     concat (map (\<lambda>c. visible_text.at_index i (candidates c)) chunks) \<and>
   thought_text.at_index i (candidates (aggregate chunks)) =
     concat (map (\<lambda>c. thought_text.at_index i (candidates c)) chunks) \<and>
   calls.at_index i (candidates (aggregate chunks)) =
     concat (map (\<lambda>c. calls.at_index i (candidates c)) chunks) \<and>
   signature_tokens.at_index i (candidates (aggregate chunks)) =
     concat (map (\<lambda>c. signature_tokens.at_index i (candidates c)) chunks)"
  by (intro conjI visible_text.at_index_aggregate thought_text.at_index_aggregate
      calls.at_index_aggregate signature_tokens.at_index_aggregate)

text \<open>
  The aggregate looks like a unary response.  Its candidates have pairwise different indices,
  exactly those that occur in the stream, and in none of them do two neighbouring text fragments
  remain that could have been glued.
\<close>

theorem stream_folding_canonical:
  "distinct (map cand_index (candidates (aggregate chunks))) \<and>
   set (map cand_index (candidates (aggregate chunks))) =
     (\<Union>c \<in> set chunks. set (map cand_index (candidates c))) \<and>
   list_all (\<lambda>c. compacted (parts (cand_content c))) (candidates (aggregate chunks))"
  using compact_aggregate
  by (intro conjI distinct_aggregate indices_aggregate) (simp add: list_all_iff)

text \<open>
  For the streams of one candidate (the default), the text and the function calls of the
  aggregated response are the concatenation of those of the chunks.
\<close>

theorem stream_text_concat:
  assumes "\<forall>ch \<in> set chunks. \<exists>c. candidates ch = [c] \<and> cand_index c = i"
  shows "response_text (aggregate chunks) = concat (map response_text chunks) \<and>
         function_calls (aggregate chunks) = concat (map function_calls chunks)"
proof -
  have "set (map cand_index (candidates (aggregate chunks))) \<subseteq> {i}"
    using assms by (subst indices_aggregate) fastforce
  then have "\<forall>c \<in> set (candidates (aggregate chunks)). cand_index c = i" by auto
  moreover from this have "candidates (aggregate chunks) = [] \<or> (\<exists>c. candidates (aggregate chunks) = [c])"
    by (intro at_most_one distinct_aggregate)
  ultimately have
    "response_text (aggregate chunks) = visible_text.at_index i (candidates (aggregate chunks))"
    "function_calls (aggregate chunks) = calls.at_index i (candidates (aggregate chunks))"
    by (auto simp: response_text_def function_calls_def content_text_def part_calls_def
        visible_text.at_index_Cons calls.at_index_Cons)
  moreover have "visible_text.at_index i (candidates ch) = response_text ch"
    "calls.at_index i (candidates ch) = function_calls ch" if "ch \<in> set chunks" for ch
    using assms that
    by (fastforce simp: response_text_def function_calls_def content_text_def part_calls_def
        visible_text.at_index_Cons calls.at_index_Cons)+
  ultimately show ?thesis
    by (simp add: visible_text.at_index_aggregate calls.at_index_aggregate cong: map_cong)
qed

definition text_chunk :: "string \<Rightarrow> 'j generate_response" where
  "text_chunk t =
     empty_response\<lparr>candidates := [\<lparr>cand_content = model_content t, cand_finish_reason = [], cand_index = 0\<rparr>]\<rparr>"

theorem stream_text_concat_witness:
  "response_text (aggregate [text_chunk ''Hel'' :: jval generate_response, text_chunk ''lo'']) =
     concat (map response_text [text_chunk ''Hel'' :: jval generate_response, text_chunk ''lo''])"
  by (rule stream_text_concat [where i = 0, THEN conjunct1]) (simp add: text_chunk_def)

end
