(* ===== verification/Strtod.thy ===== *)
theory Strtod
  imports Prelude Double
begin

text \<open>
  Number parsing of the C++ library as the sources use it: \<^verbatim>\<open>std::strtod\<close> (the "C" locale, with
  decimal and hexadecimal floats, infinities and NaNs) and \<^verbatim>\<open>std::from_chars\<close> for integers.
  Both return what was read and the unread rest of the text.
\<close>

section \<open>from_chars\<close>

definition digits_value :: "nat \<Rightarrow> (char \<Rightarrow> nat) \<Rightarrow> string \<Rightarrow> nat" where
  "digits_value b val ds = foldl (\<lambda>n c. b * n + val c) 0 ds"

text \<open>
  An optional minus sign and decimal digits; no blanks, no plus sign.  \<^const>\<open>None\<close> for
  \<^verbatim>\<open>errc::invalid_argument\<close> (no digits) and \<^verbatim>\<open>errc::result_out_of_range\<close>.
\<close>

definition from_chars :: "int \<Rightarrow> int \<Rightarrow> string \<Rightarrow> (int \<times> string) option" where
  "from_chars lo hi s =
     (let neg = (s \<noteq> [] \<and> hd s = CHR ''-'');
          body = (if neg then tl s else s);
          ds = takeWhile is_digit body;
          v = (if neg then - int (digits_value 10 digit_val ds) else int (digits_value 10 digit_val ds))
      in if ds = [] then None
         else if lo \<le> v \<and> v \<le> hi then Some (v, dropWhile is_digit body)
         else None)"

section \<open>strtod\<close>

definition is_hex_digit :: "char \<Rightarrow> bool" where
  "is_hex_digit c \<longleftrightarrow> is_digit c \<or> (97 \<le> byte (to_lower c) \<and> byte (to_lower c) \<le> 102)"

definition hex_digit_val :: "char \<Rightarrow> nat" where
  "hex_digit_val c = (if is_digit c then digit_val c else byte (to_lower c) - 87)"

definition rat_pow :: "rat \<Rightarrow> int \<Rightarrow> rat" where
  "rat_pow b e = (if 0 \<le> e then b ^ nat e else 1 / b ^ nat (- e))"

text \<open>Digits with at most one point among them and at least one digit.\<close>

definition scan_mantissa :: "(char \<Rightarrow> bool) \<Rightarrow> string \<Rightarrow> (string \<times> string \<times> string) option" where
  "scan_mantissa digit s =
     (let ip = takeWhile digit s; r = dropWhile digit s;
          fp = (if r \<noteq> [] \<and> hd r = CHR ''.'' then takeWhile digit (tl r) else []);
          rest = (if r \<noteq> [] \<and> hd r = CHR ''.'' then dropWhile digit (tl r) else r)
      in if ip = [] \<and> fp = [] then None else Some (ip, fp, rest))"

text \<open>An exponent part; it is not consumed when no digit follows the marker and its sign.\<close>

definition scan_exponent :: "char \<Rightarrow> string \<Rightarrow> int \<times> string" where
  "scan_exponent marker s =
     (if s \<noteq> [] \<and> to_lower (hd s) = marker then
        let r = tl s;
            neg = (r \<noteq> [] \<and> hd r = CHR ''-'');
            body = (if r \<noteq> [] \<and> (hd r = CHR ''-'' \<or> hd r = CHR ''+'') then tl r else r);
            ds = takeWhile is_digit body;
            v = int (digits_value 10 digit_val ds)
        in if ds = [] then (0, s) else (if neg then - v else v, dropWhile is_digit body)
      else (0, s))"

definition scan_decimal :: "string \<Rightarrow> (rat \<times> string) option" where
  "scan_decimal s =
     (case scan_mantissa is_digit s of
        None \<Rightarrow> None
      | Some (ip, fp, r) \<Rightarrow>
          let (e, rest) = scan_exponent (CHR ''e'') r
          in Some (of_nat (digits_value 10 digit_val (ip @ fp)) * rat_pow 10 (e - int (length fp)), rest))"

definition scan_hex :: "string \<Rightarrow> (rat \<times> string) option" where
  "scan_hex s =
     (if starts_with ''0x'' (map to_lower (take 2 s)) then
        case scan_mantissa is_hex_digit (drop 2 s) of
          None \<Rightarrow> None
        | Some (ip, fp, r) \<Rightarrow>
            let (e, rest) = scan_exponent (CHR ''p'') r
            in Some (of_nat (digits_value 16 hex_digit_val (ip @ fp)) * rat_pow 2 (e - 4 * int (length fp)), rest)
      else None)"

text \<open>\<open>nan\<close> may carry a character sequence in parentheses.\<close>

definition skip_nan_payload :: "string \<Rightarrow> string" where
  "skip_nan_payload s =
     (if s \<noteq> [] \<and> hd s = CHR ''('' then
        let r = dropWhile (\<lambda>c. is_digit c \<or> is_alpha c \<or> c = CHR ''_'') (tl s)
        in if r \<noteq> [] \<and> hd r = CHR '')'' then tl r else s
      else s)"

definition strtod :: "string \<Rightarrow> double \<times> string" where
  "strtod s =
     (let t = dropWhile is_space s;
          neg = (t \<noteq> [] \<and> hd t = CHR ''-'');
          u = (if t \<noteq> [] \<and> (hd t = CHR ''-'' \<or> hd t = CHR ''+'') then tl t else t);
          low = map to_lower (take 8 u)
      in if starts_with ''infinity'' low then (Inf neg, drop 8 u)
         else if starts_with ''inf'' low then (Inf neg, drop 3 u)
         else if starts_with ''nan'' low then (NaN, skip_nan_payload (drop 3 u))
         else case scan_hex u of
                Some (q, rest) \<Rightarrow> (mk_double neg q, rest)
              | None \<Rightarrow>
                  (case scan_decimal u of
                     Some (q, rest) \<Rightarrow> (mk_double neg q, rest)
                   | None \<Rightarrow> (Fin False 0, s)))"

lemma wf_strtod: "wf_double (fst (strtod s))"
proof -
  have "representable 0" using representable_of_int [of 0] by simp
  then show ?thesis by (auto simp: strtod_def Let_def split: option.splits prod.splits)
qed

section \<open>Decimal numerals\<close>

lemma digits_value_snoc: "digits_value b val (ds @ [c]) = b * digits_value b val ds + val c"
  by (simp add: digits_value_def)

lemma digit_val_char_of [simp]: "n < 10 \<Longrightarrow> digit_val (char_of (48 + n)) = n"
  by (simp add: digit_val_def)

lemma digits_value_nat_to_string [simp]: "digits_value 10 digit_val (nat_to_string n) = n"
proof (induction n rule: nat_to_string.induct)
  case (1 n)
  show ?case
  proof (cases "n < 10")
    case True
    then show ?thesis by (simp add: nat_to_string.simps [of n] digits_value_def)
  next
    case False
    with 1 show ?thesis by (simp add: nat_to_string.simps [of n] digits_value_snoc)
  qed
qed

lemma takeWhile_digits [simp]: "takeWhile is_digit (nat_to_string n) = nat_to_string n"
  using nat_to_string_digits by (simp add: takeWhile_eq_all_conv)

lemma dropWhile_digits [simp]: "dropWhile is_digit (nat_to_string n) = []"
  using nat_to_string_digits by (simp add: dropWhile_eq_Nil_conv)

lemma is_digit_bytes:
  assumes "is_digit c"
  shows "c \<noteq> CHR ''-''" "c \<noteq> CHR ''+''" "c \<noteq> CHR ''.''" "\<not> is_space c" "to_lower c = c"
    "c \<noteq> CHR ''i''" "c \<noteq> CHR ''n''" "c \<noteq> CHR ''x''"
  using assms by (auto simp: is_digit_def is_space_def to_lower_def byte_def)

text \<open>The number that a text of digits stands for.\<close>

definition number_of :: "string \<Rightarrow> nat" where
  "number_of s = digits_value 10 digit_val s"

lemma digits_value_Cons:
  "digits_value 10 digit_val (c # ds) = digit_val c * 10 ^ length ds + digits_value 10 digit_val ds"
proof -
  have "foldl (\<lambda>n c. 10 * n + digit_val c) m ds = m * 10 ^ length ds + foldl (\<lambda>n c. 10 * n + digit_val c) 0 ds" for m
  proof (induction ds arbitrary: m)
    case (Cons d ds)
    show ?case using Cons [of "10 * m + digit_val d"] Cons [of "digit_val d"] by (simp add: algebra_simps)
  qed simp
  from this [of "digit_val c"] show ?thesis by (simp add: digits_value_def)
qed

lemma digit_val_le: "is_digit c \<Longrightarrow> digit_val c \<le> 9"
  unfolding is_digit_def digit_val_def by linarith

lemma number_of_upper: "list_all is_digit s \<Longrightarrow> number_of s < 10 ^ length s"
proof (induction s)
  case (Cons c s)
  then have "digit_val c \<le> 9" "number_of s < 10 ^ length s" by (simp_all add: digit_val_le)
  moreover from this(1) have "digit_val c * 10 ^ length s \<le> 9 * 10 ^ length s" by (intro mult_right_mono) simp_all
  moreover have "number_of (c # s) = digit_val c * 10 ^ length s + number_of s"
    by (simp add: number_of_def digits_value_Cons)
  moreover have "(10 :: nat) ^ length (c # s) = 9 * 10 ^ length s + 10 ^ length s" by simp
  ultimately show ?case by linarith
qed (simp add: number_of_def digits_value_def)

lemma hd_nat_to_string: "is_digit (hd (nat_to_string n))"
  using nat_to_string_digits [of n] by (simp add: hd_in_set)

lemma scan_digits:
  assumes "t = [] \<or> \<not> is_digit (hd t)"
  shows "takeWhile is_digit (nat_to_string n @ t) = nat_to_string n"
    and "dropWhile is_digit (nat_to_string n @ t) = t"
  using assms nat_to_string_digits [of n]
  by (cases t; auto simp: takeWhile_append dropWhile_append takeWhile_eq_all_conv)+

lemma from_chars_digits:
  assumes "t = [] \<or> \<not> is_digit (hd t)"
  shows "from_chars lo hi (nat_to_string n @ t) =
     (if lo \<le> int n \<and> int n \<le> hi then Some (int n, t) else None)"
  using is_digit_bytes(1) [OF hd_nat_to_string [of n]]
  by (simp add: from_chars_def Let_def scan_digits [OF assms])

lemma strtod_nat_to_string: "strtod (nat_to_string n) = (mk_double False (of_nat n), [])"
proof -
  let ?s = "nat_to_string n"
  obtain c cs where s: "?s = c # cs" by (cases ?s) auto
  have dig: "\<forall>x \<in> set ?s. is_digit x" by (rule nat_to_string_digits)
  then have c: "is_digit c" by (simp add: s)
  note cb = is_digit_bytes [OF c]
  have low: "map to_lower (take k ?s) = take k ?s" for k
    by (rule map_idI) (use dig in \<open>auto simp: is_digit_bytes(5) dest: in_set_takeD\<close>)
  have no: "\<not> starts_with ''infinity'' (take 8 ?s)" "\<not> starts_with ''inf'' (take 8 ?s)"
    "\<not> starts_with ''nan'' (take 8 ?s)"
    using cb by (simp_all add: s)
  have "x \<notin> set ?s" if "\<not> is_digit x" for x using dig that by blast
  then have "CHR ''x'' \<notin> set ?s" by (simp add: is_digit_def byte_def)
  then have "\<not> starts_with ''0x'' (take 2 ?s)"
    by (cases cs) (auto simp: s)
  then have hex: "scan_hex ?s = None"
    by (simp add: scan_hex_def low)
  have dec: "scan_decimal ?s = Some (of_nat n, [])"
    by (simp add: scan_decimal_def scan_mantissa_def scan_exponent_def rat_pow_def Let_def)
  have "dropWhile is_space ?s = ?s" using cb by (simp add: s)
  then show ?thesis
    using cb no hex dec by (simp add: strtod_def Let_def low) (simp add: s)
qed

end
