(* ===== verification/Wall_Clock.thy ===== *)
theory Wall_Clock
  imports Prelude "HOL-Library.Char_ord" "HOL-Library.List_Lexorder" "HOL-Library.Product_Lexorder"
begin

text \<open>
  The time stamps of the program: of the log (\<^verbatim>\<open>timestamp\<close> in \<^verbatim>\<open>src/logging.cpp\<close>), of a report
  (\<^verbatim>\<open>iso_now\<close> in \<^verbatim>\<open>src/eval/runner.cpp\<close>) and of the clock tool (\<^verbatim>\<open>src/tools.cpp\<close>).  The system clock
  counts nanoseconds since 1970 in 64 bits, so it stays between the years 1677 and 2262.
\<close>

section \<open>The calendar of gmtime\<close>

definition leap_year :: "int \<Rightarrow> bool" where
  "leap_year y \<longleftrightarrow> 4 dvd y \<and> \<not> 100 dvd y \<or> 400 dvd y"

definition year_days :: "int \<Rightarrow> int" where
  "year_days y = (if leap_year y then 366 else 365)"

definition month_lengths :: "bool \<Rightarrow> int list" where
  "month_lengths leap = [31, if leap then 29 else 28, 31, 30, 31, 30, 31, 31, 30, 31, 30, 31]"

text \<open>The year that is \<open>d\<close> days after the first day of year \<open>y\<close>, and the day of that year.\<close>

function year_of :: "int \<Rightarrow> int \<Rightarrow> int \<times> int" where
  "year_of y d = (if d < year_days y then (y, d) else year_of (y + 1) (d - year_days y))"
  by pat_completeness auto
termination by (relation "measure (\<lambda>(y, d). nat d)") (auto simp: year_days_def split: if_splits)

declare year_of.simps [simp del]

fun month_of :: "int list \<Rightarrow> int \<Rightarrow> int \<times> int" where
  "month_of [] d = (0, d)"
| "month_of (l # ls) d = (if d < l then (0, d) else let (m, r) = month_of ls (d - l) in (m + 1, r))"

text \<open>Year, month and day; 400 years are 146097 days.\<close>

definition civil :: "int \<Rightarrow> int \<times> int \<times> int" where
  "civil days =
     (let (y, r) = year_of 1970 (days mod 146097);
          (m, d) = month_of (month_lengths (leap_year y)) r
      in (y + 400 * (days div 146097), m + 1, d + 1))"

type_synonym broken_down = "(int \<times> int \<times> int) \<times> int \<times> int \<times> int"

definition gmtime :: "int \<Rightarrow> broken_down" where
  "gmtime t = (let s = t mod 86400 in (civil (t div 86400), s div 3600, s div 60 mod 60, s mod 60))"

section \<open>Formats\<close>

fun pad :: "nat \<Rightarrow> nat \<Rightarrow> string" where
  "pad 0 n = []"
| "pad (Suc w) n = pad w (n div 10) @ [char_of (48 + n mod 10)]"

definition two :: "int \<Rightarrow> string" where
  "two i = pad 2 (nat i)"

text \<open>\<^verbatim>\<open>%Y-%m-%dT%H:%M:%S\<close>\<close>

definition date_time :: "broken_down \<Rightarrow> string" where
  "date_time b =
     (case b of ((y, m, d), h, mi, s) \<Rightarrow>
        int_to_string y @ ''-'' @ two m @ ''-'' @ two d @ ''T'' @ two h @ '':'' @ two mi @ '':'' @ two s)"

definition iso_text :: "int \<Rightarrow> string" where
  "iso_text t = date_time (gmtime t) @ ''Z''"

text \<open>
  \<^verbatim>\<open>to_time_t\<close> and the cast to milliseconds cut towards zero, as does \<^verbatim>\<open>%\<close>; the clock counts nanoseconds.
\<close>

definition cut_div :: "int \<Rightarrow> int \<Rightarrow> int" where
  "cut_div a b = (if a < 0 then - (- a div b) else a div b)"

definition iso_now :: "int \<Rightarrow> string" where
  "iso_now ns = iso_text (cut_div ns (10 ^ 9))"

text \<open>\<^verbatim>\<open>%03d\<close> of a number of milliseconds, which is negative before 1970.\<close>

definition millis_text :: "int \<Rightarrow> string" where
  "millis_text ms =
     (if ms < 0 then ''-'' @ (if - ms < 100 then pad 2 (nat (- ms)) else pad 3 (nat (- ms))) else pad 3 (nat ms))"

definition timestamp :: "int \<Rightarrow> string" where
  "timestamp ns =
     (let ms = cut_div ns (10 ^ 6) in
      date_time (gmtime (cut_div ns (10 ^ 9))) @ ''.'' @ millis_text (ms - 1000 * cut_div ms 1000) @ ''Z'')"

section \<open>The order of dates\<close>

lemma year_of_result:
  assumes "0 \<le> d" "year_of y d = (z, r)"
  shows "y \<le> z \<and> 0 \<le> r \<and> r < year_days z"
  using assms
proof (induction y d rule: year_of.induct)
  case (1 y d)
  then show ?case by (subst (asm) (2) year_of.simps) (fastforce split: if_splits)
qed

lemma year_of_less:
  assumes "0 \<le> c" "c < d"
  shows "year_of y c < year_of y d"
  using assms
proof (induction y d arbitrary: c rule: year_of.induct)
  case (1 y d)
  show ?case
  proof (cases "d < year_days y")
    case True
    with 1(2,3) show ?thesis by (simp add: year_of.simps)
  next
    case later: False
    show ?thesis
    proof (cases "c < year_days y")
      case True
      obtain z r where z: "year_of (y + 1) (d - year_days y) = (z, r)" by fastforce
      with later year_of_result [of "d - year_days y" "y + 1" z r] have "y < z" by simp
      with True later z show ?thesis by (simp add: year_of.simps [of y])
    next
      case False
      with later 1 show ?thesis by (simp add: year_of.simps [of y])
    qed
  qed
qed

lemma month_of_result:
  assumes "0 \<le> d" "d < sum_list ls" "month_of ls d = (m, r)"
  shows "0 \<le> m \<and> m < int (length ls) \<and> 0 \<le> r \<and> r < ls ! nat m"
  using assms
proof (induction ls d arbitrary: m r rule: month_of.induct)
  case (2 l ls d)
  show ?case
  proof (cases "d < l")
    case False
    obtain m' r' where "month_of ls (d - l) = (m', r')" by fastforce
    with 2(1) [OF False _ _ this] 2(2-4) False show ?thesis by (auto simp: nat_add_distrib nth_Cons')
  qed (use 2 in auto)
qed simp

lemma month_of_less:
  assumes "0 \<le> c" "c < d" "d < sum_list ls"
  shows "month_of ls c < month_of ls d"
  using assms
proof (induction ls d arbitrary: c rule: month_of.induct)
  case (2 l ls d)
  obtain m r where m: "month_of ls (d - l) = (m, r)" by fastforce
  show ?case
  proof (cases "d < l")
    case False
    then have "0 \<le> m" using month_of_result [OF _ _ m] 2(4) by simp
    with 2(1) [OF False, of "c - l"] 2(2-4) False m show ?thesis by (auto split: prod.splits)
  qed (use 2 in auto)
qed simp


lemma cycle_end: "year_of 1970 146096 = (2369, 364)"
  by code_simp

lemma leap_cycle: "leap_year (y + 400 * c) = leap_year y"
proof -
  have "400 * c = 4 * (100 * c)" "400 * c = 100 * (4 * c)" by simp_all
  then have "4 dvd y + 400 * c \<longleftrightarrow> 4 dvd y" "100 dvd y + 400 * c \<longleftrightarrow> 100 dvd y"
    by (metis dvd_add_left_iff dvd_triv_left)+
  moreover have "400 dvd y + 400 * c \<longleftrightarrow> 400 dvd y" by (simp add: dvd_add_left_iff)
  ultimately show ?thesis by (simp add: leap_year_def)
qed

lemma month_sum: "sum_list (month_lengths (leap_year y)) = year_days y"
  by (simp add: month_lengths_def year_days_def)

lemma civil_parts:
  obtains y r m d where "year_of 1970 (days mod 146097) = (y, r)" "month_of (month_lengths (leap_year y)) r = (m, d)"
    "civil days = (y + 400 * (days div 146097), m + 1, d + 1)"
    "1970 \<le> y" "y \<le> 2369" "0 \<le> r" "r < year_days y" "0 \<le> m" "m < 12" "0 \<le> d" "d < 31"
proof -
  obtain y r where y: "year_of 1970 (days mod 146097) = (y, r)" by fastforce
  obtain m d where m: "month_of (month_lengths (leap_year y)) r = (m, d)" by fastforce
  have yr: "1970 \<le> y" "0 \<le> r" "r < year_days y" using year_of_result [OF _ y] by simp_all
  have "days mod 146097 \<le> 146096" "0 \<le> days mod 146097" using pos_mod_bound [of 146097 days] by simp_all
  then have "y \<le> 2369"
    using year_of_less [of "days mod 146097" 146096 1970] y cycle_end by (auto simp: le_less)
  moreover have "0 \<le> m \<and> m < 12 \<and> 0 \<le> d \<and> d < month_lengths (leap_year y) ! nat m"
    using month_of_result [OF yr(2) _ m] yr(3) by (simp add: month_sum) (simp add: month_lengths_def)
  moreover from this have "nat m < 12" by linarith
  then have "month_lengths (leap_year y) ! nat m \<le> 31"
    by (simp add: month_lengths_def numeral_eq_Suc less_Suc_eq split: nat.split) auto
  ultimately show ?thesis using that [OF y m _ yr(1)] y m yr by (simp add: civil_def)
qed

lemma civil_less:
  assumes "a < b"
  shows "civil a < civil b"
proof -
  obtain y r m d where a: "year_of 1970 (a mod 146097) = (y, r)" "month_of (month_lengths (leap_year y)) r = (m, d)"
    "civil a = (y + 400 * (a div 146097), m + 1, d + 1)" "1970 \<le> y" "y \<le> 2369" "0 \<le> r" "r < year_days y"
    by (rule civil_parts [of a])
  obtain y' r' m' d' where b: "year_of 1970 (b mod 146097) = (y', r')" "month_of (month_lengths (leap_year y')) r' = (m', d')"
    "civil b = (y' + 400 * (b div 146097), m' + 1, d' + 1)" "1970 \<le> y'" "y' \<le> 2369" "0 \<le> r'" "r' < year_days y'"
    by (rule civil_parts [of b])
  show ?thesis
  proof (cases "a div 146097 = b div 146097")
    case True
    with assms have "a mod 146097 < b mod 146097" by (metis add_less_cancel_left mult_div_mod_eq)
    then have "(y, r) < (y', r')" using year_of_less [of "a mod 146097" "b mod 146097" 1970] a(1) b(1) by simp
    then show ?thesis
      using True a b month_of_less [of r r' "month_lengths (leap_year y)"] by (auto simp: month_sum)
  next
    case False
    with assms have "a div 146097 < b div 146097" by (meson le_less zdiv_mono1 zero_less_numeral)
    then show ?thesis using a b by simp
  qed
qed

lemma clock_split: "(x :: int) = 3600 * (x div 3600) + 60 * (x div 60 mod 60) + x mod 60"
proof -
  have "x div 3600 = x div 60 div 60" using zdiv_zmult2_eq [of 60 x 60] by simp
  then show ?thesis using mult_div_mod_eq [of 60 "x div 60"] mult_div_mod_eq [of 60 x] by linarith
qed

lemma clock_less:
  fixes h m s h' m' s' :: int
  assumes "3600 * h + 60 * m + s < 3600 * h' + 60 * m' + s'"
    and "0 \<le> m" "m < 60" "0 \<le> s" "s < 60" "0 \<le> m'" "m' < 60" "0 \<le> s'" "s' < 60"
  shows "(h, m, s) < (h', m', s')"
proof -
  have "h \<le> h'" using assms by linarith
  moreover have "m \<le> m'" if "h = h'" using that assms by linarith
  moreover have "s < s'" if "h = h'" "m = m'" using that assms by linarith
  ultimately show ?thesis by (simp add: less_prod_def' le_less) linarith
qed

lemma gmtime_less:
  assumes "s < t"
  shows "gmtime s < gmtime t"
proof (cases "s div 86400 = t div 86400")
  case True
  with assms have lt: "s mod 86400 < t mod 86400" by (metis add_less_cancel_left mult_div_mod_eq)
  let ?a = "s mod 86400" and ?b = "t mod 86400"
  have "(?a div 3600, ?a div 60 mod 60, ?a mod 60) < (?b div 3600, ?b div 60 mod 60, ?b mod 60)"
  proof (rule clock_less)
    show "3600 * (?a div 3600) + 60 * (?a div 60 mod 60) + ?a mod 60 <
      3600 * (?b div 3600) + 60 * (?b div 60 mod 60) + ?b mod 60"
      using lt clock_split [of ?a] clock_split [of ?b] by linarith
  qed simp_all
  then show ?thesis unfolding gmtime_def Let_def True by simp
next
  case False
  with assms have "s div 86400 < t div 86400" by (meson le_less zdiv_mono1 zero_less_numeral)
  then show ?thesis by (simp add: gmtime_def Let_def civil_less)
qed

section \<open>The order of texts\<close>

lemma length_pad [simp]: "length (pad w n) = w"
  by (induction w n rule: pad.induct) simp_all

lemma append_less:
  "length xs = length ys \<Longrightarrow> xs @ us < ys @ vs \<longleftrightarrow> xs < ys \<or> xs = ys \<and> us < (vs :: 'a :: order list)"
  by (induction xs ys rule: list_induct2) auto

lemma digit_less: "a < 10 \<Longrightarrow> b < 10 \<Longrightarrow> (char_of (48 + a) :: char) < char_of (48 + b) \<longleftrightarrow> a < (b :: nat)"
  by (simp add: less_char_def)

lemma pad_less: "a < b \<Longrightarrow> b < 10 ^ w \<Longrightarrow> pad w a < pad w b"
proof (induction w a arbitrary: b rule: pad.induct)
  case (2 w n)
  have "n div 10 \<le> b div 10" using 2(2) by (simp add: div_le_mono)
  then consider "n div 10 < b div 10" | "n div 10 = b div 10" "n mod 10 < b mod 10"
    using 2(2) by (metis add_less_cancel_left le_less mult_div_mod_eq)
  then show ?case
  proof cases
    case 1
    with 2(1) [of "b div 10"] 2(3) show ?thesis by (simp add: append_less less_mult_imp_div_less mult.commute)
  next
    case 2
    then show ?thesis by (simp add: append_less digit_less)
  qed
qed simp

lemma nat_to_string_last: "10 \<le> n \<Longrightarrow> nat_to_string n = nat_to_string (n div 10) @ [char_of (48 + n mod 10)]"
  by (subst nat_to_string.simps) simp

lemma year_text: "1000 \<le> y \<Longrightarrow> y < 10000 \<Longrightarrow> int_to_string y = pad 4 (nat y)"
proof -
  assume y: "1000 \<le> y" "y < 10000"
  define n where "n = nat y"
  then have n: "1000 \<le> n" "n < 10000" using y by simp_all
  have "10 \<le> n" "10 \<le> n div 10" "10 \<le> n div 10 div 10" "n div 10 div 10 div 10 < 10" using n by linarith+
  then have "nat_to_string n = pad (Suc (Suc (Suc (Suc 0)))) n"
    by (simp add: nat_to_string_last nat_to_string.simps [of "n div 10 div 10 div 10"])
  moreover have "int_to_string y = nat_to_string n" using y by (simp add: int_to_string_def n_def)
  moreover have "Suc (Suc (Suc (Suc 0))) = 4" by simp
  ultimately show ?thesis unfolding n_def by argo
qed

lemma two_less: "0 \<le> a \<Longrightarrow> a < b \<Longrightarrow> b < 100 \<Longrightarrow> two a < two b"
  using pad_less [of "nat a" "nat b" 2] by (simp add: two_def)

lemma length_two [simp]: "length (two i) = 2"
  by (simp add: two_def)

text \<open>Fields of a fixed width compare as the numbers do.\<close>

lemma field_less:
  fixes a b :: int and f :: "int \<Rightarrow> string"
  assumes mono: "\<And>x y. x \<in> R \<Longrightarrow> y \<in> R \<Longrightarrow> x < y \<Longrightarrow> f x < f y" and len: "\<And>x. length (f x) = w"
    and in_range: "a \<in> R" "b \<in> R"
  shows "f a @ us < f b @ vs \<longleftrightarrow> a < b \<or> a = b \<and> us < vs"
proof -
  have "f a < f b \<longleftrightarrow> a < b" "f a = f b \<longleftrightarrow> a = b"
    using mono [OF in_range] mono [OF in_range(2,1)] by (metis less_asym linorder_less_linear less_irrefl)+
  then show ?thesis by (simp add: append_less len)
qed

lemma two_field_less:
  assumes "0 \<le> a" "a < 100" "0 \<le> b" "b < 100"
  shows "two a @ us < two b @ vs \<longleftrightarrow> a < b \<or> a = b \<and> us < vs" "two a < two b \<longleftrightarrow> a < b"
  using field_less [of "{0..<100}" two 2 a b us vs] field_less [of "{0..<100}" two 2 a b "[]" "[]"] assms two_less
  by simp_all


text \<open>The years the clock can show.\<close>

definition clock_range :: "int \<Rightarrow> bool" where
  "clock_range t \<longleftrightarrow> - 9223372037 < t \<and> t < 9223372037"

lemma gmtime_year:
  assumes "clock_range t" "gmtime t = ((y, m, d), h, mi, s)"
  shows "1000 \<le> y \<and> y < 10000"
proof -
  have days: "- 106752 \<le> t div 86400" "t div 86400 \<le> 106751"
    using assms(1) unfolding clock_range_def by linarith+
  have "civil (- 106752) = (1677, 9, 21)" "civil 106751 = (2262, 4, 11)" by code_simp+
  moreover have "civil (t div 86400) = (y, m, d)" using assms(2) by (simp add: gmtime_def Let_def)
  moreover have "civil (- 106752) \<le> civil (t div 86400)" "civil (t div 86400) \<le> civil 106751"
    using days civil_less by (metis le_less)+
  ultimately show ?thesis by auto
qed

lemma gmtime_ranges:
  assumes "gmtime t = ((y, m, d), h, mi, s)"
  shows "1 \<le> m \<and> m \<le> 12 \<and> 1 \<le> d \<and> d \<le> 31 \<and> 0 \<le> h \<and> h < 24 \<and> 0 \<le> mi \<and> mi < 60 \<and> 0 \<le> s \<and> s < 60"
proof -
  have "civil (t div 86400) = (y, m, d)" using assms by (simp add: gmtime_def Let_def)
  moreover obtain yy mm dd where "civil (t div 86400) = (yy, mm + 1, dd + 1)" "0 \<le> mm" "mm < 12" "0 \<le> dd" "dd < 31"
    by (rule civil_parts)
  ultimately have "1 \<le> m \<and> m \<le> 12 \<and> 1 \<le> d \<and> d \<le> 31" by auto
  moreover have "h = t mod 86400 div 3600" "mi = t mod 86400 div 60 mod 60" "z = t mod 86400 mod 60" if "s = z" for z
    using assms that by (simp_all add: gmtime_def Let_def)
  moreover have "t mod 86400 div 3600 < 24" "0 \<le> t mod 86400 div 3600"
    using pos_mod_bound [of 86400 t] pos_mod_sign [of 86400 t] by linarith+
  ultimately show ?thesis by simp
qed


lemma date_time_less:
  assumes "a < b" "clock_range s" "clock_range t" "gmtime s = a" "gmtime t = b"
  shows "date_time a < date_time b \<and> length (date_time a) = 19 \<and> length (date_time b) = 19"
proof -
  obtain y m d h mi z where a: "a = ((y, m, d), h, mi, z)" by (metis prod.exhaust)
  obtain y' m' d' h' mi' z' where b: "b = ((y', m', d'), h', mi', z')" by (metis prod.exhaust)
  have ya: "1000 \<le> y" "y < 10000" and yb: "1000 \<le> y'" "y' < 10000"
    using gmtime_year [OF assms(2)] gmtime_year [OF assms(3)] assms(4,5) a b by simp_all
  note ra = gmtime_ranges [OF assms(4) [unfolded a]] and rb = gmtime_ranges [OF assms(5) [unfolded b]]
  have years: "pad 4 (nat y) @ us < pad 4 (nat y') @ vs \<longleftrightarrow> y < y' \<or> y = y' \<and> us < vs" for us vs
    using field_less [of "{0..<10000}" "\<lambda>i. pad 4 (nat i)" 4 y y' us vs] ya yb pad_less [of _ _ 4] by simp
  have "y < y' \<or> y = y' \<and> (m < m' \<or> m = m' \<and> (d < d' \<or> d = d' \<and> (h < h' \<or> h = h' \<and> (mi < mi' \<or> mi = mi' \<and> z < z'))))"
    using assms(1) unfolding a b by (auto simp: le_less)
  then show ?thesis
    unfolding a b date_time_def prod.case year_text [OF ya] year_text [OF yb] years
    using ra rb by (simp add: two_field_less)
qed

lemma length_date_time: "clock_range t \<Longrightarrow> length (date_time (gmtime t)) = 19"
proof -
  assume t: "clock_range t"
  obtain y m d h mi z where g: "gmtime t = ((y, m, d), h, mi, z)" by (metis prod.exhaust)
  have y: "1000 \<le> y" "y < 10000" using gmtime_year [OF t g] by simp_all
  show ?thesis unfolding g date_time_def prod.case year_text [OF y] by simp
qed

text \<open>Seconds and milliseconds of a moment after 1970.\<close>

lemma cut_milliseconds:
  assumes "0 \<le> ns"
  shows "cut_div ns (10 ^ 9) = cut_div ns (10 ^ 6) div 1000"
    and "cut_div ns (10 ^ 6) - 1000 * cut_div (cut_div ns (10 ^ 6)) 1000 = cut_div ns (10 ^ 6) mod 1000"
proof -
  have "ns div (10 ^ 6 * 1000) = ns div 10 ^ 6 div 1000" by (rule zdiv_zmult2_eq) simp
  then show "cut_div ns (10 ^ 9) = cut_div ns (10 ^ 6) div 1000" using assms by (simp add: cut_div_def)
  have "0 \<le> cut_div ns (10 ^ 6)" using assms by (simp add: cut_div_def)
  then show "cut_div ns (10 ^ 6) - 1000 * cut_div (cut_div ns (10 ^ 6)) 1000 = cut_div ns (10 ^ 6) mod 1000"
    unfolding cut_div_def [of "cut_div ns (10 ^ 6)"] by (simp add: minus_mult_div_eq_mod)
qed

lemma seconds_in_range:
  assumes "0 \<le> ns" "ns < 2 ^ 63"
  shows "clock_range (cut_div ns (10 ^ 6) div 1000)"
proof -
  have "ns < 9223372036854775808" using assms(2) by simp
  then have "0 \<le> ns div 1000000 div 1000 \<and> ns div 1000000 div 1000 < 9223372037" using assms(1) by linarith
  then show ?thesis using assms(1) by (simp add: cut_div_def clock_range_def)
qed

lemma timestamp_less:
  assumes "0 \<le> a" "0 \<le> b" "a < 2 ^ 63" "b < 2 ^ 63" "cut_div a (10 ^ 6) < cut_div b (10 ^ 6)"
  shows "timestamp a < timestamp b"
proof -
  let ?m = "cut_div a (10 ^ 6)" and ?n = "cut_div b (10 ^ 6)"
  have nonneg: "0 \<le> ?m" "0 \<le> ?n" using assms by (simp_all add: cut_div_def)
  have range: "clock_range (?m div 1000)" "clock_range (?n div 1000)"
    using assms seconds_in_range by blast+
  have millis: "millis_text (x mod 1000) = pad 3 (nat (x mod 1000))" for x
    using pos_mod_sign [of 1000 x] by (simp add: millis_text_def not_less [symmetric])
  consider "?m div 1000 < ?n div 1000" | "?m div 1000 = ?n div 1000" "?m mod 1000 < ?n mod 1000"
    using assms(5) zdiv_mono1 [of ?m ?n 1000] mult_div_mod_eq [of 1000 ?m] mult_div_mod_eq [of 1000 ?n] by linarith
  then show ?thesis
  proof cases
    case 1
    with date_time_less [OF gmtime_less range refl refl] show ?thesis
      unfolding timestamp_def Let_def cut_milliseconds [OF assms(1)] cut_milliseconds [OF assms(2)]
      by (simp add: append_less)
  next
    case 2
    have "pad 3 (nat (?m mod 1000)) < pad 3 (nat (?n mod 1000))"
      using 2(2) by (intro pad_less) (simp_all add: nat_less_iff)
    with 2(1) show ?thesis
      unfolding timestamp_def Let_def cut_milliseconds [OF assms(1)] cut_milliseconds [OF assms(2)] millis
      by (simp add: append_less)
  qed
qed

lemma line_digit: "(char_of (48 + n mod 10) :: char) \<noteq> NL" for n :: nat
proof
  assume "char_of (48 + n mod 10) = NL"
  moreover have "byte (char_of (48 + n mod 10)) = 48 + n mod 10" by (rule byte_char_of) (use mod_less_divisor [of 10 n] in linarith)
  ultimately show False by (simp add: byte_def)
qed

lemma line_pad: "NL \<notin> set (pad w n)"
  by (induction w n rule: pad.induct) (use line_digit in \<open>auto dest: sym\<close>)

lemma line_int: "NL \<notin> set (int_to_string i)"
proof -
  have "\<not> is_digit NL" by (simp add: is_digit_def byte_def)
  then have "NL \<notin> set (nat_to_string n)" for n using nat_to_string_digits by blast
  then show ?thesis by (simp add: int_to_string_def)
qed

lemma timestamp_line: "NL \<notin> set (timestamp ns)"
proof -
  obtain y m d h mi s where "gmtime (cut_div ns (10 ^ 9)) = ((y, m, d), h, mi, s)" by (metis prod.exhaust)
  then show ?thesis
    using line_pad line_int by (simp add: timestamp_def Let_def date_time_def millis_text_def two_def) 
qed

section \<open>Properties\<close>

text \<open>
  Time stamps sort as moments do.  The stamps of a log sort by their text exactly as the moments
  sort by milliseconds, and have a fixed width, for every moment from 1970 on that the clock can show.
\<close>

theorem timestamp_order:
  assumes "0 \<le> a" "0 \<le> b" "a < 2 ^ 63" "b < 2 ^ 63"
  shows "(timestamp a < timestamp b \<longleftrightarrow> cut_div a (10 ^ 6) < cut_div b (10 ^ 6)) \<and> length (timestamp a) = 24"
proof
  let ?m = "cut_div a (10 ^ 6)" and ?n = "cut_div b (10 ^ 6)"
  have same: "timestamp a = timestamp b" if "?m = ?n"
    unfolding timestamp_def Let_def cut_milliseconds [OF assms(1)] cut_milliseconds [OF assms(2)] that ..
  show "timestamp a < timestamp b \<longleftrightarrow> ?m < ?n"
    using timestamp_less [OF assms] timestamp_less [OF assms(2,1,4,3)] same
    by (metis less_asym linorder_less_linear less_irrefl)
  have "clock_range (?m div 1000)" using assms by (intro seconds_in_range)
  from length_date_time [OF this] show "length (timestamp a) = 24"
    unfolding timestamp_def Let_def cut_milliseconds [OF assms(1)] by (simp add: millis_text_def)
qed

theorem timestamp_order_witness: "timestamp 0 < timestamp (10 ^ 6)"
  using timestamp_order [of 0 "10 ^ 6"] by (simp add: cut_div_def)

end
