(* ===== verification/Transport.thy ===== *)
theory Transport
  imports Errors
begin

text \<open>
  \<^verbatim>\<open>include/gemini/transport.hpp\<close>: requests, responses and the interface the client talks to.

  The network is outside the program: the interface is a record of functions on an opaque state
  \<^typ>\<open>'w\<close> of the world.  A streaming exchange is described by the pieces of body the transport
  would hand to the callback and by the result it returns; the result may depend on whether
  the callback aborted the transfer (the flag \<^const>\<open>True\<close>).
\<close>

type_synonym http_headers = "string \<Rightarrow> string option"

record http_request =
  req_method :: string
  req_url :: string
  req_headers :: "(string \<times> string) list"
  req_body :: string
  req_timeout :: int

record http_response =
  resp_status :: int
  resp_headers :: http_headers
  resp_body :: string

record 'w transport =
  tr_send :: "http_request \<Rightarrow> 'w \<Rightarrow> (error + http_response) \<times> 'w"
  tr_stream :: "http_request \<Rightarrow> 'w \<Rightarrow> string list \<times> (bool \<Rightarrow> error + http_response) \<times> 'w"

end
