(* ===== verification/Serialization.thy ===== *)
theory Serialization
  imports Types Transport Strtod
begin

text \<open>
  \<^verbatim>\<open>include/gemini/serialization.hpp\<close> and \<^verbatim>\<open>src/serialization.cpp\<close>: the mapping between the value
  types and the REST wire format.  \<open>J\<close> is the JSON library.
\<close>

section \<open>Helpers\<close>

definition string_or :: "'j json_lib \<Rightarrow> 'j \<Rightarrow> string \<Rightarrow> string \<Rightarrow> string" where
  "string_or J j key fallback =
     (case json_find J j key of
        Some v \<Rightarrow> (case json_get_string J v of Some s \<Rightarrow> s | None \<Rightarrow> fallback)
      | None \<Rightarrow> fallback)"

definition int_or :: "'j json_lib \<Rightarrow> 'j \<Rightarrow> string \<Rightarrow> int \<Rightarrow> int" where
  "int_or J j key fallback =
     (case json_find J j key of
        Some v \<Rightarrow> (case json_get_int J v of Some i \<Rightarrow> i | None \<Rightarrow> fallback)
      | None \<Rightarrow> fallback)"

definition code_for_status :: "int \<Rightarrow> string \<Rightarrow> error_code" where
  "code_for_status st api =
     (if api = ''RESOURCE_EXHAUSTED'' then KRateLimited
      else if api = ''DEADLINE_EXCEEDED'' then KTimeout
      else if st = 400 then KInvalidArgument
      else if st = 401 \<or> st = 403 then KUnauthenticated
      else if st = 404 then KNotFound
      else if st = 408 then KTimeout
      else if st = 429 then KRateLimited
      else if 500 \<le> st \<and> st \<le> 599 then KServer
      else KHttp)"

section \<open>Writing\<close>

text \<open>\<^verbatim>\<open>if (opt) j[key] = *opt;\<close>\<close>

definition set_opt :: "'j json_lib \<Rightarrow> string \<Rightarrow> ('a \<Rightarrow> 'j) \<Rightarrow> 'a option \<Rightarrow> 'j \<Rightarrow> 'j" where
  "set_opt J key conv v j = (case v of None \<Rightarrow> j | Some a \<Rightarrow> json_set J j key (conv a))"

definition config_to_json :: "'j json_lib \<Rightarrow> 'j generation_config \<Rightarrow> 'j" where
  "config_to_json J c =
     (let j = json_object J [];
          j = set_opt J ''temperature'' (json_double J) (temperature c) j;
          j = set_opt J ''topP'' (json_double J) (top_p c) j;
          j = set_opt J ''topK'' (json_int J) (top_k c) j;
          j = set_opt J ''maxOutputTokens'' (json_int J) (max_output_tokens c) j;
          j = set_opt J ''candidateCount'' (json_int J) (candidate_count c) j;
          j = set_opt J ''seed'' (json_int J) (seed c) j;
          j = set_opt J ''responseMimeType'' (json_string J) (response_mime_type c) j;
          j = (if \<not> json_is_null J (response_schema c)
               then json_set J j ''responseSchema'' (response_schema c) else j);
          j = (if stop_sequences c \<noteq> []
               then json_set J j ''stopSequences'' (json_array J (map (json_string J) (stop_sequences c)))
               else j)
      in set_opt J ''thinkingConfig'' (\<lambda>n. json_object J [(''thinkingBudget'', json_int J n)])
           (thinking_budget c) j)"

definition set_id :: "'j json_lib \<Rightarrow> string \<Rightarrow> 'j \<Rightarrow> 'j" where
  "set_id J i j = (if i \<noteq> [] then json_set J j ''id'' (json_string J i) else j)"

definition part_to_json :: "'j json_lib \<Rightarrow> 'j part \<Rightarrow> 'j" where
  "part_to_json J p =
     (let j = (case part_value p of
                 Text t \<Rightarrow>
                   (let j = json_set J (json_null J) ''text'' (json_string J t)
                    in if thought p then json_set J j ''thought'' (json_bool J True) else j)
               | Call c \<Rightarrow>
                   json_set J (json_null J) ''functionCall''
                     (set_id J (fc_id c)
                       (json_object J [(''name'', json_string J (fc_name c)), (''args'', fc_args c)]))
               | Response r \<Rightarrow>
                   json_set J (json_null J) ''functionResponse''
                     (set_id J (fr_id r)
                       (json_object J [(''name'', json_string J (fr_name r)), (''response'', fr_response r)])))
      in if thought_signature p \<noteq> []
         then json_set J j ''thoughtSignature'' (json_string J (thought_signature p)) else j)"

definition content_to_json :: "'j json_lib \<Rightarrow> 'j content \<Rightarrow> 'j" where
  "content_to_json J c =
     json_object J
       [(''role'', json_string J (role_to_string (role c))),
        (''parts'', json_array J (map (part_to_json J) (parts c)))]"

definition declaration_to_json :: "'j json_lib \<Rightarrow> 'j function_declaration \<Rightarrow> 'j" where
  "declaration_to_json J d =
     (let decl = json_object J [(''name'', json_string J (fd_name d)),
                                (''description'', json_string J (fd_description d))]
      in if \<not> json_is_null J (fd_parameters d) \<and> \<not> json_empty J (fd_parameters d)
         then json_set J decl ''parameters'' (fd_parameters d) else decl)"

definition request_to_json :: "'j json_lib \<Rightarrow> 'j generate_request \<Rightarrow> 'j" where
  "request_to_json J r =
     (let j = json_set J (json_null J) ''contents'' (json_array J (map (content_to_json J) (contents r)));
          j = set_opt J ''systemInstruction''
                (\<lambda>c. json_object J [(''parts'', json_array J (map (part_to_json J) (parts c)))])
                (system_instruction r) j;
          j = (if tools r \<noteq> [] then
                 json_set J j ''tools''
                   (json_array J
                     [json_object J
                       [(''functionDeclarations'', json_array J (map (declaration_to_json J) (tools r)))]])
               else j);
          cfg = config_to_json J (config r);
          j = (if \<not> json_empty J cfg then json_set J j ''generationConfig'' cfg else j)
      in if safety_settings r \<noteq> [] then
           json_set J j ''safetySettings''
             (json_array J
               (map (\<lambda>s. json_object J [(''category'', json_string J (category s)),
                                       (''threshold'', json_string J (threshold s))])
                 (safety_settings r)))
         else j)"

section \<open>Reading\<close>

definition find_object_at :: "'j json_lib \<Rightarrow> 'j \<Rightarrow> string \<Rightarrow> 'j option" where
  "find_object_at J j key =
     (case json_find J j key of Some v \<Rightarrow> (if json_is_object J v then Some v else None) | None \<Rightarrow> None)"

definition find_string_at :: "'j json_lib \<Rightarrow> 'j \<Rightarrow> string \<Rightarrow> string option" where
  "find_string_at J j key =
     (case json_find J j key of Some v \<Rightarrow> json_get_string J v | None \<Rightarrow> None)"

definition find_array_at :: "'j json_lib \<Rightarrow> 'j \<Rightarrow> string \<Rightarrow> 'j list option" where
  "find_array_at J j key =
     (case json_find J j key of Some v \<Rightarrow> json_get_array J v | None \<Rightarrow> None)"

definition parse_part :: "'j json_lib \<Rightarrow> 'j \<Rightarrow> 'j part result" where
  "parse_part J j =
     (if \<not> json_is_object J j then err KParse ''part is not an object''
      else
        let sig = string_or J j ''thoughtSignature'' [] in
        case find_string_at J j ''text'' of
          Some t \<Rightarrow>
            bind_result (value_bool J j ''thought'' False)
              (\<lambda>b. Inr \<lparr>part_value = Text t, thought = b, thought_signature = sig\<rparr>)
        | None \<Rightarrow>
        (case find_object_at J j ''functionCall'' of
          Some o1 \<Rightarrow>
            (let name = string_or J o1 ''name'' [];
                 args = (case json_find J o1 ''args'' of Some a \<Rightarrow> a | None \<Rightarrow> json_object J [])
             in if name = [] then err KParse ''functionCall without name''
                else Inr \<lparr>part_value = Call \<lparr>fc_name = name, fc_args = args,
                                              fc_id = string_or J o1 ''id'' []\<rparr>,
                          thought = False, thought_signature = sig\<rparr>)
        | None \<Rightarrow>
        (case find_object_at J j ''functionResponse'' of
          Some o2 \<Rightarrow>
            Inr \<lparr>part_value = Response
                   \<lparr>fr_name = string_or J o2 ''name'' [],
                    fr_response = (case json_find J o2 ''response'' of Some r \<Rightarrow> r
                                   | None \<Rightarrow> json_object J []),
                    fr_id = string_or J o2 ''id'' []\<rparr>,
                 thought = False, thought_signature = sig\<rparr>
        | None \<Rightarrow> err KParse ''unsupported part kind'')))"

text \<open>The loop of \<^verbatim>\<open>parse_content\<close>: unknown kinds are skipped, everything else that fails fails.\<close>

fun parse_parts :: "'j json_lib \<Rightarrow> 'j list \<Rightarrow> 'j part list result" where
  "parse_parts J [] = Inr []"
| "parse_parts J (pj # pjs) =
     (case parse_part J pj of
        Inr p \<Rightarrow> bind_result (parse_parts J pjs) (\<lambda>ps. Inr (p # ps))
      | Inl (Failed e) \<Rightarrow>
          if message e \<noteq> ''unsupported part kind'' then Inl (Failed e) else parse_parts J pjs
      | Inl f \<Rightarrow> Inl f)"

definition parse_content :: "'j json_lib \<Rightarrow> 'j \<Rightarrow> 'j content result" where
  "parse_content J j =
     (if \<not> json_is_object J j then Inr \<lparr>role = Model, parts = []\<rparr>
      else
        let r = (if string_or J j ''role'' ''model'' = ''user'' then User else Model) in
        case find_array_at J j ''parts'' of
          Some pjs \<Rightarrow> bind_result (parse_parts J pjs) (\<lambda>ps. Inr \<lparr>role = r, parts = ps\<rparr>)
        | None \<Rightarrow> Inr \<lparr>role = r, parts = []\<rparr>)"

definition parse_candidate :: "'j json_lib \<Rightarrow> int \<Rightarrow> 'j \<Rightarrow> 'j candidate result" where
  "parse_candidate J position cj =
     (let cand = \<lparr>cand_content = \<lparr>role = Model, parts = []\<rparr>,
                  cand_finish_reason = string_or J cj ''finishReason'' [],
                  cand_index = to_i32 (int_or J cj ''index'' position)\<rparr>
      in case json_find J cj ''content'' of
           Some c \<Rightarrow> bind_result (parse_content J c) (\<lambda>ct. Inr (cand\<lparr>cand_content := ct\<rparr>))
         | None \<Rightarrow> Inr cand)"

fun parse_candidates :: "'j json_lib \<Rightarrow> int \<Rightarrow> 'j list \<Rightarrow> 'j candidate list result" where
  "parse_candidates J position [] = Inr []"
| "parse_candidates J position (cj # cjs) =
     bind_result (parse_candidate J position cj)
       (\<lambda>c. bind_result (parse_candidates J (position + 1) cjs) (\<lambda>cs. Inr (c # cs)))"

definition parse_usage :: "'j json_lib \<Rightarrow> 'j \<Rightarrow> usage_metadata" where
  "parse_usage J j =
     (case find_object_at J j ''usageMetadata'' of
        Some u \<Rightarrow> \<lparr>prompt_tokens = int_or J u ''promptTokenCount'' 0,
                    candidates_tokens = int_or J u ''candidatesTokenCount'' 0,
                    thoughts_tokens = int_or J u ''thoughtsTokenCount'' 0,
                    total_tokens = int_or J u ''totalTokenCount'' 0\<rparr>
      | None \<Rightarrow> zero_usage)"

definition parse_generate_response :: "'j json_lib \<Rightarrow> 'j \<Rightarrow> 'j generate_response result" where
  "parse_generate_response J j =
     (if \<not> json_is_object J j then err KParse ''response is not a JSON object''
      else
        bind_result
          (case find_array_at J j ''candidates'' of
             Some cjs \<Rightarrow> parse_candidates J 0 cjs
           | None \<Rightarrow> Inr [])
          (\<lambda>cs. Inr
             \<lparr>candidates = cs,
              usage = parse_usage J j,
              model_version = string_or J j ''modelVersion'' [],
              response_id = string_or J j ''responseId'' [],
              prompt_block_reason =
                (case find_object_at J j ''promptFeedback'' of
                   Some fb \<Rightarrow> (let reason = string_or J fb ''blockReason'' []
                               in if reason \<noteq> [] then Some reason else None)
                 | None \<Rightarrow> None)\<rparr>))"

definition parse_response_body :: "'j json_lib \<Rightarrow> string \<Rightarrow> 'j generate_response result" where
  "parse_response_body J body =
     (case json_parse J body of
        None \<Rightarrow> err KParse (''invalid JSON in response: '' @ take 200 body)
      | Some j \<Rightarrow> parse_generate_response J j)"

definition parse_model_info :: "'j json_lib \<Rightarrow> 'j \<Rightarrow> model_info" where
  "parse_model_info J m =
     \<lparr>mi_name = string_or J m ''name'' [],
      mi_display_name = string_or J m ''displayName'' [],
      mi_description = string_or J m ''description'' [],
      mi_input_token_limit = int_or J m ''inputTokenLimit'' 0,
      mi_output_token_limit = int_or J m ''outputTokenLimit'' 0,
      mi_supported_methods =
        (case find_array_at J m ''supportedGenerationMethods'' of
           Some ms \<Rightarrow> values_of (json_get_string J) ms
         | None \<Rightarrow> [])\<rparr>"

text \<open>The models and the next page token (which is only written on success).\<close>

definition parse_model_list :: "'j json_lib \<Rightarrow> string \<Rightarrow> (model_info list \<times> string) result" where
  "parse_model_list J body =
     (case json_parse J body of
        None \<Rightarrow> err KParse ''invalid JSON in model list''
      | Some j \<Rightarrow>
          if \<not> json_is_object J j then err KParse ''invalid JSON in model list''
          else Inr (case find_array_at J j ''models'' of
                      Some ms \<Rightarrow> map (parse_model_info J) ms
                    | None \<Rightarrow> [],
                    string_or J j ''nextPageToken'' []))"

text \<open>
  \<^verbatim>\<open>parse_proto_duration\<close>.  Seconds of more than about \<open>9.2e15\<close> do not fit the 64-bit count of
  milliseconds and the conversion is undefined.
\<close>

definition parse_proto_duration :: "string \<Rightarrow> int option result" where
  "parse_proto_duration t =
     (if length t < 2 \<or> last t \<noteq> CHR ''s'' then Inr None
      else
        let (seconds, rest) = strtod (butlast t) in
        if rest \<noteq> [] \<or> \<not> d_isfinite seconds \<or> d_less seconds (Fin False 0) then Inr None
        else case d_to_i64 (d_ceil (d_mul seconds (double_of_int 1000))) of
               Some ms \<Rightarrow> Inr (Some ms)
             | None \<Rightarrow> Inl (Undefined ''double to int64''))"

text \<open>The loop over \<^verbatim>\<open>details\<close>: the last \<^verbatim>\<open>RetryInfo\<close> decides.\<close>

fun retry_info :: "'j json_lib \<Rightarrow> 'j list \<Rightarrow> int option \<Rightarrow> int option result" where
  "retry_info J [] acc = Inr acc"
| "retry_info J (d # ds) acc =
     (if ends_with ''google.rpc.RetryInfo'' (string_or J d ''@type'' [])
      then bind_result (parse_proto_duration (string_or J d ''retryDelay'' [])) (retry_info J ds)
      else retry_info J ds acc)"

text \<open>
  The \<^verbatim>\<open>Retry-After\<close> header: only the status of \<^verbatim>\<open>from_chars\<close> is looked at, so digits followed by
  anything count; the conversion of seconds to milliseconds overflows, which is undefined, from
  9223372036854776 seconds on.
\<close>

definition retry_after_header :: "http_headers \<Rightarrow> int option result" where
  "retry_after_header headers =
     (case headers ''retry-after'' of
        None \<Rightarrow> Inr None
      | Some v \<Rightarrow>
          (case from_chars (- (2 ^ 63)) (2 ^ 63 - 1) v of
             None \<Rightarrow> Inr None
           | Some (seconds, _) \<Rightarrow>
               if 0 \<le> seconds then
                 if seconds * 1000 < 2 ^ 63 then Inr (Some (seconds * 1000))
                 else Inl (Undefined ''seconds to milliseconds'')
               else Inr None))"

definition parse_api_error :: "'j json_lib \<Rightarrow> int \<Rightarrow> string \<Rightarrow> http_headers \<Rightarrow> error result" where
  "parse_api_error J st body headers =
     (let msg0 = ''HTTP '' @ int_to_string st;
          j0 = json_parse J body;
          j = (case j0 of
                 None \<Rightarrow> None
               | Some v \<Rightarrow> (case json_get_array J v of Some (x # xs) \<Rightarrow> Some x | _ \<Rightarrow> Some v));
          obj = (case j of None \<Rightarrow> None | Some v \<Rightarrow> if json_is_object J v then Some v else None);
          e = (case obj of None \<Rightarrow> None | Some v \<Rightarrow> find_object_at J v ''error'');
          msg = (case obj of
                   Some _ \<Rightarrow>
                     (case e of
                        Some ev \<Rightarrow> (let m = string_or J ev ''message'' [] in if m \<noteq> [] then m else msg0)
                      | None \<Rightarrow> msg0)
                 | None \<Rightarrow> if body \<noteq> [] then msg0 @ '': '' @ take 300 body else msg0);
          api = (case e of Some ev \<Rightarrow> string_or J ev ''status'' [] | None \<Rightarrow> []);
          details = (case e of
                       Some ev \<Rightarrow> (case find_array_at J ev ''details'' of Some ds \<Rightarrow> ds | None \<Rightarrow> [])
                     | None \<Rightarrow> [])
      in bind_result (retry_info J details None)
           (\<lambda>ra. bind_result (case ra of Some r \<Rightarrow> Inr (Some r) | None \<Rightarrow> retry_after_header headers)
             (\<lambda>ra'. Inr \<lparr>code = code_for_status st api, message = msg, http_status = st,
                         api_status = api, retry_after = ra'\<rparr>)))"

section \<open>Reading back what was written\<close>

text \<open>
  The parts the wire format can express: a call has a name, and only a text part can be marked as
  a thought (\<^verbatim>\<open>to_json\<close> writes the mark for text only).
\<close>

definition wf_part :: "'j part \<Rightarrow> bool" where
  "wf_part p \<longleftrightarrow>
     (case part_value p of
        Text t \<Rightarrow> True
      | Call c \<Rightarrow> fc_name c \<noteq> [] \<and> \<not> thought p
      | Response r \<Rightarrow> \<not> thought p)"

definition wf_content :: "'j content \<Rightarrow> bool" where
  "wf_content c \<longleftrightarrow> list_all wf_part (parts c)"

context json_api
begin

lemma set_id_object: "json_is_object J j \<Longrightarrow> json_is_object J (set_id J i j)"
  by (simp add: set_id_def api_simps)

lemma find_set_id:
  "json_is_object J j \<Longrightarrow>
   json_find J (set_id J i j) k =
     (if k = ''id'' \<and> i \<noteq> [] then Some (json_string J i) else json_find J j k)"
  by (simp add: set_id_def api_simps)

lemma string_or_set_id:
  "json_is_object J j \<Longrightarrow> json_find J j ''id'' = None \<Longrightarrow> string_or J (set_id J i j) ''id'' [] = i"
  by (simp add: string_or_def find_set_id api_simps)

lemmas write_simps =
  api_simps set_id_object find_set_id string_or_set_id string_or_def find_string_at_def
  find_object_at_def find_array_at_def value_bool_def

lemma parse_part_to_json:
  assumes "wf_part p"
  shows "parse_part J (part_to_json J p) = Inr p"
proof (cases "part_value p")
  case (Text t)
  then show ?thesis
    by (cases p) (simp add: parse_part_def part_to_json_def Let_def write_simps)
next
  case (Call c)
  with assms have "fc_name c \<noteq> []" "\<not> thought p" by (simp_all add: wf_part_def)
  with Call show ?thesis
    by (cases p; cases c) (simp add: parse_part_def part_to_json_def Let_def write_simps)
next
  case (Response r)
  with assms have "\<not> thought p" by (simp add: wf_part_def)
  with Response show ?thesis
    by (cases p; cases r) (simp add: parse_part_def part_to_json_def Let_def write_simps)
qed

lemma parse_parts_to_json:
  "list_all wf_part ps \<Longrightarrow> parse_parts J (map (part_to_json J) ps) = Inr ps"
  by (induction ps) (simp_all add: parse_part_to_json)

lemma parse_content_to_json:
  assumes "wf_content c"
  shows "parse_content J (content_to_json J c) = Inr c"
proof (cases c)
  case (fields r ps)
  with assms have "list_all wf_part ps" by (simp add: wf_content_def)
  with fields show ?thesis
    by (cases r) (simp_all add: parse_content_def content_to_json_def write_simps parse_parts_to_json)
qed

lemma request_contents:
  "find_array_at J (request_to_json J r) ''contents'' = Some (map (content_to_json J) (contents r))"
proof -
  let ?j0 = "json_set J (json_null J) ''contents'' (json_array J (map (content_to_json J) (contents r)))"
  have keep: "json_is_object J (set_opt J k f v j) \<and> json_find J (set_opt J k f v j) ''contents'' = json_find J j ''contents''"
    if "json_is_object J j" "k \<noteq> ''contents''" for j k f and v :: "'b option"
    using that by (cases v) (simp_all add: set_opt_def api_simps)
  show ?thesis
    unfolding request_to_json_def Let_def find_array_at_def
    by (simp add: api_simps keep)
qed

end

section \<open>Failures and hints\<close>

lemma parse_part_failures:
  "(\<exists>p. parse_part J j = Inr p) \<or> (\<exists>m. parse_part J j = err KParse m) \<or>
   parse_part J j = Inl (Thrown ''type_error.302'')"
  by (auto simp: parse_part_def Let_def value_bool_def split: option.splits)

lemma returns_parse_part:
  "returns (parse_part J j) \<longleftrightarrow>
     \<not> (json_is_object J j \<and> find_string_at J j ''text'' \<noteq> None \<and>
        (\<exists>v. json_find J j ''thought'' = Some v \<and> json_get_bool J v = None))"
  by (auto simp: parse_part_def Let_def value_bool_def split: option.splits)

lemma d_less_zero_val: "\<not> d_less (Fin s q) (Fin False 0) \<Longrightarrow> 0 \<le> q \<Longrightarrow> s \<Longrightarrow> q = 0"
  by (simp add: signed_val_def)

lemma mk_double_zero [simp]: "mk_double s 0 = Fin s 0"
  by (simp add: mk_double_exact representable_of_int [of 0, simplified])

lemma parse_proto_duration_nonneg:
  assumes "parse_proto_duration t = Inr (Some ms)"
  shows "0 \<le> ms"
proof -
  obtain d rest where st: "strtod (butlast t) = (d, rest)" by fastforce
  with assms have d: "d_isfinite d" "\<not> d_less d (Fin False 0)"
    "d_to_i64 (d_ceil (d_mul d (double_of_int 1000))) = Some ms"
    by (auto simp: parse_proto_duration_def split: if_splits option.splits)
  then obtain s q where sq: "d = Fin s q" by (cases d) auto
  have k: "double_of_int 1000 = Fin False 1000" using double_of_int_nat [of 1000] by simp
  have "wf_double d" using wf_strtod [of "butlast t"] st by simp
  then have q: "0 \<le> q" by (simp add: sq representable_nonneg)
  show ?thesis
  proof (cases s)
    case True
    with d(2) q sq have "q = 0" by (simp add: signed_val_def)
    with d(3) sq k True show ?thesis by (simp split: if_splits)
  next
    case False
    have "0 \<le> \<lceil>round_mag (q * 1000)\<rceil>" using round_mag_nonneg [of "q * 1000"] by linarith
    with d(3) sq k False show ?thesis
      by (auto simp: mk_double_def Let_def split: if_splits)
  qed
qed

lemma retry_info_nonneg:
  "retry_info J ds acc = Inr (Some ms) \<Longrightarrow> (\<And>a. acc = Some a \<Longrightarrow> 0 \<le> a) \<Longrightarrow> 0 \<le> ms"
proof (induction ds arbitrary: acc)
  case (Cons d ds)
  show ?case
  proof (cases "ends_with ''google.rpc.RetryInfo'' (string_or J d ''@type'' [])")
    case True
    with Cons.prems(1) obtain a where a:
      "parse_proto_duration (string_or J d ''retryDelay'' []) = Inr a" "retry_info J ds a = Inr (Some ms)"
      by (auto simp: bind_result_Inr)
    show ?thesis by (rule Cons.IH [OF a(2)]) (use a(1) in \<open>auto dest: parse_proto_duration_nonneg\<close>)
  next
    case False
    with Cons show ?thesis by simp
  qed
qed simp

lemma retry_after_header_nonneg: "retry_after_header h = Inr (Some ms) \<Longrightarrow> 0 \<le> ms"
  by (auto simp: retry_after_header_def split: option.splits if_splits)

lemma parse_api_error_fields:
  assumes "parse_api_error J st body headers = Inr e"
  shows "code e = code_for_status st (api_status e) \<and> http_status e = st \<and>
         (\<forall>ms. retry_after e = Some ms \<longrightarrow> 0 \<le> ms)"
proof -
  from assms obtain ds ra where "retry_info J ds None = Inr ra"
    "(case ra of Some r \<Rightarrow> Inr (Some r) | None \<Rightarrow> retry_after_header headers) = Inr (retry_after e)"
    "code e = code_for_status st (api_status e)" "http_status e = st"
    unfolding parse_api_error_def Let_def bind_result_Inr by auto
  then show ?thesis
    by (auto split: option.splits dest: retry_info_nonneg retry_after_header_nonneg)
qed

lemma code_for_status_retryable:
  "code_for_status st api \<in> {KTransport, KTimeout, KRateLimited, KServer} \<longleftrightarrow>
     api = ''RESOURCE_EXHAUSTED'' \<or> api = ''DEADLINE_EXCEEDED'' \<or> st = 408 \<or> st = 429 \<or>
     (500 \<le> st \<and> st \<le> 599)"
  by (auto simp: code_for_status_def)

section \<open>Properties\<close>

text \<open>
  C39: a conversation turn survives the wire.  Writing a content with \<^verbatim>\<open>to_json\<close> and reading it with
  \<^verbatim>\<open>parse_content\<close> gives the same content: role, order of the parts, texts, thought marks, calls
  and responses with their ids and arguments, and the thought signatures.
\<close>

theorem content_roundtrip:
  assumes "json_api J" and "wf_content c"
  shows "parse_content J (content_to_json J c) = Inr c"
  using assms by (rule json_api.parse_content_to_json)

theorem content_roundtrip_witness:
  "parse_content (jval_lib (\<lambda>_. None) (\<lambda>_. None))
     (content_to_json (jval_lib (\<lambda>_. None) (\<lambda>_. None))
       \<lparr>role = Model,
        parts = [\<lparr>part_value = Call \<lparr>fc_name = ''f'', fc_args = JObject [], fc_id = ''7''\<rparr>,
                  thought = False, thought_signature = ''sig''\<rparr>]\<rparr>) =
   Inr \<lparr>role = Model,
        parts = [\<lparr>part_value = Call \<lparr>fc_name = ''f'', fc_args = JObject [], fc_id = ''7''\<rparr>,
                  thought = False, thought_signature = ''sig''\<rparr>]\<rparr>"
  by (rule content_roundtrip [OF reference_json.json_api_axioms]) (simp add: wf_content_def wf_part_def)

text \<open>
  \<^verbatim>\<open>parse_part\<close> is left by an exception for exactly one kind of input: an object with a string
  \<^verbatim>\<open>text\<close> whose member \<^verbatim>\<open>thought\<close> is present and not a Boolean.  Every other input gives a part or
  an error value.
\<close>

theorem parse_part_returns_iff:
  "returns (parse_part J j) \<longleftrightarrow>
     \<not> (json_is_object J j \<and> find_string_at J j ''text'' \<noteq> None \<and>
        (\<exists>v. json_find J j ''thought'' = Some v \<and> json_get_bool J v = None))"
  by (rule returns_parse_part)

text \<open>
  C40: the classification of a failed HTTP call.  The error carries the HTTP status and the class
  its two statuses decide; it is retryable exactly for 408, 429, the 5xx range and the RPC statuses
  RESOURCE_EXHAUSTED and DEADLINE_EXCEEDED; and a server hint, when there is one, is not negative.
\<close>

theorem api_error_classification:
  assumes "parse_api_error J st body headers = Inr e"
  shows "http_status e = st \<and> code e = code_for_status st (api_status e) \<and>
    (retryable e \<longleftrightarrow>
       api_status e = ''RESOURCE_EXHAUSTED'' \<or> api_status e = ''DEADLINE_EXCEEDED'' \<or>
       st = 408 \<or> st = 429 \<or> (500 \<le> st \<and> st \<le> 599)) \<and>
    (\<forall>ms. retry_after e = Some ms \<longrightarrow> 0 \<le> ms)"
  using parse_api_error_fields [OF assms] code_for_status_retryable [of st "api_status e"]
  by (simp add: retryable_iff)

theorem api_error_classification_witness:
  "\<exists>e. parse_api_error (jval_lib (\<lambda>_. None) (\<lambda>_. None)) 503 [] (\<lambda>_. None) = Inr e \<and> retryable e"
proof -
  obtain e where e: "parse_api_error (jval_lib (\<lambda>_. None) (\<lambda>_. None)) 503 [] (\<lambda>_. None) = Inr e"
    by (simp add: parse_api_error_def retry_after_header_def Let_def)
  with api_error_classification [OF e] show ?thesis by auto
qed

text \<open>
  A protobuf duration of a whole number of seconds is read exactly: \<open>n\<close> seconds are
  \<open>1000 n\<close> milliseconds, for every \<open>n\<close> whose milliseconds are below \<open>2^53\<close>.
\<close>

theorem proto_duration_whole_seconds:
  assumes "1000 * n < 2 ^ 53"
  shows "parse_proto_duration (nat_to_string n @ ''s'') = Inr (Some (int (1000 * n)))"
proof -
  have n: "n < 2 ^ 53" using assms by simp
  have k: "double_of_int 1000 = Fin False 1000" using double_of_int_nat [of 1000] by simp
  have "mk_double False (of_nat n * 1000) = Fin False (of_nat (n * 1000))"
    using mk_double_nat [of "n * 1000" False] assms by (simp add: mult.commute)
  then have "d_mul (mk_double False (of_nat n)) (double_of_int 1000) = Fin False (of_nat (n * 1000))"
    using n by (simp add: k mk_double_nat)
  moreover have "\<lceil>(of_nat (n * 1000) :: rat)\<rceil> = int (n * 1000)" by (rule ceiling_of_nat)
  moreover have "\<lfloor>(of_nat (n * 1000) :: rat)\<rfloor> = int (n * 1000)" by (rule floor_of_nat)
  moreover have "\<not> d_less (mk_double False (of_nat n)) (Fin False 0)"
    using n by (simp add: mk_double_nat signed_val_def)
  moreover have "length (nat_to_string n) \<ge> 1" by (cases "nat_to_string n") auto
  ultimately show ?thesis
    using assms n by (simp add: parse_proto_duration_def strtod_nat_to_string mk_double_nat butlast_append)
qed

theorem proto_duration_whole_seconds_witness: "parse_proto_duration (nat_to_string 30 @ ''s'') = Inr (Some (int (1000 * 30)))"
  by (rule proto_duration_whole_seconds) simp

text \<open>
  The \<^verbatim>\<open>Retry-After\<close> header.  Any text that begins with a number is taken, whatever follows the
  digits; a number of seconds whose milliseconds exceed 64 bits is not rejected but overflows,
  which is undefined behaviour.
\<close>

theorem retry_after_digits:
  assumes "headers ''retry-after'' = Some (nat_to_string n @ t)" and "t = [] \<or> \<not> is_digit (hd t)"
  shows "retry_after_header headers =
     (if int n \<le> 2 ^ 63 - 1 then
        (if int n * 1000 < 2 ^ 63 then Inr (Some (int n * 1000))
         else Inl (Undefined ''seconds to milliseconds''))
      else Inr None)"
  by (simp add: retry_after_header_def assms(1) from_chars_digits [OF assms(2)])

theorem retry_after_digits_witness:
  "retry_after_header (\<lambda>k. Some (nat_to_string (2 ^ 62) @ '' s'')) = Inl (Undefined ''seconds to milliseconds'')"
proof -
  have t: "'' s'' = [] \<or> \<not> is_digit (hd '' s'')" by (simp add: is_digit_def byte_def)
  show ?thesis
    using retry_after_digits [OF _ t, of "\<lambda>k. Some (nat_to_string (2 ^ 62) @ '' s'')" "2 ^ 62"] by simp
qed

end
