(* ===== verification/Retry.thy ===== *)
theory Retry
  imports Errors Double
begin

text \<open>
  \<^verbatim>\<open>include/gemini/retry.hpp\<close> and \<^verbatim>\<open>src/retry.cpp\<close>: exponential backoff with jitter.

  Two things come from outside: \<open>pow\<close> is the mathematics library's \<^verbatim>\<open>std::pow\<close>, and \<open>u\<close> is the
  factor the random distribution on \<^verbatim>\<open>[1 - jitter, 1 + jitter]\<close> draws for this call.
\<close>

record retry_policy =
  max_attempts :: int
  initial_backoff :: int
  max_backoff :: int
  multiplier :: double
  jitter :: double

definition default_policy :: retry_policy where
  "default_policy =
     \<lparr>max_attempts = 4, initial_backoff = 500, max_backoff = 30000,
      multiplier = double_of_int 2, jitter = double_of_rat (2 / 10)\<rparr>"

definition no_retries :: retry_policy where
  "no_retries = default_policy\<lparr>max_attempts := 1\<rparr>"

definition delay_for ::
  "(double \<Rightarrow> double \<Rightarrow> double) \<Rightarrow> double \<Rightarrow> retry_policy \<Rightarrow> int \<Rightarrow> error \<Rightarrow> int result" where
  "delay_for pow u p retry_index e =
     (case retry_after e of
        Some hint \<Rightarrow> Inr (min hint (max_backoff p))
      | None \<Rightarrow>
          let base = d_mul (double_of_int (initial_backoff p))
                       (pow (multiplier p) (double_of_int (max retry_index 0)));
              delay = d_min base (double_of_int (max_backoff p));
              delay = (if d_less (Fin False 0) (jitter p) then d_mul delay u else delay)
          in case d_to_i64 (d_max delay (Fin False 0)) of
               Some ms \<Rightarrow> Inr ms
             | None \<Rightarrow> Inl (Undefined ''double to milliseconds''))"

section \<open>Magnitudes in the computation\<close>

lemma d_min_capped:
  assumes "0 \<le> q"
  shows "\<exists>m. d_min (mk_double False r) (Fin False q) = Fin False m \<and> 0 \<le> m \<and> m \<le> q"
proof (cases "pow2 1024 \<le> round_mag r")
  case True
  then show ?thesis using assms by (simp add: mk_double_def d_min_def)
next
  case False
  then show ?thesis using assms by (auto simp: mk_double_def d_min_def signed_val_def)
qed

lemma d_mul_mono_upper:
  assumes "0 \<le> m" "m \<le> q" "0 \<le> u" "u \<le> U" "round_mag (q * U) < pow2 1024"
  shows "\<exists>r. d_mul (Fin False m) (Fin False u) = Fin False r \<and> 0 \<le> r \<and> r \<le> round_mag (q * U)"
proof -
  have "round_mag (m * u) \<le> round_mag (q * U)"
    using assms by (intro round_mag_mono mult_mono) auto
  then show ?thesis using assms(5) by (auto simp: mk_double_def)
qed

lemma d_to_i64_nonneg:
  assumes "0 \<le> r" "r < 2 ^ 63"
  shows "d_to_i64 (d_max (Fin False r) (Fin False 0)) = Some \<lfloor>r\<rfloor>"
proof -
  have "\<lfloor>r\<rfloor> < 2 ^ 63" using assms(2) by (simp add: floor_less_iff)
  moreover have "0 \<le> \<lfloor>r\<rfloor>" using assms(1) by simp
  ultimately show ?thesis using assms(1) by (simp add: d_max_def signed_val_def)
qed

text \<open>What \<^verbatim>\<open>std::pow\<close> returns for a positive base: a finite value or plus infinity.\<close>

definition pow_result :: "double \<Rightarrow> bool" where
  "pow_result d \<longleftrightarrow> d = double.Inf False \<or> (\<exists>q \<ge> 0. d = Fin False q)"

lemma base_capped:
  assumes "0 < i" "i < 2 ^ 53" "0 \<le> b" "b < 2 ^ 53" "pow_result d"
  shows "\<exists>m. d_min (d_mul (double_of_int i) d) (double_of_int b) = Fin False m \<and> 0 \<le> m \<and> m \<le> of_int b"
proof -
  have i: "double_of_int i = Fin False (of_int i)" and b: "double_of_int b = Fin False (of_int b)"
    using assms double_of_int_exact [of i] double_of_int_exact [of b] by simp_all
  show ?thesis
  proof (cases "d = double.Inf False")
    case True
    then show ?thesis using assms by (simp add: i b d_min_def)
  next
    case False
    with assms(5) obtain q where "0 \<le> q" "d = Fin False q" by (auto simp: pow_result_def)
    with d_min_capped [of "of_int b" "of_int i * q"] assms(3) show ?thesis by (simp add: i b)
  qed
qed

lemma round_mag_upto_double:
  fixes b :: int
  assumes "0 \<le> b" "b < 2 ^ 53" "U \<le> 2"
  shows "round_mag (of_int b * U) \<le> of_int (2 * b)"
proof -
  have "representable (of_int (2 * b))"
    unfolding representable_def using assms
    by (intro exI [of _ b] exI [of _ 1]) (simp add: pow2_def)
  moreover have "of_int b * U \<le> of_int (2 * b)"
    using mult_left_mono [OF assms(3), of "of_int b"] assms(1) by simp
  ultimately show ?thesis
    using round_mag_mono [of "of_int b * U" "of_int (2 * b)"] by (simp only: round_mag_representable)
qed

lemma of_int_less_pow2: "b < 2 ^ n \<Longrightarrow> (of_int b :: rat) < pow2 (int n)"
proof -
  assume "b < 2 ^ n"
  then have "(of_int b :: rat) < of_int (2 ^ n)" by (simp only: of_int_less_iff)
  then show ?thesis by (simp add: pow2_def)
qed

section \<open>Properties\<close>

text \<open>
  The delay before a retry is bounded.  A server hint is followed up to the cap
  \<^verbatim>\<open>max_backoff\<close>; a computed delay is a non-negative number of milliseconds, at most the cap scaled
  by the largest factor \<open>U\<close> the jitter can draw, for every retry index and every result of
  \<^verbatim>\<open>std::pow\<close> for a positive base, overflow to infinity included.
\<close>

theorem delay_bounded:
  assumes "0 < initial_backoff p" "initial_backoff p < 2 ^ 53" "0 \<le> max_backoff p" "max_backoff p < 2 ^ 53"
    and pow: "pow_result (pow (multiplier p) (double_of_int (max i 0)))"
    and u: "u = Fin False uq" "0 \<le> uq" "uq \<le> U" "1 \<le> U" "U \<le> 2"
  shows "\<exists>ms. delay_for pow u p i e = Inr ms \<and>
    (case retry_after e of
       Some hint \<Rightarrow> ms = min hint (max_backoff p)
     | None \<Rightarrow> 0 \<le> ms \<and> ms \<le> \<lfloor>round_mag (of_int (max_backoff p) * U)\<rfloor>)"
proof (cases "retry_after e")
  case None
  let ?M = "of_int (max_backoff p) :: rat"
  obtain m where m: "d_min (d_mul (double_of_int (initial_backoff p)) (pow (multiplier p) (double_of_int (max i 0))))
      (double_of_int (max_backoff p)) = Fin False m" "0 \<le> m" "m \<le> ?M"
    using base_capped [OF assms(1-4) pow] by blast
  have up: "round_mag (?M * U) \<le> of_int (2 * max_backoff p)"
    by (rule round_mag_upto_double [OF assms(3,4) u(5)])
  have two: "(of_int (2 * max_backoff p) :: rat) < pow2 (int 54)"
    using assms(4) by (intro of_int_less_pow2) simp
  then have "(of_int (2 * max_backoff p) :: rat) < pow2 1024" by (rule less_le_trans) simp
  with up have fin: "round_mag (?M * U) < pow2 1024" by linarith
  have small: "round_mag (?M * U) < 2 ^ 63"
  proof -
    have "pow2 (int 54) < (2 ^ 63 :: rat)" by (simp add: pow2_def)
    with up two show ?thesis by linarith
  qed
  have "m \<le> round_mag (?M * U)"
  proof -
    have "?M \<le> ?M * U" using mult_left_mono [OF u(4), of ?M] assms(3) by simp
    then have "round_mag ?M \<le> round_mag (?M * U)" by (rule round_mag_mono)
    moreover have "round_mag ?M = ?M"
      by (rule round_mag_representable [OF representable_of_int [OF assms(3,4)]])
    ultimately show ?thesis using m(3) by linarith
  qed
  with d_mul_mono_upper [OF m(2,3) u(2,3) fin] m(1,2)
  obtain r where r: "(if d_less (Fin False 0) (jitter p) then d_mul (Fin False m) u else Fin False m) = Fin False r"
    "0 \<le> r" "r \<le> round_mag (?M * U)"
    by (cases "d_less (Fin False 0) (jitter p)") (auto simp: u(1) simp del: d_mul.simps)
  from r(3) small have "r < 2 ^ 63" by linarith
  with r have "delay_for pow u p i e = Inr \<lfloor>r\<rfloor>"
    by (simp only: delay_for_def None Let_def m(1) option.case d_to_i64_nonneg)
  with r None show ?thesis by (simp add: floor_mono)
qed (simp add: delay_for_def)

theorem delay_bounded_witness:
  "\<exists>ms. delay_for (\<lambda>_ _. Fin False 8) (Fin False 1) (default_policy) 3 (make_error KServer []) = Inr ms \<and>
     0 \<le> ms \<and> ms \<le> \<lfloor>round_mag (of_int (max_backoff default_policy) * 2)\<rfloor>"
  using delay_bounded [of default_policy "\<lambda>_ _. Fin False 8" 3 "Fin False 1" 1 2 "make_error KServer []"]
  by (simp add: default_policy_def pow_result_def)

text \<open>
  Without jitter and with multiplier two the schedule is the textbook one: the delay before
  retry number \<open>i\<close> is the smaller of \<open>initial_backoff * 2^i\<close> and \<open>max_backoff\<close>, exactly, provided
  \<^verbatim>\<open>std::pow\<close> is exact on that power of two.
\<close>

theorem backoff_doubles:
  assumes "0 \<le> initial_backoff p" "initial_backoff p < 2 ^ 53" "0 \<le> max_backoff p" "max_backoff p < 2 ^ 53"
    and "jitter p = Fin False 0" and "i < 900"
    and pow: "pow (multiplier p) (double_of_int (int i)) = Fin False (2 ^ i)"
    and "retry_after e = None"
  shows "delay_for pow u p (int i) e = Inr (min (initial_backoff p * 2 ^ i) (max_backoff p))"
proof -
  let ?n = "initial_backoff p" and ?b = "max_backoff p"
  have n: "double_of_int ?n = Fin False (of_int ?n)" and b: "double_of_int ?b = Fin False (of_int ?b)"
    using assms(1-4) double_of_int_exact [of ?n] double_of_int_exact [of ?b] by simp_all
  have rep: "representable (of_int ?n * 2 ^ i)"
    unfolding representable_def using assms(1,2)
    by (intro exI [of _ ?n] exI [of _ "int i"]) (simp add: pow2_def)
  have "of_int ?n * 2 ^ i < pow2 (int 53) * pow2 (int i)"
    using of_int_less_pow2 [OF assms(2)] by (simp add: pow2_def)
  also have "\<dots> = pow2 (int (53 + i))" by (simp add: pow2_add)
  also have "\<dots> \<le> pow2 1024" using assms(6) by simp
  finally have "d_mul (double_of_int ?n) (pow (multiplier p) (double_of_int (int i))) = Fin False (of_int ?n * 2 ^ i)"
    using rep by (simp add: n pow mk_double_exact)
  then have m: "d_min (d_mul (double_of_int ?n) (pow (multiplier p) (double_of_int (int i)))) (double_of_int ?b)
      = Fin False (of_int (min (?n * 2 ^ i) ?b))"
    using of_int_less_iff [of ?b "?n * 2 ^ i", where 'a = rat]
    by (simp add: b d_min_def signed_val_def min_def)
  have "(of_int (min (?n * 2 ^ i) ?b) :: rat) < of_int (2 ^ 53)"
    using assms(4) by (simp only: of_int_less_iff)
  then have "(of_int (min (?n * 2 ^ i) ?b) :: rat) < 2 ^ 63" by simp
  moreover have "0 \<le> (of_int (min (?n * 2 ^ i) ?b) :: rat)"
    using assms(1,3) by simp
  ultimately have "d_to_i64 (d_max (Fin False (of_int (min (?n * 2 ^ i) ?b))) (Fin False 0)) = Some (min (?n * 2 ^ i) ?b)"
    by (simp only: d_to_i64_nonneg floor_of_int)
  then show ?thesis
    using assms(5,8) m by (simp add: delay_for_def Let_def)
qed

theorem backoff_doubles_witness:
  "delay_for (\<lambda>_ _. Fin False (2 ^ 3)) (Fin False 1) (default_policy\<lparr>jitter := Fin False 0\<rparr>) (int 3)
     (make_error KServer []) =
   Inr (min (initial_backoff (default_policy\<lparr>jitter := Fin False 0\<rparr>) * 2 ^ 3)
            (max_backoff (default_policy\<lparr>jitter := Fin False 0\<rparr>)))"
  by (rule backoff_doubles) (simp_all add: default_policy_def)

end
