(* ===== verification/Client.thy ===== *)
theory Client
  imports Serialization Retry Sse "HOL-Library.Sublist"
begin

text \<open>
  \<^verbatim>\<open>include/gemini/client.hpp\<close> and \<^verbatim>\<open>src/client.cpp\<close>: the client.

  \<open>J\<close> is the JSON library and \<open>E\<close> what the client needs from outside: the transport, the
  mathematics library's \<^verbatim>\<open>pow\<close>, the random draws, the clock (nanoseconds) and the sleeper, all of
  them functions on the opaque state \<^typ>\<open>'w\<close> of the world.  The state of a client object is its
  counters; the sleeps it asked for are recorded beside them.  One call is modelled at a time here (the
  counters are atomic, and \<^verbatim>\<open>Concurrent_Calls\<close> interleaves the calls of several threads); logging is left
  out.
\<close>

section \<open>Options\<close>

record client_options =
  api_key :: string
  model :: string
  base_url :: string
  timeout :: int
  retry :: retry_policy

definition default_model :: string where
  "default_model = ''gemini-2.5-flash''"

definition default_base_url :: string where
  "default_base_url = ''https://generativelanguage.googleapis.com/v1beta''"

definition default_options :: client_options where
  "default_options =
     \<lparr>api_key = [], model = default_model, base_url = default_base_url, timeout = 120000,
      retry = default_policy\<rparr>"

text \<open>The environment variables are a partial function; an empty variable counts as absent.\<close>

definition env_or :: "(string \<Rightarrow> string option) \<Rightarrow> string \<Rightarrow> string \<Rightarrow> string" where
  "env_or env name fallback =
     (case env name of Some v \<Rightarrow> (if v \<noteq> [] then v else fallback) | None \<Rightarrow> fallback)"

definition from_env :: "(string \<Rightarrow> string option) \<Rightarrow> client_options result" where
  "from_env env =
     (let key = env_or env ''GEMINI_API_KEY'' (env_or env ''GOOGLE_API_KEY'' [])
      in if key = [] then
           err KConfig ''no API key: set GEMINI_API_KEY (get one at https://aistudio.google.com/apikey)''
         else Inr (default_options
                \<lparr>api_key := key,
                 model := env_or env ''GEMINI_MODEL'' default_model,
                 base_url := env_or env ''GEMINI_BASE_URL'' default_base_url\<rparr>))"

text \<open>The constructor: one \<^verbatim>\<open>models/\<close> prefix and all trailing slashes go.\<close>

definition new_client :: "client_options \<Rightarrow> client_options" where
  "new_client opts =
     opts\<lparr>model := (if starts_with ''models/'' (model opts) then drop 7 (model opts) else model opts),
          base_url := drop_back (\<lambda>c. c = CHR ''/'') (base_url opts)\<rparr>"

section \<open>State\<close>

record metrics =
  requests :: "64 word"
  attempts :: "64 word"
  retries :: "64 word"
  failures :: "64 word"
  prompt_total :: "64 word"
  output_total :: "64 word"
  latency_total :: "64 word"

record 'w client_state =
  metrics :: metrics
  sleeps :: "int list"
  world :: 'w

record 'w environment =
  net :: "'w transport"
  pow_fn :: "double \<Rightarrow> double \<Rightarrow> double"
  draw :: "'w \<Rightarrow> double \<times> 'w"
  clock :: "'w \<Rightarrow> int \<times> 'w"
  sleeper :: "int \<Rightarrow> 'w \<Rightarrow> 'w"

definition zero_metrics :: metrics where
  "zero_metrics =
     \<lparr>requests = 0, attempts = 0, retries = 0, failures = 0, prompt_total = 0, output_total = 0,
      latency_total = 0\<rparr>"

definition count_request :: "'w client_state \<Rightarrow> 'w client_state" where
  "count_request s = s\<lparr>metrics := (metrics s)\<lparr>requests := requests (metrics s) + 1\<rparr>\<rparr>"

definition count_attempt :: "'w client_state \<Rightarrow> 'w client_state" where
  "count_attempt s = s\<lparr>metrics := (metrics s)\<lparr>attempts := attempts (metrics s) + 1\<rparr>\<rparr>"

definition count_failure :: "'w client_state \<Rightarrow> 'w client_state" where
  "count_failure s = s\<lparr>metrics := (metrics s)\<lparr>failures := failures (metrics s) + 1\<rparr>\<rparr>"

definition count_retry :: "'w environment \<Rightarrow> int \<Rightarrow> 'w client_state \<Rightarrow> 'w client_state" where
  "count_retry E d s =
     s\<lparr>metrics := (metrics s)\<lparr>retries := retries (metrics s) + 1\<rparr>,
       sleeps := sleeps s @ [d], world := sleeper E d (world s)\<rparr>"

definition read_clock :: "'w environment \<Rightarrow> 'w client_state \<Rightarrow> int \<times> 'w client_state" where
  "read_clock E s = (let (t, w) = clock E (world s) in (t, s\<lparr>world := w\<rparr>))"

section \<open>Helpers\<close>

definition endpoint :: "client_options \<Rightarrow> string \<Rightarrow> bool \<Rightarrow> string" where
  "endpoint opts meth sse =
     base_url opts @ ''/models/'' @ model opts @ '':'' @ meth @ (if sse then ''?alt=sse'' else [])"

definition make_request :: "client_options \<Rightarrow> string \<Rightarrow> string \<Rightarrow> http_request" where
  "make_request opts url body =
     \<lparr>req_method = ''POST'', req_url = url,
      req_headers = [(''Content-Type'', ''application/json''), (''x-goog-api-key'', api_key opts)],
      req_body = body, req_timeout = timeout opts\<rparr>"

definition validate :: "client_options \<Rightarrow> 'j generate_request \<Rightarrow> unit result" where
  "validate opts r =
     (if api_key opts = [] then err KConfig ''API key is empty''
      else if model opts = [] then err KConfig ''model name is empty''
      else if contents r = [] then err KInvalidArgument ''request has no contents''
      else Inr ())"

definition check_http :: "'j json_lib \<Rightarrow> error + http_response \<Rightarrow> http_response result" where
  "check_http J response =
     (case response of
        Inl e \<Rightarrow> Inl (Failed e)
      | Inr r \<Rightarrow>
          if resp_status r < 200 \<or> 300 \<le> resp_status r then
            bind_result (parse_api_error J (resp_status r) (resp_body r) (resp_headers r))
              (\<lambda>e. Inl (Failed e))
          else Inr r)"

definition check_blocked :: "'j generate_response result \<Rightarrow> 'j generate_response result" where
  "check_blocked result =
     (case result of
        Inr r \<Rightarrow>
          (case prompt_block_reason r of
             Some reason \<Rightarrow> if candidates r = [] then err KBlocked (''prompt blocked: '' @ reason) else Inr r
           | None \<Rightarrow> Inr r)
      | Inl f \<Rightarrow> Inl f)"

text \<open>\<^verbatim>\<open>dump()\<close> of the request body; it throws on a string that is not valid UTF-8.\<close>

definition dump_body :: "'j json_lib \<Rightarrow> 'j \<Rightarrow> string result" where
  "dump_body J j = (case json_dump J j of Some t \<Rightarrow> Inr t | None \<Rightarrow> Inl (Thrown ''type_error.316''))"

definition elapsed_ms :: "int \<Rightarrow> int \<Rightarrow> int" where
  "elapsed_ms start now = (if now < start then - ((start - now) div 1000000) else (now - start) div 1000000)"

definition record_result ::
  "'w environment \<Rightarrow> int \<Rightarrow> 'j generate_response result \<Rightarrow> 'w client_state \<Rightarrow> 'w client_state" where
  "record_result E start result s =
     (let (now, s) = read_clock E s;
          s = s\<lparr>metrics := (metrics s)\<lparr>latency_total :=
                  latency_total (metrics s) + word_of_int (elapsed_ms start now)\<rparr>\<rparr>
      in case result of
           Inr r \<Rightarrow>
             s\<lparr>metrics := (metrics s)\<lparr>
                 prompt_total := prompt_total (metrics s) + word_of_int (prompt_tokens (usage r)),
                 output_total := output_total (metrics s) +
                   word_of_int (candidates_tokens (usage r) + thoughts_tokens (usage r))\<rparr>\<rparr>
         | Inl _ \<Rightarrow> count_failure s)"

section \<open>The retry loop\<close>

text \<open>
  An attempt works on the local variables of the calling operation (\<^typ>\<open>'l\<close>) and the client's
  state.  The delay takes a random draw only when it needs one.
\<close>

type_synonym ('a, 'l, 'w) attempt = "'l \<Rightarrow> 'w client_state \<Rightarrow> 'a result \<times> 'l \<times> 'w client_state"

definition next_delay ::
  "'w environment \<Rightarrow> retry_policy \<Rightarrow> int \<Rightarrow> error \<Rightarrow> 'w client_state \<Rightarrow> int result \<times> 'w client_state" where
  "next_delay E p i e s =
     (if retry_after e = None \<and> d_less (Fin False 0) (jitter p) then
        let (u, w) = draw E (world s) in (delay_for (pow_fn E) u p i e, s\<lparr>world := w\<rparr>)
      else (delay_for (pow_fn E) NaN p i e, s))"

definition attempt_limit :: "retry_policy \<Rightarrow> int" where
  "attempt_limit p = max 1 (max_attempts p)"

function with_retry ::
  "'w environment \<Rightarrow> retry_policy \<Rightarrow> ('a, 'l, 'w) attempt \<Rightarrow> ('l \<Rightarrow> bool) \<Rightarrow> int \<Rightarrow> 'l \<Rightarrow>
   'w client_state \<Rightarrow> 'a result \<times> 'l \<times> 'w client_state" where
  "with_retry E p attempt can_retry i l s =
     (let (result, l', s') = attempt l (count_attempt s) in
      case result of
        Inl (Failed e) \<Rightarrow>
          if \<not> retryable e \<or> attempt_limit p \<le> i + 1 \<or> \<not> can_retry l' then (result, l', s')
          else
            (let (delay, s'') = next_delay E p i e s' in
             case delay of
               Inr d \<Rightarrow> with_retry E p attempt can_retry (i + 1) l' (count_retry E d s'')
             | Inl f \<Rightarrow> (Inl f, l', s''))
      | _ \<Rightarrow> (result, l', s'))"
  by pat_completeness auto
termination
  by (relation "measure (\<lambda>(E, p, attempt, can_retry, i, l, s). nat (attempt_limit p - i))") auto

declare with_retry.simps [simp del]

section \<open>Operations\<close>

definition generate_attempt ::
  "'j json_lib \<Rightarrow> 'w environment \<Rightarrow> client_options \<Rightarrow> string \<Rightarrow> ('j generate_response, unit, 'w) attempt" where
  "generate_attempt J E opts body l s =
     (let (response, w) = tr_send (net E) (make_request opts (endpoint opts ''generateContent'' False) body) (world s)
      in (bind_result (check_http J response) (\<lambda>r. parse_response_body J (resp_body r)), l, s\<lparr>world := w\<rparr>))"

text \<open>What follows the loop: an exception or an undefined step leaves before anything is recorded.\<close>

definition finish_call ::
  "'w environment \<Rightarrow> int \<Rightarrow> 'j generate_response result \<Rightarrow> 'w client_state \<Rightarrow>
   'j generate_response result \<times> 'w client_state" where
  "finish_call E start result s =
     (if returns result
      then (let result = check_blocked result in (result, record_result E start result s))
      else (result, s))"

definition generate ::
  "'j json_lib \<Rightarrow> 'w environment \<Rightarrow> client_options \<Rightarrow> 'j generate_request \<Rightarrow> 'w client_state \<Rightarrow>
   'j generate_response result \<times> 'w client_state" where
  "generate J E opts request s =
     (let s = count_request s in
      case validate opts request of
        Inl f \<Rightarrow> (Inl f, s)
      | Inr _ \<Rightarrow>
          (let (start, s) = read_clock E s in
           case dump_body J (request_to_json J request) of
             Inl f \<Rightarrow> (Inl f, s)
           | Inr body \<Rightarrow>
               (let (result, _, s) =
                  with_retry E (retry opts) (generate_attempt J E opts body) (\<lambda>_. True) 0 () s
                in finish_call E start result s)))"

text \<open>The overload for a plain prompt.\<close>

definition generate_text ::
  "'j json_lib \<Rightarrow> 'w environment \<Rightarrow> client_options \<Rightarrow> string \<Rightarrow> 'w client_state \<Rightarrow>
   'j generate_response result \<times> 'w client_state" where
  "generate_text J E opts t s =
     generate J E opts
       \<lparr>contents = [user_content t], system_instruction = None, tools = [], config = plain_config J,
        safety_settings = []\<rparr> s"

text \<open>
  Streaming.  The caller's callback is a function on the chunk and the world; \<open>delivered\<close> records
  what it was given, over all attempts of the call, and \<open>delivered_any\<close> is the flag of the code.
  The other fields are the local variables of one attempt; \<open>escaped\<close> is an exception on its way
  through the parser and the transport.
\<close>

type_synonym ('j, 'w) stream_callback = "'j generate_response \<Rightarrow> 'w \<Rightarrow> bool \<times> 'w"

record ('j, 'w) stream_state =
  aggregated :: "'j generate_response"
  parse_error :: "error option"
  caller_stopped :: bool
  escaped :: "failure option"
  delivered_any :: bool
  delivered :: "'j generate_response list"
  callback_world :: 'w

definition on_event ::
  "'j json_lib \<Rightarrow> ('j, 'w) stream_callback option \<Rightarrow> ('j, 'w) stream_state event_handler" where
  "on_event J on_chunk d st =
     (if d = ''[DONE]'' then (True, st)
      else case parse_response_body J d of
        Inl (Failed e) \<Rightarrow> (False, st\<lparr>parse_error := Some e\<rparr>)
      | Inl f \<Rightarrow> (False, st\<lparr>escaped := Some f\<rparr>)
      | Inr chunk \<Rightarrow>
          (let st = st\<lparr>aggregated := merge_response (aggregated st) chunk,
                       delivered_any := True, delivered := delivered st @ [chunk]\<rparr>
           in case on_chunk of
                None \<Rightarrow> (True, st)
              | Some f \<Rightarrow>
                  (let (go_on, w) = f chunk (callback_world st);
                       st = st\<lparr>callback_world := w\<rparr>
                   in if go_on then (True, st) else (False, st\<lparr>caller_stopped := True\<rparr>))))"

definition start_attempt :: "bool \<Rightarrow> 'j generate_response list \<Rightarrow> 'w \<Rightarrow> ('j, 'w) stream_state" where
  "start_attempt any seen w =
     \<lparr>aggregated = empty_response, parse_error = None, caller_stopped = False, escaped = None,
      delivered_any = any, delivered = seen, callback_world = w\<rparr>"

definition stream_outcome ::
  "'j json_lib \<Rightarrow> ('j, 'w) stream_callback option \<Rightarrow> error + http_response \<Rightarrow> sse_parser \<Rightarrow>
   ('j, 'w) stream_state \<Rightarrow> 'j generate_response result \<times> ('j, 'w) stream_state" where
  "stream_outcome J on_chunk response p st =
     (case escaped st of Some f \<Rightarrow> (Inl f, st) | None \<Rightarrow>
      case parse_error st of Some e \<Rightarrow> (Inl (Failed e), st) | None \<Rightarrow>
      if caller_stopped st then (Inr (aggregated st), st)
      else case check_http J response of
        Inl f \<Rightarrow> (Inl f, st)
      | Inr _ \<Rightarrow>
          (let (_, _, st) = finish (on_event J on_chunk) p st in
           case escaped st of Some f \<Rightarrow> (Inl f, st) | None \<Rightarrow>
           case parse_error st of Some e \<Rightarrow> (Inl (Failed e), st) | None \<Rightarrow>
           (Inr (aggregated st), st)))"

definition stream_attempt ::
  "'j json_lib \<Rightarrow> 'w environment \<Rightarrow> client_options \<Rightarrow> string \<Rightarrow> ('j, 'w) stream_callback option \<Rightarrow>
   ('j generate_response, bool \<times> 'j generate_response list, 'w) attempt" where
  "stream_attempt J E opts body on_chunk l s =
     (let (chunks, fin, w) =
            tr_stream (net E) (make_request opts (endpoint opts ''streamGenerateContent'' True) body) (world s);
          (keep, p, st) =
            feed_chunks (on_event J on_chunk) chunks new_parser (start_attempt (fst l) (snd l) w);
          (result, st) = stream_outcome J on_chunk (fin (\<not> keep)) p st
      in (result, (delivered_any st, delivered st), s\<lparr>world := callback_world st\<rparr>))"

text \<open>The result carries the chunks the caller has seen beside the response.\<close>

definition stream ::
  "'j json_lib \<Rightarrow> 'w environment \<Rightarrow> client_options \<Rightarrow> 'j generate_request \<Rightarrow>
   ('j, 'w) stream_callback option \<Rightarrow> 'w client_state \<Rightarrow>
   'j generate_response result \<times> 'j generate_response list \<times> 'w client_state" where
  "stream J E opts request on_chunk s =
     (let s = count_request s in
      case validate opts request of
        Inl f \<Rightarrow> (Inl f, [], s)
      | Inr _ \<Rightarrow>
          (let (start, s) = read_clock E s in
           case dump_body J (request_to_json J request) of
             Inl f \<Rightarrow> (Inl f, [], s)
           | Inr body \<Rightarrow>
               (let (result, (_, seen), s) =
                  with_retry E (retry opts) (stream_attempt J E opts body on_chunk) (\<lambda>l. \<not> fst l) 0 (False, []) s;
                    (result, s) = finish_call E start result s
                in (result, seen, s))))"

definition count_tokens_attempt ::
  "'j json_lib \<Rightarrow> 'w environment \<Rightarrow> client_options \<Rightarrow> string \<Rightarrow> (int, unit, 'w) attempt" where
  "count_tokens_attempt J E opts body l s =
     (let (response, w) = tr_send (net E) (make_request opts (endpoint opts ''countTokens'' False) body) (world s)
      in (bind_result (check_http J response)
            (\<lambda>r. case json_parse J (resp_body r) of
                   None \<Rightarrow> err KParse ''countTokens response missing totalTokens''
                 | Some j \<Rightarrow>
                     (case json_find J j ''totalTokens'' of
                        None \<Rightarrow> err KParse ''countTokens response missing totalTokens''
                      | Some v \<Rightarrow>
                          (case json_get_int J v of
                             None \<Rightarrow> err KParse ''countTokens response missing totalTokens''
                           | Some n \<Rightarrow> Inr n))),
          l, s\<lparr>world := w\<rparr>))"

definition count_unless_ok :: "'a result \<Rightarrow> 'w client_state \<Rightarrow> 'w client_state" where
  "count_unless_ok result s =
     (case result of Inl (Failed e) \<Rightarrow> count_failure s | _ \<Rightarrow> s)"

definition count_tokens ::
  "'j json_lib \<Rightarrow> 'w environment \<Rightarrow> client_options \<Rightarrow> 'j generate_request \<Rightarrow> 'w client_state \<Rightarrow>
   int result \<times> 'w client_state" where
  "count_tokens J E opts request s =
     (let s = count_request s in
      case validate opts request of
        Inl f \<Rightarrow> (Inl f, s)
      | Inr _ \<Rightarrow>
          (let inner = json_set J (request_to_json J request) ''model'' (json_string J (''models/'' @ model opts)) in
           case dump_body J (json_object J [(''generateContentRequest'', inner)]) of
             Inl f \<Rightarrow> (Inl f, s)
           | Inr body \<Rightarrow>
               (let (result, _, s) =
                  with_retry E (retry opts) (count_tokens_attempt J E opts body) (\<lambda>_. True) 0 () s
                in (result, count_unless_ok result s))))"

definition page_url :: "client_options \<Rightarrow> string \<Rightarrow> string" where
  "page_url opts page_token =
     base_url opts @ ''/models?pageSize=100'' @ (if page_token \<noteq> [] then ''&pageToken='' @ page_token else [])"

definition page_attempt ::
  "'j json_lib \<Rightarrow> 'w environment \<Rightarrow> client_options \<Rightarrow> string \<Rightarrow> (model_info list \<times> string, unit, 'w) attempt" where
  "page_attempt J E opts url l s =
     (let (response, w) = tr_send (net E) ((make_request opts url [])\<lparr>req_method := ''GET''\<rparr>) (world s)
      in (bind_result (check_http J response) (\<lambda>r. parse_model_list J (resp_body r)), l, s\<lparr>world := w\<rparr>))"

definition fetch_page ::
  "'j json_lib \<Rightarrow> 'w environment \<Rightarrow> client_options \<Rightarrow> string \<Rightarrow> 'w client_state \<Rightarrow>
   (model_info list \<times> string) result \<times> 'w client_state" where
  "fetch_page J E opts page_token s =
     (let (page, _, s) =
        with_retry E (retry opts) (page_attempt J E opts (page_url opts page_token)) (\<lambda>_. True) 0 () s
      in (page, count_unless_ok page s))"

text \<open>Nothing bounds the number of pages, so the loop may not return: \<^const>\<open>None\<close>.\<close>

partial_function (option) list_pages ::
  "'j json_lib \<Rightarrow> 'w environment \<Rightarrow> client_options \<Rightarrow> model_info list \<Rightarrow> string \<Rightarrow> 'w client_state \<Rightarrow>
   (model_info list result \<times> 'w client_state) option" where
  "list_pages J E opts all page_token s =
     (case fetch_page J E opts page_token s of (page, s') \<Rightarrow>
      (case page of
         Inl f \<Rightarrow> Some (Inl f, s')
       | Inr (models, next_token) \<Rightarrow>
           if next_token = [] then Some (Inr (all @ models), s')
           else list_pages J E opts (all @ models) next_token s'))"

definition list_models ::
  "'j json_lib \<Rightarrow> 'w environment \<Rightarrow> client_options \<Rightarrow> 'w client_state \<Rightarrow>
   (model_info list result \<times> 'w client_state) option" where
  "list_models J E opts s =
     (let s = count_request s in
      if api_key opts = [] then Some (err KConfig ''API key is empty'', s)
      else list_pages J E opts [] [] s)"

section \<open>The retry loop, proved once\<close>

text \<open>\<open>n\<close> attempts were made from the state \<open>s\<close> on, with a sleep before each but the first.\<close>

definition accounted :: "'w environment \<Rightarrow> retry_policy \<Rightarrow> nat \<Rightarrow> 'w client_state \<Rightarrow> 'w client_state \<Rightarrow> bool" where
  "accounted E p n s s' \<longleftrightarrow>
     metrics s' = (metrics s)\<lparr>attempts := attempts (metrics s) + of_nat n,
                              retries := retries (metrics s) + of_nat (n - 1)\<rparr> \<and>
     (\<exists>ds. sleeps s' = sleeps s @ ds \<and> length ds = n - 1 \<and>
        list_all (\<lambda>d. \<exists>u i e. delay_for (pow_fn E) u p i e = Inr d) ds)"

text \<open>
  The loop's contract with an attempt: it may use the world and its local variables as it likes,
  but leaves the counters and the record of sleeps to the loop.
\<close>

locale quiet_attempt =
  fixes attempt :: "('a, 'l, 'w) attempt"
  assumes quiet: "attempt l s = (r, l', s') \<Longrightarrow> metrics s' = metrics s \<and> sleeps s' = sleeps s"
begin

end

lemma next_delay_frame:
  "next_delay E p i e s = (r, s') \<Longrightarrow> metrics s' = metrics s \<and> sleeps s' = sleeps s"
  by (auto simp: next_delay_def split: if_splits prod.splits)

lemma next_delay_delay: "next_delay E p i e s = (r, s') \<Longrightarrow> \<exists>u. r = delay_for (pow_fn E) u p i e"
  by (auto simp: next_delay_def split: if_splits prod.splits)

lemma delay_for_failure: "delay_for pow u p i e = Inl f \<Longrightarrow> \<exists>m. f = Undefined m"
  by (auto simp: delay_for_def Let_def split: option.splits)

lemma with_retry_stop:
  assumes "attempt l (count_attempt s) = (r, l', s')"
    and "\<And>e. r = Inl (Failed e) \<Longrightarrow> \<not> retryable e \<or> attempt_limit p \<le> i + 1 \<or> \<not> can_retry l'"
  shows "with_retry E p attempt can_retry i l s = (r, l', s')"
  using assms
  by (subst with_retry.simps) (auto split: sum.splits failure.splits)

lemma with_retry_go:
  assumes "attempt l (count_attempt s) = (Inl (Failed e), l', s')"
    and "retryable e" "i + 1 < attempt_limit p" "can_retry l'"
    and "next_delay E p i e s' = (delay, s'')"
  shows "with_retry E p attempt can_retry i l s =
    (case delay of
       Inr d \<Rightarrow> with_retry E p attempt can_retry (i + 1) l' (count_retry E d s'')
     | Inl f \<Rightarrow> (Inl f, l', s''))"
  using assms by (subst with_retry.simps) simp

lemma with_retry_cases [consumes 1]:
  assumes "with_retry E p attempt can_retry i l s = (r, l', s')"
  obtains (stop) "attempt l (count_attempt s) = (r, l', s')"
      "\<And>e. r = Inl (Failed e) \<Longrightarrow> \<not> retryable e \<or> attempt_limit p \<le> i + 1 \<or> \<not> can_retry l'"
  | (delay_failed) e s1 m where "attempt l (count_attempt s) = (Inl (Failed e), l', s1)"
      "next_delay E p i e s1 = (Inl (Undefined m), s')" "r = Inl (Undefined m)"
  | (again) e l1 s1 d s2 where "attempt l (count_attempt s) = (Inl (Failed e), l1, s1)"
      "retryable e" "i + 1 < attempt_limit p" "can_retry l1" "next_delay E p i e s1 = (Inr d, s2)"
      "with_retry E p attempt can_retry (i + 1) l1 (count_retry E d s2) = (r, l', s')"
proof -
  obtain r1 l1 s1 where a: "attempt l (count_attempt s) = (r1, l1, s1)" by (metis prod_cases3)
  show thesis
  proof (cases "\<exists>e. r1 = Inl (Failed e) \<and> retryable e \<and> i + 1 < attempt_limit p \<and> can_retry l1")
    case False
    then have stop1: "\<And>e. r1 = Inl (Failed e) \<Longrightarrow> \<not> retryable e \<or> attempt_limit p \<le> i + 1 \<or> \<not> can_retry l1"
      by auto
    have "with_retry E p attempt can_retry i l s = (r1, l1, s1)"
      by (rule with_retry_stop) (use a stop1 in auto)
    with assms have "r1 = r" "l1 = l'" "s1 = s'" by auto
    with a stop1 show thesis by (intro stop) auto
  next
    case True
    then obtain e where e: "r1 = Inl (Failed e)" "retryable e" "i + 1 < attempt_limit p" "can_retry l1"
      by blast
    obtain delay s2 where nd: "next_delay E p i e s1 = (delay, s2)" by fastforce
    have step: "with_retry E p attempt can_retry i l s =
      (case delay of
         Inr d \<Rightarrow> with_retry E p attempt can_retry (i + 1) l1 (count_retry E d s2)
       | Inl f \<Rightarrow> (Inl f, l1, s2))"
      by (rule with_retry_go) (use a e nd in auto)
    show thesis
    proof (cases delay)
      case (Inl f)
      then obtain m where "f = Undefined m"
        using next_delay_delay [OF nd] delay_for_failure by metis
      with Inl a e nd step assms show thesis by (intro delay_failed [of e s1 m]) auto
    next
      case (Inr d)
      with a e nd step assms show thesis by (intro again) auto
    qed
  qed
qed

context quiet_attempt
begin

lemma accounted_once:
  "metrics s' = metrics (count_attempt s) \<Longrightarrow> sleeps s' = sleeps (count_attempt s) \<Longrightarrow> accounted E p 1 s s'"
  by (simp add: accounted_def count_attempt_def)

lemma accounted_again:
  assumes "metrics s1 = metrics (count_attempt s)" "sleeps s1 = sleeps (count_attempt s)"
    and "next_delay E p i e s1 = (Inr d, s2)" and "accounted E p n (count_retry E d s2) s'" and "1 \<le> n"
  shows "accounted E p (Suc n) s s'"
proof -
  obtain m where n: "n = Suc m" using assms(5) by (cases n) auto
  from assms(3) have s2: "metrics s2 = metrics s1" "sleeps s2 = sleeps s1"
    by (auto dest: next_delay_frame)
  from next_delay_delay [OF assms(3)] have d: "\<exists>u i e. delay_for (pow_fn E) u p i e = Inr d" by metis
  from assms(4) obtain ds where ds: "sleeps s' = sleeps s @ d # ds" "length ds = n - 1"
    "list_all (\<lambda>d. \<exists>u i e. delay_for (pow_fn E) u p i e = Inr d) ds"
    by (auto simp: accounted_def count_retry_def s2 assms(2) count_attempt_def)
  have "metrics s' = (metrics s)\<lparr>attempts := attempts (metrics s) + of_nat (Suc n),
      retries := retries (metrics s) + of_nat (Suc n - 1)\<rparr>"
    using assms(4) by (simp add: accounted_def count_retry_def s2 assms(1) count_attempt_def n)
  with ds d n show ?thesis unfolding accounted_def by (intro conjI exI [of _ "d # ds"]) auto
qed

lemma with_retry_accounted:
  "with_retry E p attempt can_retry i l s = (r, l', s') \<Longrightarrow>
   \<exists>n. 1 \<le> n \<and> int n \<le> max 1 (attempt_limit p - i) \<and> accounted E p n s s' \<and>
     (\<forall>e. r = Inl (Failed e) \<longrightarrow> retryable e \<longrightarrow> can_retry l' \<longrightarrow> int n = max 1 (attempt_limit p - i))"
proof (induction "nat (attempt_limit p - i)" arbitrary: i l s rule: less_induct)
  case less
  from less.prems show ?case
  proof (cases rule: with_retry_cases)
    case stop
    from quiet [OF stop(1)] have "accounted E p 1 s s'" by (intro accounted_once) auto
    then show ?thesis using stop(2) by (intro exI [of _ 1]) force
  next
    case (delay_failed e s1 m)
    from quiet [OF delay_failed(1)] next_delay_frame [OF delay_failed(2)]
    have "accounted E p 1 s s'" by (intro accounted_once) auto
    then show ?thesis using delay_failed(3) by (intro exI [of _ 1]) force
  next
    case (again e l1 s1 d s2)
    have "nat (attempt_limit p - (i + 1)) < nat (attempt_limit p - i)" using again(3) by simp
    from less.hyps [OF this again(6)] obtain n where n: "1 \<le> n" "int n \<le> max 1 (attempt_limit p - (i + 1))"
      "accounted E p n (count_retry E d s2) s'"
      "\<forall>e. r = Inl (Failed e) \<longrightarrow> retryable e \<longrightarrow> can_retry l' \<longrightarrow> int n = max 1 (attempt_limit p - (i + 1))"
      by blast
    from quiet [OF again(1)] have "accounted E p (Suc n) s s'"
      by (intro accounted_again [OF _ _ again(5) n(3,1)]) auto
    then show ?thesis using n again(3) by (intro exI [of _ "Suc n"]) auto
  qed
qed

end

text \<open>
  The local variables at the start of the last attempt: whatever holds at first and again after
  every attempt that may be followed by another.
\<close>

lemma with_retry_last:
  "with_retry E p attempt can_retry i l s = (r, l', s') \<Longrightarrow> P l \<Longrightarrow>
   (\<And>l s r l' s'. P l \<Longrightarrow> attempt l s = (r, l', s') \<Longrightarrow> can_retry l' \<Longrightarrow> P l') \<Longrightarrow>
   \<exists>l0 s0 r0 s1. P l0 \<and> attempt l0 s0 = (r0, l', s1) \<and> (r = r0 \<or> (\<exists>m. r = Inl (Undefined m)))"
proof (induction "nat (attempt_limit p - i)" arbitrary: i l s rule: less_induct)
  case less
  from less.prems(1) show ?case
  proof (cases rule: with_retry_cases)
    case stop
    with less.prems(2) show ?thesis by blast
  next
    case delay_failed
    with less.prems(2) show ?thesis by blast
  next
    case (again e l1 s1 d s2)
    have "nat (attempt_limit p - (i + 1)) < nat (attempt_limit p - i)" using again(3) by simp
    from less.hyps [OF this again(6)] less.prems(2,3) again(1,4) show ?thesis by blast
  qed
qed

section \<open>The attempts of the client\<close>

interpretation generate_loop: quiet_attempt "generate_attempt J E opts body"
  by unfold_locales (auto simp: generate_attempt_def split: prod.splits)

interpretation stream_loop: quiet_attempt "stream_attempt J E opts body on_chunk"
  by unfold_locales (auto simp: stream_attempt_def Let_def split: prod.splits)

interpretation count_tokens_loop: quiet_attempt "count_tokens_attempt J E opts body"
  by unfold_locales (auto simp: count_tokens_attempt_def split: prod.splits)

interpretation page_loop: quiet_attempt "page_attempt J E opts url"
  by unfold_locales (auto simp: page_attempt_def split: prod.splits)

section \<open>What a stream delivers\<close>

lemma read_clock_frame: "read_clock E s = (t, s') \<Longrightarrow> metrics s' = metrics s \<and> sleeps s' = sleeps s"
  by (auto simp: read_clock_def split: prod.splits)

definition stream_sound :: "('j, 'w) stream_state \<Rightarrow> bool" where
  "stream_sound st \<longleftrightarrow>
     aggregated st = aggregate (delivered st) \<and> (delivered_any st \<longleftrightarrow> delivered st \<noteq> [])"

lemma stream_sound_start: "stream_sound (start_attempt False [] w)"
  by (simp add: stream_sound_def start_attempt_def aggregate_def)

interpretation stream_parser: handler_invariant "on_event J on_chunk" stream_sound
proof unfold_locales
  fix st :: "('a, 'b) stream_state" and d
  assume "stream_sound st"
  then show "stream_sound (snd (on_event J on_chunk d st))"
    by (auto simp: stream_sound_def on_event_def Let_def aggregate_snoc
        split: sum.splits failure.splits option.splits prod.splits)
qed

lemma stream_outcome_sound:
  assumes "stream_outcome J on_chunk response p st = (result, st')" and "stream_sound st"
  shows "stream_sound st' \<and> (\<forall>r. result = Inr r \<longrightarrow> r = aggregated st')"
  using assms stream_parser.finish_keeps [OF assms(2), of J on_chunk p]
  by (auto simp: stream_outcome_def Let_def split: option.splits if_splits sum.splits prod.splits)

text \<open>The chunk an event carries: none for the end marker, none when it does not parse.\<close>

definition stream_chunk :: "'j json_lib \<Rightarrow> string \<Rightarrow> 'j generate_response option" where
  "stream_chunk J d =
     (if d = ''[DONE]'' then None
      else case parse_response_body J d of Inr c \<Rightarrow> Some c | Inl _ \<Rightarrow> None)"

definition stream_event_ok :: "'j json_lib \<Rightarrow> string \<Rightarrow> bool" where
  "stream_event_ok J d \<longleftrightarrow> d = ''[DONE]'' \<or> stream_chunk J d \<noteq> None"

definition broken_off :: "('j, 'w) stream_state \<Rightarrow> bool" where
  "broken_off st \<longleftrightarrow> escaped st \<noteq> None \<or> parse_error st \<noteq> None \<or> caller_stopped st"

lemma on_event_step:
  assumes "on_event J f d st = (k, st')"
  shows "delivered st' = delivered st @ (case stream_chunk J d of None \<Rightarrow> [] | Some c \<Rightarrow> [c])"
    and "k \<Longrightarrow> stream_event_ok J d" and "\<not> k \<Longrightarrow> broken_off st'"
  using assms
  by (auto simp: on_event_def stream_chunk_def stream_event_ok_def broken_off_def Let_def
      split: if_splits sum.splits failure.splits option.splits prod.splits)

lemma run_on_event:
  assumes "run_events (on_event J f) ds st = (k, st')"
  shows "prefix (delivered st') (delivered st @ values_of (stream_chunk J) ds) \<and>
    (k \<longrightarrow> delivered st' = delivered st @ values_of (stream_chunk J) ds \<and> list_all (stream_event_ok J) ds) \<and>
    (\<not> k \<longrightarrow> broken_off st')"
  using assms
proof (induction ds arbitrary: st)
  case (Cons d ds)
  obtain k1 st1 where step: "on_event J f d st = (k1, st1)" by fastforce
  note facts = on_event_step [OF step]
  show ?case
  proof (cases k1)
    case True
    with Cons step have "run_events (on_event J f) ds st1 = (k, st')" by simp
    from Cons.IH [OF this] facts True show ?thesis by (auto split: option.splits)
  next
    case False
    with Cons step have "k = False" "st' = st1" by simp_all
    with facts False show ?thesis by (auto split: option.splits)
  qed
qed simp

interpretation stream_grows: handler_invariant "on_event J on_chunk" "\<lambda>st. prefix seen (delivered st)"
proof unfold_locales
  fix st :: "('a, 'b) stream_state" and d
  assume "prefix seen (delivered st)"
  moreover obtain k st' where step: "on_event J on_chunk d st = (k, st')" by fastforce
  ultimately show "prefix seen (delivered (snd (on_event J on_chunk d st)))"
    by (simp add: on_event_step(1) [OF step])
qed

text \<open>Only a callback stops a stream.\<close>

interpretation stream_unstopped: handler_invariant "on_event J None" "\<lambda>st. \<not> caller_stopped st"
  by unfold_locales
     (auto simp: on_event_def Let_def split: sum.splits failure.splits option.splits prod.splits)

lemma stream_outcome_broken:
  "stream_outcome J f response p st = (result, st') \<Longrightarrow> broken_off st \<Longrightarrow>
   st' = st \<and> (\<not> caller_stopped st \<longrightarrow> (\<exists>e. result = Inl e))"
  by (auto simp: stream_outcome_def broken_off_def split: option.splits)

lemma stream_outcome_finished:
  "stream_outcome J f response p st = (result, st') \<Longrightarrow> st' = st \<or> st' = snd (snd (finish (on_event J f) p st))"
  "stream_outcome J f response p st = (Inr r, st') \<Longrightarrow> \<not> caller_stopped st \<Longrightarrow>
   st' = snd (snd (finish (on_event J f) p st)) \<and> escaped st' = None \<and> parse_error st' = None"
  by (auto simp: stream_outcome_def Let_def split: option.splits if_splits sum.splits prod.splits)

text \<open>
  The chunks \<open>seen\<close> of one exchange with the document \<open>body\<close>: a prefix of what it carries, and all
  of it, every event well-formed, when \<open>whole\<close>.
\<close>

definition chunks_of_body ::
  "'j json_lib \<Rightarrow> string \<Rightarrow> 'j generate_response list \<Rightarrow> bool \<Rightarrow> bool" where
  "chunks_of_body J body seen whole \<longleftrightarrow>
     prefix seen (values_of (stream_chunk J) (sse_events body)) \<and>
     (whole \<longrightarrow> seen = values_of (stream_chunk J) (sse_events body) \<and>
        list_all (stream_event_ok J) (sse_events body))"

lemma stream_exchange:
  assumes fc: "feed_chunks (on_event J f) chunks new_parser (start_attempt False [] w) = (keep, p, st)"
    and so: "stream_outcome J f response p st = (result, st')"
  shows "chunks_of_body J (concat chunks) (delivered st') (f = None \<and> (\<exists>r. result = Inr r))"
proof -
  let ?st0 = "start_attempt False [] w" and ?evs = "sse_events (concat chunks)"
  obtain k st2 where run: "run_events (on_event J f) ?evs ?st0 = (k, st2)" by fastforce
  have d0: "delivered ?st0 = []" "caller_stopped ?st0 = False" by (simp_all add: start_attempt_def)
  note seen = run_on_event [OF run, unfolded d0]
  show ?thesis
  proof (cases keep)
    case False
    with feed_finish_run [OF fc] run have "k = False" "st2 = st" by simp_all
    with seen have "broken_off st" "prefix (delivered st) (values_of (stream_chunk J) ?evs)" by simp_all
    moreover have "\<not> caller_stopped st" if "f = None"
      using stream_unstopped.feed_chunks_keeps [of ?st0 J chunks new_parser] fc that d0 by simp
    ultimately show ?thesis using stream_outcome_broken [OF so] by (auto simp: chunks_of_body_def)
  next
    case True
    with feed_finish_run [OF fc] run have fin: "snd (snd (finish (on_event J f) p st)) = st2" by auto
    have "prefix (delivered st) (delivered st2)"
      using stream_grows.finish_keeps [of "delivered st" st J f p] fin by simp
    with stream_outcome_finished(1) [OF so] seen fin
    have "prefix (delivered st') (values_of (stream_chunk J) ?evs)" by auto
    moreover have "delivered st' = values_of (stream_chunk J) ?evs \<and> list_all (stream_event_ok J) ?evs"
      if "f = None" "result = Inr r" for r
    proof -
      have "\<not> caller_stopped st"
        using stream_unstopped.feed_chunks_keeps [of ?st0 J chunks new_parser] fc that d0 by simp
      moreover from this have "\<not> caller_stopped st2"
        using stream_unstopped.finish_keeps [of st J p] fin that by simp
      ultimately have "st' = st2" "\<not> broken_off st2"
        using stream_outcome_finished(2) [OF so [unfolded that(2)]] fin by (auto simp: broken_off_def)
      with seen show ?thesis by auto
    qed
    ultimately show ?thesis by (auto simp: chunks_of_body_def)
  qed
qed

definition stream_exchanged ::
  "'j json_lib \<Rightarrow> 'w environment \<Rightarrow> client_options \<Rightarrow> string \<Rightarrow> 'j generate_response list \<Rightarrow> bool \<Rightarrow> bool" where
  "stream_exchanged J E opts body seen whole \<longleftrightarrow>
     (\<exists>w chunks fin w'.
        tr_stream (net E) (make_request opts (endpoint opts ''streamGenerateContent'' True) body) w
          = (chunks, fin, w') \<and>
        chunks_of_body J (concat chunks) seen whole)"

lemma stream_exchanged_weaken:
  "stream_exchanged J E opts body seen whole \<Longrightarrow> (whole' \<Longrightarrow> whole) \<Longrightarrow> stream_exchanged J E opts body seen whole'"
  unfolding stream_exchanged_def chunks_of_body_def by blast

lemma stream_attempt_sound:
  assumes "stream_attempt J E opts body on_chunk (False, []) s = (result, (any, seen), s')"
  shows "(\<forall>r. result = Inr r \<longrightarrow> r = aggregate seen) \<and> (any \<longleftrightarrow> seen \<noteq> []) \<and>
    stream_exchanged J E opts body seen (on_chunk = None \<and> (\<exists>r. result = Inr r))"
proof -
  let ?req = "make_request opts (endpoint opts ''streamGenerateContent'' True) body"
  obtain chunks fin w where tr: "tr_stream (net E) ?req (world s) = (chunks, fin, w)"
    by (metis prod_cases3)
  obtain keep p st where fc:
    "feed_chunks (on_event J on_chunk) chunks new_parser (start_attempt False [] w) = (keep, p, st)"
    by (metis prod_cases3)
  obtain result' st' where so: "stream_outcome J on_chunk (fin (\<not> keep)) p st = (result', st')"
    by fastforce
  from assms tr fc so have eqs: "result' = result" "any = delivered_any st'" "seen = delivered st'"
    by (simp_all add: stream_attempt_def)
  from stream_parser.feed_chunks_keeps [OF stream_sound_start, of J on_chunk chunks new_parser w] fc
  have "stream_sound st" by simp
  note sound = stream_outcome_sound [OF so this, unfolded stream_sound_def]
  have "stream_exchanged J E opts body seen (on_chunk = None \<and> (\<exists>r. result = Inr r))"
    unfolding stream_exchanged_def
    using tr stream_exchange [OF fc so] unfolding eqs by (intro exI conjI) auto
  with sound eqs show ?thesis by auto
qed

lemma stream_cases:
  assumes "stream J E opts request on_chunk s = (result, seen, s')"
  obtains (refused) f where "result = Inl f" "seen = []" "metrics s' = metrics (count_request s)"
      "sleeps s' = sleeps (count_request s)"
  | (ran) body s0 r1 any s1 start where "dump_body J (request_to_json J request) = Inr body"
      "metrics s0 = metrics (count_request s)" "sleeps s0 = sleeps (count_request s)"
      "with_retry E (retry opts) (stream_attempt J E opts body on_chunk) (\<lambda>l. \<not> fst l) 0 (False, []) s0
         = (r1, (any, seen), s1)"
      "finish_call E start r1 s1 = (result, s')"
proof (cases "validate opts request")
  case (Inl f)
  with assms show thesis by (auto simp: stream_def Let_def intro: refused)
next
  case (Inr u)
  obtain start s0 where rc: "read_clock E (count_request s) = (start, s0)" by fastforce
  note frame = read_clock_frame [OF rc]
  show thesis
  proof (cases "dump_body J (request_to_json J request)")
    case (Inl f)
    with assms Inr rc frame show thesis by (intro refused [of f]) (auto simp: stream_def Let_def)
  next
    case (Inr body)
    obtain r1 any sn s1 where wr:
      "with_retry E (retry opts) (stream_attempt J E opts body on_chunk) (\<lambda>l. \<not> fst l) 0 (False, []) s0
         = (r1, (any, sn), s1)" by (metis prod_cases3 surj_pair)
    obtain r2 s2 where fc: "finish_call E start r1 s1 = (r2, s2)" by fastforce
    from assms \<open>validate opts request = Inr u\<close> rc Inr wr fc
    have "r2 = result" "sn = seen" "s2 = s'" by (simp_all add: stream_def Let_def)
    with wr fc frame Inr show thesis by (intro ran) simp_all
  qed
qed

lemma finish_call_Inr: "finish_call E start r s = (Inr a, s') \<Longrightarrow> r = Inr a"
  by (auto simp: finish_call_def check_blocked_def Let_def split: if_splits sum.splits option.splits)

lemma stream_last_attempt:
  assumes "with_retry E p (stream_attempt J E opts body on_chunk) (\<lambda>l. \<not> fst l) 0 (False, []) s
    = (r, (any, seen), s')"
  obtains s0 r0 s1 where "stream_attempt J E opts body on_chunk (False, []) s0 = (r0, (any, seen), s1)"
    "r = r0 \<or> (\<exists>m. r = Inl (Undefined m))"
proof -
  have "\<exists>l0 s0 r0 s1. l0 = (False, []) \<and> stream_attempt J E opts body on_chunk l0 s0 = (r0, (any, seen), s1) \<and>
      (r = r0 \<or> (\<exists>m. r = Inl (Undefined m)))"
  proof (rule with_retry_last [OF assms])
    fix l :: "bool \<times> 'a generate_response list" and s r l' s'
    assume "l = (False, [])" "stream_attempt J E opts body on_chunk l s = (r, l', s')" "\<not> fst l'"
    then show "l' = (False, [])"
      using stream_attempt_sound [of J E opts body on_chunk s r "fst l'" "snd l'" s'] by (cases l') auto
  qed simp
  then show thesis using that by blast
qed

section \<open>Counters\<close>

lemma finish_call_frame:
  assumes "finish_call E start r s = (result, s')"
  shows "requests (metrics s') = requests (metrics s) \<and> attempts (metrics s') = attempts (metrics s) \<and>
    retries (metrics s') = retries (metrics s) \<and> sleeps s' = sleeps s \<and>
    failures (metrics s') = failures (metrics s) + (if \<exists>e. result = Inl (Failed e) then 1 else 0) \<and>
    (\<forall>a. result = Inr a \<longrightarrow>
       prompt_total (metrics s') = prompt_total (metrics s) + word_of_int (prompt_tokens (usage a)))"
proof (cases "returns r")
  case True
  then have "returns (check_blocked r)"
    by (cases r rule: returns.cases) (auto simp: check_blocked_def err_def split: option.splits)
  then show ?thesis
  proof (cases rule: returns_cases)
    case (ok a)
    with assms True have "record_result E start (Inr a) s = s'" "result = Inr a"
      by (auto simp: finish_call_def Let_def)
    then show ?thesis by (auto simp: record_result_def read_clock_def Let_def split: prod.splits)
  next
    case (failed e)
    with assms True have "record_result E start (Inl (Failed e) :: 'a generate_response result) s = s'"
      "result = Inl (Failed e)" by (auto simp: finish_call_def Let_def)
    then show ?thesis
      by (auto simp: record_result_def read_clock_def count_failure_def Let_def split: prod.splits)
  qed
next
  case False
  with assms show ?thesis by (cases r rule: returns.cases) (auto simp: finish_call_def)
qed

text \<open>The books of one call that made \<open>n\<close> attempts (none when it was refused).\<close>

definition call_accounts ::
  "'w environment \<Rightarrow> nat \<Rightarrow> 'a result \<Rightarrow> 'w client_state \<Rightarrow> 'w client_state \<Rightarrow> bool" where
  "call_accounts E n result s s' \<longleftrightarrow>
     requests (metrics s') = requests (metrics s) + 1 \<and>
     attempts (metrics s') = attempts (metrics s) + of_nat n \<and>
     retries (metrics s') = retries (metrics s) + of_nat (n - 1) \<and>
     failures (metrics s') =
       failures (metrics s) + (if 0 < n \<and> (\<exists>e. result = Inl (Failed e)) then 1 else 0) \<and>
     (\<exists>ds. sleeps s' = sleeps s @ ds \<and> length ds = n - 1 \<and>
        list_all (\<lambda>d. \<exists>u p i e. delay_for (pow_fn E) u p i e = Inr d) ds)"

lemma call_accounts_refused:
  "metrics s' = metrics (count_request s) \<Longrightarrow> sleeps s' = sleeps (count_request s) \<Longrightarrow>
   call_accounts E 0 result s s'"
  by (simp add: call_accounts_def count_request_def)

lemma call_accounts_ran:
  assumes "accounted E p n s0 s1" "1 \<le> n"
    and "metrics s0 = metrics (count_request s)" "sleeps s0 = sleeps (count_request s)"
    and "finish_call E start r s1 = (result, s')"
  shows "call_accounts E n result s s'"
proof -
  note fin = finish_call_frame [OF assms(5)]
  from assms(1) obtain ds where ds: "sleeps s1 = sleeps s @ ds" "length ds = n - 1"
    "list_all (\<lambda>d. \<exists>u i e. delay_for (pow_fn E) u p i e = Inr d) ds"
    unfolding accounted_def assms(4) by (auto simp: count_request_def)
  have "list_all (\<lambda>d. \<exists>u p i e. delay_for (pow_fn E) u p i e = Inr d) ds"
    using ds(3) unfolding list_all_iff by blast
  with ds(1,2) fin assms(1-3) show ?thesis
    unfolding accounted_def call_accounts_def
    by (auto simp: count_request_def)
qed

end
