(* ===== verification/Client_Properties.thy ===== *)
theory Client_Properties
  imports Client
begin

text \<open>
  The client's operations, end to end: the books every call keeps, what a stream hands over, the
  listing of models.  The concrete instances use a scripted network whose state is the list of
  responses still to come.
\<close>

section \<open>A scripted environment\<close>

definition ok_response :: "string \<Rightarrow> http_response" where
  "ok_response b = \<lparr>resp_status = 200, resp_headers = (\<lambda>_. None), resp_body = b\<rparr>"

definition answer :: "error + string \<Rightarrow> error + http_response" where
  "answer r = (case r of Inl e \<Rightarrow> Inl e | Inr b \<Rightarrow> Inr (ok_response b))"

type_synonym script = "(string list \<times> (error + string)) list"

definition next_answer :: "script \<Rightarrow> (string list \<times> (error + string)) \<times> script" where
  "next_answer w =
     (case w of r # w' \<Rightarrow> (r, w') | [] \<Rightarrow> (([], Inl (make_error KCancelled ''script ended'')), []))"

definition scripted :: "script environment" where
  "scripted =
     \<lparr>net = \<lparr>tr_send = (\<lambda>_ w. let (r, w') = next_answer w in (answer (snd r), w')),
             tr_stream = (\<lambda>_ w. let (r, w') = next_answer w in (fst r, \<lambda>_. answer (snd r), w'))\<rparr>,
      pow_fn = (\<lambda>_ _. Fin False 1), draw = (\<lambda>w. (Fin False 0, w)), clock = (\<lambda>w. (0, w)),
      sleeper = (\<lambda>_ w. w)\<rparr>"

definition start_state :: "'w \<Rightarrow> 'w client_state" where
  "start_state w = \<lparr>metrics = zero_metrics, sleeps = [], world = w\<rparr>"

definition sample_options :: client_options where
  "sample_options = default_options\<lparr>api_key := ''k'', retry := default_policy\<lparr>max_attempts := 2\<rparr>\<rparr>"

definition sample_request :: "jval generate_request" where
  "sample_request =
     \<lparr>contents = [user_content ''hi''], system_instruction = None, tools = [],
      config =
        \<lparr>temperature = None, top_p = None, top_k = None, max_output_tokens = None,
         candidate_count = None, seed = None, thinking_budget = None, response_mime_type = None,
         response_schema = JNull, stop_sequences = []\<rparr>,
      safety_settings = []\<rparr>"

text \<open>A library that parses \<open>x\<close> as an empty object and prints everything as \<open>x\<close>.\<close>

definition sample_json :: "jval json_lib" where
  "sample_json = jval_lib (\<lambda>t. if t = ''x'' then Some (JObject []) else None) (\<lambda>_. Some ''x'')"

definition busy :: error where
  "busy = (make_error KRateLimited ''slow down'')\<lparr>retry_after := Some 5\<rparr>"

section \<open>The books of a call\<close>

text \<open>A call is refused before any attempt, or runs the loop and then finishes.\<close>

lemma generate_cases:
  assumes "generate J E opts request s = (result, s')"
  obtains (refused) f where "result = Inl f" "metrics s' = metrics (count_request s)"
      "sleeps s' = sleeps (count_request s)"
      "validate opts request = Inl f \<or> dump_body J (request_to_json J request) = Inl f"
  | (ran) body s0 r1 s1 start where "validate opts request = Inr ()"
      "dump_body J (request_to_json J request) = Inr body"
      "metrics s0 = metrics (count_request s)" "sleeps s0 = sleeps (count_request s)"
      "with_retry E (retry opts) (generate_attempt J E opts body) (\<lambda>_. True) 0 () s0 = (r1, (), s1)"
      "finish_call E start r1 s1 = (result, s')"
proof (cases "validate opts request")
  case (Inl f)
  with assms show thesis by (intro refused [of f]) (auto simp: generate_def Let_def)
next
  case (Inr u)
  obtain start s0 where rc: "read_clock E (count_request s) = (start, s0)" by fastforce
  note frame = read_clock_frame [OF rc]
  show thesis
  proof (cases "dump_body J (request_to_json J request)")
    case (Inl f)
    with assms Inr rc frame show thesis by (intro refused [of f]) (auto simp: generate_def Let_def)
  next
    case (Inr body)
    obtain r1 s1 where wr:
      "with_retry E (retry opts) (generate_attempt J E opts body) (\<lambda>_. True) 0 () s0 = (r1, (), s1)"
      by (metis prod_cases3 old.unit.exhaust)
    with assms \<open>validate opts request = Inr u\<close> rc Inr have "finish_call E start r1 s1 = (result, s')"
      by (simp add: generate_def Let_def)
    with \<open>validate opts request = Inr u\<close> Inr frame wr show thesis by (intro ran) simp_all
  qed
qed

lemma check_blocked_retryable:
  "check_blocked r = Inl (Failed e) \<Longrightarrow> retryable e \<Longrightarrow> r = Inl (Failed e)"
  by (auto simp: check_blocked_def err_def make_error_def retryable_def
      split: sum.splits option.splits if_splits)

lemma finish_call_retryable:
  "finish_call E start r s = (Inl (Failed e), s') \<Longrightarrow> retryable e \<Longrightarrow> r = Inl (Failed e)"
  by (cases r rule: returns.cases) (auto simp: finish_call_def Let_def dest: check_blocked_retryable)

lemma attempt_limit_pos: "max 1 (attempt_limit p - 0) = attempt_limit p"
  by (simp add: attempt_limit_def)

lemma generate_books:
  assumes "generate J E opts request s = (result, s')"
  shows "\<exists>n. call_accounts E n result s s' \<and> int n \<le> attempt_limit (retry opts) \<and>
    (n = 0 \<longleftrightarrow> (\<exists>f. result = Inl f \<and>
      (validate opts request = Inl f \<or> dump_body J (request_to_json J request) = Inl f \<and> validate opts request = Inr ()))) \<and>
    (\<forall>e. result = Inl (Failed e) \<longrightarrow> retryable e \<longrightarrow> 0 < n \<longrightarrow> int n = attempt_limit (retry opts))"
  using assms
proof (cases rule: generate_cases)
  case (refused f)
  then have "call_accounts E 0 result s s'" by (intro call_accounts_refused)
  moreover have "0 \<le> attempt_limit (retry opts)" by (simp add: attempt_limit_def)
  moreover have "validate opts request = Inl f \<or>
      dump_body J (request_to_json J request) = Inl f \<and> validate opts request = Inr ()"
    using refused assms by (cases "validate opts request") (auto simp: generate_def Let_def)
  ultimately show ?thesis using refused(1) by (intro exI [of _ 0]) auto
next
  case (ran body s0 r1 s1 start)
  from generate_loop.with_retry_accounted [OF ran(5), unfolded attempt_limit_pos] obtain n where n:
    "1 \<le> n" "int n \<le> attempt_limit (retry opts)" "accounted E (retry opts) n s0 s1"
    "\<And>e. r1 = Inl (Failed e) \<Longrightarrow> retryable e \<Longrightarrow> int n = attempt_limit (retry opts)" by blast
  have "int n = attempt_limit (retry opts)" if "result = Inl (Failed e)" "retryable e" for e
    using that n(4) ran(6) finish_call_retryable by metis
  with call_accounts_ran [OF n(3,1) ran(3,4,6)] n(1,2) ran(1,2) show ?thesis
    by (intro exI [of _ n]) auto
qed


section \<open>Streams\<close>

text \<open>
  C9: what a stream hands over.  Whatever happens, retries included, the chunks the caller has
  seen are a prefix of the chunks of one single exchange with the server, so nothing is delivered
  twice and nothing is skipped; a value returned is their merge; and without a callback that can
  stop it, a value is returned only if every event of the body was understood and delivered.
\<close>

theorem stream_delivers:
  assumes "stream J E opts request on_chunk s = (result, seen, s')"
  shows "(\<forall>r. result = Inr r \<longrightarrow> r = aggregate seen) \<and>
    (seen = [] \<and> (\<exists>f. result = Inl f) \<or>
     (\<exists>body. dump_body J (request_to_json J request) = Inr body \<and>
        stream_exchanged J E opts body seen (on_chunk = None \<and> (\<exists>r. result = Inr r))))"
  using assms
proof (cases rule: stream_cases)
  case (refused f)
  then show ?thesis by simp
next
  case (ran body s0 r1 any s1 start)
  from ran(4) obtain t0 r0 t1 where last:
    "stream_attempt J E opts body on_chunk (False, []) t0 = (r0, (any, seen), t1)"
    "r1 = r0 \<or> (\<exists>m. r1 = Inl (Undefined m))" by (rule stream_last_attempt)
  note sound = stream_attempt_sound [OF last(1)]
  have ok: "r0 = Inr r" if "result = Inr r" for r
    using finish_call_Inr [of E start r1 s1 r s'] ran(5) last(2) that by auto
  from sound have "stream_exchanged J E opts body seen (on_chunk = None \<and> (\<exists>r. result = Inr r))"
    using ok by (auto elim!: stream_exchanged_weaken)
  with sound ran(1) ok show ?thesis by auto
qed

lemma stream_books:
  assumes "stream J E opts request on_chunk s = (result, seen, s')"
  shows "\<exists>n. call_accounts E n result s s' \<and> int n \<le> attempt_limit (retry opts) \<and>
    (n = 0 \<longrightarrow> seen = []) \<and>
    (\<forall>e. result = Inl (Failed e) \<longrightarrow> retryable e \<longrightarrow> seen = [] \<longrightarrow> 0 < n \<longrightarrow>
       int n = attempt_limit (retry opts))"
  using assms
proof (cases rule: stream_cases)
  case (refused f)
  then have "call_accounts E 0 result s s'" by (intro call_accounts_refused)
  with refused(2) show ?thesis by (intro exI [of _ 0]) (simp add: attempt_limit_def)
next
  case (ran body s0 r1 any s1 start)
  from stream_loop.with_retry_accounted [OF ran(4), unfolded attempt_limit_pos] obtain n where n:
    "1 \<le> n" "int n \<le> attempt_limit (retry opts)" "accounted E (retry opts) n s0 s1"
    "\<And>e. r1 = Inl (Failed e) \<Longrightarrow> retryable e \<Longrightarrow> \<not> any \<Longrightarrow> int n = attempt_limit (retry opts)" by auto
  from ran(4) obtain t0 r0 t1 where
    "stream_attempt J E opts body on_chunk (False, []) t0 = (r0, (any, seen), t1)"
    by (rule stream_last_attempt)
  from stream_attempt_sound [OF this] have "seen = [] \<Longrightarrow> \<not> any" by simp
  then have "int n = attempt_limit (retry opts)"
    if "result = Inl (Failed e)" "retryable e" "seen = []" for e
    using that n(4) finish_call_retryable [of E start r1 s1 e s'] ran(5) by simp
  with call_accounts_ran [OF n(3,1) ran(2,3,5)] n(1,2) show ?thesis
    by (intro exI [of _ n]) auto
qed

text \<open>
  The books of a \<^verbatim>\<open>stream\<close> call: as for \<^verbatim>\<open>generate\<close>, except that nothing is retried once a
  chunk was delivered.
\<close>

theorem stream_accounts:
  assumes "stream J E opts request on_chunk s = (result, seen, s')"
  shows "\<exists>n. call_accounts E n result s s' \<and> int n \<le> attempt_limit (retry opts) \<and>
    (n = 0 \<longrightarrow> seen = []) \<and>
    (\<forall>e. result = Inl (Failed e) \<longrightarrow> retryable e \<longrightarrow> seen = [] \<longrightarrow> 0 < n \<longrightarrow>
       int n = attempt_limit (retry opts))"
  using assms by (rule stream_books)

section \<open>The listing of models\<close>

text \<open>
  What the pages are, without the loop: \<open>pages_from t s rs ok s'\<close> when fetching the page of the
  token \<open>t\<close> and its successors in the state \<open>s\<close> gives the pages \<open>rs\<close> up to the last one
  (\<open>ok = None\<close>) or up to a failure.
\<close>

inductive pages_from ::
  "'j json_lib \<Rightarrow> 'w environment \<Rightarrow> client_options \<Rightarrow> string \<Rightarrow> 'w client_state \<Rightarrow>
   model_info list list \<Rightarrow> failure option \<Rightarrow> 'w client_state \<Rightarrow> bool"
  for J E opts where
  page_fails:
    "fetch_page J E opts t s = (Inl f, s') \<Longrightarrow> pages_from J E opts t s [] (Some f) s'"
| page_last:
    "fetch_page J E opts t s = (Inr (ms, []), s') \<Longrightarrow> pages_from J E opts t s [ms] None s'"
| page_more:
    "fetch_page J E opts t s = (Inr (ms, t'), s1) \<Longrightarrow> t' \<noteq> [] \<Longrightarrow>
     pages_from J E opts t' s1 mss f s' \<Longrightarrow> pages_from J E opts t s (ms # mss) f s'"

inductive_cases page_casesE: "pages_from J E opts t s mss f s'"

definition listing_result :: "model_info list \<Rightarrow> model_info list list \<Rightarrow> failure option \<Rightarrow> model_info list result" where
  "listing_result all mss f = (case f of None \<Rightarrow> Inr (all @ concat mss) | Some f \<Rightarrow> Inl f)"

lemma list_pages_complete:
  "pages_from J E opts t s mss f s' \<Longrightarrow>
   list_pages J E opts all t s = Some (listing_result all mss f, s')"
  by (induction arbitrary: all rule: pages_from.induct)
     (subst list_pages.simps, auto simp: listing_result_def split: option.splits)+

lemma list_pages_sound:
  assumes "list_pages J E opts all t s = Some rs"
  shows "\<exists>mss f. pages_from J E opts t s mss f (snd rs) \<and> fst rs = listing_result all mss f"
proof (rule list_pages.raw_induct [OF _ assms])
  fix rec :: "'b json_lib \<Rightarrow> 'a environment \<Rightarrow> client_options \<Rightarrow> model_info list \<Rightarrow> string \<Rightarrow>
      'a client_state \<Rightarrow> (model_info list result \<times> 'a client_state) option"
    and J E opts all t s rs
  let ?sound = "\<lambda>J E opts all t s rs.
    \<exists>mss f. pages_from J E opts t s mss f (snd rs) \<and> fst rs = listing_result all mss f"
  assume 1: "\<And>J E opts all t s rs. rec J E opts all t s = Some rs \<Longrightarrow> ?sound J E opts all t s rs"
    "(case fetch_page J E opts t s of (page, s') \<Rightarrow>
      (case page of
         Inl f \<Rightarrow> Some (Inl f, s')
       | Inr (models, next_token) \<Rightarrow>
           if next_token = [] then Some (Inr (all @ models), s')
           else rec J E opts (all @ models) next_token s')) = Some rs"
  obtain page s1 where fp: "fetch_page J E opts t s = (page, s1)" by fastforce
  show "?sound J E opts all t s rs"
  proof (cases page)
    case (Inl f)
    with 1(2) fp have "rs = (Inl f, s1)" by simp
    with fp Inl have "pages_from J E opts t s [] (Some f) (snd rs)"
      "fst rs = listing_result all [] (Some f)" by (simp_all add: page_fails listing_result_def)
    then show ?thesis by blast
  next
    case (Inr res)
    obtain ms t' where res: "res = (ms, t')" by fastforce
    show ?thesis
    proof (cases "t' = []")
      case True
      with 1(2) fp Inr res have "rs = (Inr (all @ ms), s1)" by simp
      with fp Inr res True have "pages_from J E opts t s [ms] None (snd rs)"
        "fst rs = listing_result all [ms] None" by (simp_all add: page_last listing_result_def)
      then show ?thesis by blast
    next
      case False
      with 1(2) fp Inr res have "rec J E opts (all @ ms) t' s1 = Some rs" by simp
      from 1(1) [OF this] obtain mss f where
        "pages_from J E opts t' s1 mss f (snd rs)" "fst rs = listing_result (all @ ms) mss f" by blast
      with fp Inr res False have "pages_from J E opts t s (ms # mss) f (snd rs)"
        "fst rs = listing_result all (ms # mss) f"
        by (auto simp: listing_result_def intro: page_more split: option.splits)
      then show ?thesis by blast
    qed
  qed
qed

text \<open>
  C31: \<^verbatim>\<open>list_models\<close> returns exactly when the chain of page tokens ends, and then it returns the
  models of all the pages, in order, each page once; a page that fails after its retries makes the
  whole call fail with that page's error, the models already fetched being dropped.
\<close>

theorem list_models_pages:
  "list_models J E opts s = Some (result, s') \<longleftrightarrow>
     (if api_key opts = [] then
        result = err KConfig ''API key is empty'' \<and> s' = count_request s
      else \<exists>pages f. pages_from J E opts [] (count_request s) pages f s' \<and>
        result = (case f of None \<Rightarrow> Inr (concat pages) | Some f \<Rightarrow> Inl f))"
proof -
  let ?s = "count_request s"
  have "list_pages J E opts [] [] ?s = Some (result, s') \<longleftrightarrow>
    (\<exists>pages f. pages_from J E opts [] ?s pages f s' \<and> result = listing_result [] pages f)"
    using list_pages_sound [of J E opts "[]" "[]" ?s "(result, s')"] list_pages_complete by fastforce
  moreover have "listing_result [] mss f = (case f of None \<Rightarrow> Inr (concat mss) | Some f \<Rightarrow> Inl f)"
    for mss f by (simp add: listing_result_def split: option.split)
  ultimately show ?thesis by (simp add: list_models_def Let_def) blast
qed

section \<open>Concrete runs\<close>

lemma scripted_sel [simp]:
  "clock scripted w = (0, w)" "sleeper scripted d w = w"
  "tr_send (net scripted) q w = (answer (snd (fst (next_answer w))), snd (next_answer w))"
  "tr_stream (net scripted) q w =
     (fst (fst (next_answer w)), \<lambda>_. answer (snd (fst (next_answer w))), snd (next_answer w))"
  by (simp_all add: scripted_def split: prod.splits)

lemma sample_retry [simp]: "retry sample_options = default_policy\<lparr>max_attempts := 2\<rparr>"
  by (simp add: sample_options_def)

lemma sample_limit [simp]: "attempt_limit (default_policy\<lparr>max_attempts := 2\<rparr>) = 2"
  by (simp add: attempt_limit_def)

lemma sample_parse: "parse_response_body sample_json ''x'' = Inr empty_response"
  by (simp add: sample_json_def parse_response_body_def parse_generate_response_def parse_usage_def
      find_array_at_def find_object_at_def string_or_def empty_response_def zero_usage_def)

lemma sample_dump: "dump_body sample_json j = Inr ''x''"
  by (simp add: sample_json_def dump_body_def)

lemma sample_check: "check_http J (answer (Inr b)) = Inr (ok_response b)"
  "check_http J (answer (Inl e)) = Inl (Failed e)" "resp_body (ok_response b) = b"
  by (simp_all add: check_http_def answer_def ok_response_def)

lemma sample_valid: "validate sample_options sample_request = Inr ()"
  by (simp add: validate_def sample_options_def sample_request_def default_options_def
      default_model_def)

lemma sample_busy: "retryable busy"
  "next_delay E (default_policy\<lparr>max_attempts := n\<rparr>) i busy s = (Inr 5, s)"
  by (simp_all add: busy_def make_error_def retryable_def delay_for_def default_policy_def
      next_delay_def)

lemma sample_generate_attempt:
  "generate_attempt sample_json scripted opts body l s =
     (case snd (fst (next_answer (world s))) of
        Inl e \<Rightarrow> Inl (Failed e) | Inr b \<Rightarrow> parse_response_body sample_json b, l,
      s\<lparr>world := snd (next_answer (world s))\<rparr>)"
  by (simp add: generate_attempt_def sample_check bind_result_def split: sum.split)

lemmas sample_run =
  sample_dump sample_valid sample_busy sample_parse next_answer_def start_state_def count_request_def
  read_clock_def count_attempt_def count_retry_def count_failure_def finish_call_def
  check_blocked_def record_result_def elapsed_ms_def empty_response_def zero_usage_def
  zero_metrics_def


lemma sample_feed:
  "feed_chunks h [''data: '', ''x'', [NL]] new_parser st = (True, \<lparr>buffer = [], data = ''x'', has_data = True\<rparr>, st)"
  by (simp add: feed_def feed_loop.simps process_line_def split_field_def new_parser_def str_simps)

lemma sample_merge: "merge_response empty_response empty_response = empty_response"
  by (simp add: merge_response_def empty_response_def zero_usage_def)

lemma sample_stream_attempt:
  "world s = [([''data: '', ''x'', [NL]], Inr [])] \<Longrightarrow>
   stream_attempt sample_json scripted opts body None (False, []) s =
     (Inr empty_response, (True, [empty_response]), s\<lparr>world := []\<rparr>)"
  by (simp add: stream_attempt_def next_answer_def sample_feed start_attempt_def stream_outcome_def
      sample_check finish_def dispatch_def on_event_def sample_parse sample_merge
      del: feed_chunks.simps)

theorem stream_accounts_witness:
  "\<exists>n. call_accounts scripted n (Inl (Failed busy) :: jval generate_response result)
     (start_state [([], Inl busy), ([], Inl busy)])
     \<lparr>metrics = zero_metrics\<lparr>requests := 1, attempts := 2, retries := 1, failures := 1\<rparr>,
      sleeps = [5], world = []\<rparr> \<and> int n \<le> 2 \<and> (0 < n \<longrightarrow> int n = 2)"
proof -
  have "stream sample_json scripted sample_options sample_request None
      (start_state [([], Inl busy), ([], Inl busy)]) =
    (Inl (Failed busy), [],
     \<lparr>metrics = zero_metrics\<lparr>requests := 1, attempts := 2, retries := 1, failures := 1\<rparr>,
      sleeps = [5], world = []\<rparr>)"
    by (simp add: stream_def sample_run with_retry.simps stream_attempt_def stream_outcome_def
        start_attempt_def sample_check)
  from stream_accounts [OF this] sample_busy show ?thesis by auto
qed

theorem stream_delivers_witness:
  "\<exists>body. stream_exchanged sample_json scripted sample_options body [empty_response] True"
proof -
  have "stream sample_json scripted sample_options sample_request None
      (start_state [([''data: '', ''x'', [NL]], Inr [])]) =
    (Inr empty_response, [empty_response],
     \<lparr>metrics = zero_metrics\<lparr>requests := 1, attempts := 1\<rparr>, sleeps = [], world = []\<rparr>)"
    by (simp add: stream_def sample_run with_retry.simps sample_stream_attempt)
  from stream_delivers [OF this] show ?thesis by auto
qed
end
