(* ===== verification/Expression.thy ===== *)
theory Expression
  imports Errors Strtod
begin

text \<open>
  \<^verbatim>\<open>src/tools.cpp\<close>, the arithmetic evaluator (\<^verbatim>\<open>ExpressionParser\<close>, \<^verbatim>\<open>evaluate_expression\<close>).

  The parser's position is kept as the unread suffix \<open>s\<close> of the text, whose length is \<open>N\<close>: the
  member \<^verbatim>\<open>pos_\<close> is \<open>N - length s\<close>.  The member \<^verbatim>\<open>depth_\<close> is an argument: a function that
  increments it decrements it again on every successful return, and a failure ends the parse.
  Every function takes fuel and gives \<^const>\<open>None\<close> when it runs out; \<open>8 * (length s + 1)\<close> is shown
  to be enough, from which the recursion equations without fuel follow.  The functions of the
  mathematics library whose accuracy the language leaves open are a parameter.
\<close>

section \<open>The mathematics library\<close>

record math_lib =
  m_pow :: "double \<Rightarrow> double \<Rightarrow> double"
  m_sqrt :: "double \<Rightarrow> double"
  m_sin :: "double \<Rightarrow> double"
  m_cos :: "double \<Rightarrow> double"
  m_tan :: "double \<Rightarrow> double"
  m_exp :: "double \<Rightarrow> double"
  m_log :: "double \<Rightarrow> double"
  m_log10 :: "double \<Rightarrow> double"

text \<open>\<^verbatim>\<open>std::fmod\<close>, \<^verbatim>\<open>std::fabs\<close> and \<^verbatim>\<open>std::floor\<close> are exact; the constants are the nearest doubles.\<close>

fun d_fmod :: "double \<Rightarrow> double \<Rightarrow> double" where
  "d_fmod (Fin s p) (Fin t q) = (if q = 0 then NaN else Fin s (p - q * of_int \<lfloor>p / q\<rfloor>))"
| "d_fmod (Fin s p) (Inf t) = Fin s p"
| "d_fmod _ _ = NaN"

fun d_abs :: "double \<Rightarrow> double" where
  "d_abs (Fin s q) = Fin False q"
| "d_abs (Inf s) = Inf False"
| "d_abs NaN = NaN"

definition d_floor :: "double \<Rightarrow> double" where
  "d_floor d = d_neg (d_ceil (d_neg d))"

definition d_zero :: double where
  "d_zero = Fin False 0"

definition d_pi :: double where
  "d_pi = Fin False (884279719003555 / 281474976710656)"

definition d_euler :: double where
  "d_euler = Fin False (6121026514868073 / 2251799813685248)"

section \<open>The scanner\<close>

definition fail_at :: "nat \<Rightarrow> string \<Rightarrow> string \<Rightarrow> 'a result" where
  "fail_at N s msg = err KInvalidArgument (msg @ '' at position '' @ nat_to_string (N - length s))"

definition skip_space :: "string \<Rightarrow> string" where
  "skip_space s = dropWhile (\<lambda>c. c = SP \<or> c = TAB) s"

text \<open>Blanks are skipped whether or not the character is there.\<close>

definition accept :: "char \<Rightarrow> string \<Rightarrow> bool \<times> string" where
  "accept c s =
     (let s = skip_space s in if s \<noteq> [] \<and> hd s = c then (True, tl s) else (False, s))"

definition is_number_char :: "char \<Rightarrow> bool" where
  "is_number_char c \<longleftrightarrow> is_digit c \<or> c = CHR ''.''"

text \<open>An exponent is taken only when a digit follows the marker and its sign.\<close>

definition exponent_part :: "string \<Rightarrow> string \<times> string" where
  "exponent_part s =
     (if s \<noteq> [] \<and> (hd s = CHR ''e'' \<or> hd s = CHR ''E'') then
        let sign = (if tl s \<noteq> [] \<and> (hd (tl s) = CHR ''+'' \<or> hd (tl s) = CHR ''-'') then [hd (tl s)] else []);
            look = drop (length sign) (tl s)
        in if look \<noteq> [] \<and> is_digit (hd look)
           then (hd s # sign @ takeWhile is_digit look, dropWhile is_digit look)
           else ([], s)
      else ([], s))"

definition parse_number :: "nat \<Rightarrow> string \<Rightarrow> (double \<times> string) result" where
  "parse_number N s =
     (let mantissa = takeWhile is_number_char s;
          (exponent, rest) = exponent_part (dropWhile is_number_char s);
          token = mantissa @ exponent;
          (v, unread) = strtod token
      in if unread \<noteq> [] then fail_at N s (''malformed number '' @ [SQUOTE] @ token @ [SQUOTE])
         else Inr (v, rest))"

definition is_ident_char :: "char \<Rightarrow> bool" where
  "is_ident_char c \<longleftrightarrow> is_alpha c \<or> is_digit c"

text \<open>The functions by name; \<open>s\<close> is the unread text when the name is looked up.\<close>

definition apply_function ::
  "math_lib \<Rightarrow> nat \<Rightarrow> string \<Rightarrow> string \<Rightarrow> double \<Rightarrow> double result" where
  "apply_function M N s name x =
     (if name = ''sqrt'' then
        (if d_less x d_zero then fail_at N s ''sqrt of negative number'' else Inr (m_sqrt M x))
      else if name = ''abs'' then Inr (d_abs x)
      else if name = ''sin'' then Inr (m_sin M x)
      else if name = ''cos'' then Inr (m_cos M x)
      else if name = ''tan'' then Inr (m_tan M x)
      else if name = ''exp'' then Inr (m_exp M x)
      else if name = ''floor'' then Inr (d_floor x)
      else if name = ''ceil'' then Inr (d_ceil x)
      else if name = ''log'' \<or> name = ''log10'' then
        (if d_le x d_zero then fail_at N s ''log of non-positive number''
         else Inr (if name = ''log'' then m_log M x else m_log10 M x))
      else fail_at N s (''unknown function '' @ [SQUOTE] @ name @ [SQUOTE]))"

section \<open>The parser\<close>

definition max_depth :: nat where
  "max_depth = 200"

definition and_then :: "'a result option \<Rightarrow> ('a \<Rightarrow> 'b result option) \<Rightarrow> 'b result option" where
  "and_then x f = (case x of None \<Rightarrow> None | Some (Inl e) \<Rightarrow> Some (Inl e) | Some (Inr a) \<Rightarrow> f a)"

definition term_op :: "string \<Rightarrow> char option \<times> string" where
  "term_op s =
     (case accept (CHR ''*'') s of
        (True, s) \<Rightarrow> (Some (CHR ''*''), s)
      | (False, s) \<Rightarrow>
          (case accept (CHR ''/'') s of
             (True, s) \<Rightarrow> (Some (CHR ''/''), s)
           | (False, s) \<Rightarrow>
               (case accept (CHR ''%'') s of
                  (True, s) \<Rightarrow> (Some (CHR ''%''), s)
                | (False, s) \<Rightarrow> (None, s))))"

definition apply_term_op :: "char \<Rightarrow> double \<Rightarrow> double \<Rightarrow> double" where
  "apply_term_op c a b =
     (if c = CHR ''*'' then d_mul a b else if c = CHR ''/'' then d_div a b else d_fmod a b)"

text \<open>
  One definition per member function.  Their calls of each other go through \<open>self\<close>, which is told
  the function to run (a loop is told the value of \<^verbatim>\<open>lhs\<close> too); \<open>run_parser\<close> ties the knot.
\<close>

datatype production =
  Expr | ExprLoop double | Term | TermLoop double | Unary | Power | Primary

type_synonym parser = "nat \<Rightarrow> string \<Rightarrow> (double \<times> string) result option"

definition parse_expr :: "nat \<Rightarrow> (production \<Rightarrow> parser) \<Rightarrow> parser" where
  "parse_expr N self d s =
     (if max_depth < d + 1 then Some (fail_at N s ''expression nested too deeply'')
      else and_then (self Term (d + 1) s) (\<lambda>(lhs, s). self (ExprLoop lhs) (d + 1) s))"

definition parse_expr_loop :: "(production \<Rightarrow> parser) \<Rightarrow> double \<Rightarrow> parser" where
  "parse_expr_loop self lhs d s =
     (case accept (CHR ''+'') s of
        (True, s) \<Rightarrow> and_then (self Term d s) (\<lambda>(rhs, s). self (ExprLoop (d_add lhs rhs)) d s)
      | (False, s) \<Rightarrow>
          (case accept (CHR ''-'') s of
             (True, s) \<Rightarrow> and_then (self Term d s) (\<lambda>(rhs, s). self (ExprLoop (d_sub lhs rhs)) d s)
           | (False, s) \<Rightarrow> Some (Inr (lhs, s))))"

definition parse_term :: "(production \<Rightarrow> parser) \<Rightarrow> parser" where
  "parse_term self d s = and_then (self Unary d s) (\<lambda>(lhs, s). self (TermLoop lhs) d s)"

definition parse_term_loop :: "nat \<Rightarrow> (production \<Rightarrow> parser) \<Rightarrow> double \<Rightarrow> parser" where
  "parse_term_loop N self lhs d s =
     (case term_op s of
        (None, s) \<Rightarrow> Some (Inr (lhs, s))
      | (Some c, s) \<Rightarrow>
          and_then (self Unary d s)
            (\<lambda>(rhs, s).
               if (c = CHR ''/'' \<or> c = CHR ''%'') \<and> d_eq rhs d_zero
               then Some (fail_at N s ''division by zero'')
               else self (TermLoop (apply_term_op c lhs rhs)) d s))"

definition parse_unary :: "nat \<Rightarrow> (production \<Rightarrow> parser) \<Rightarrow> parser" where
  "parse_unary N self d s =
     (if max_depth < d + 1 then Some (fail_at N s ''expression nested too deeply'')
      else
        (case accept (CHR ''-'') s of
           (True, s) \<Rightarrow> and_then (self Unary (d + 1) s) (\<lambda>(v, s). Some (Inr (d_neg v, s)))
         | (False, s) \<Rightarrow>
             (case accept (CHR ''+'') s of
                (True, s) \<Rightarrow> self Unary (d + 1) s
              | (False, s) \<Rightarrow> self Power (d + 1) s)))"

definition parse_power :: "math_lib \<Rightarrow> (production \<Rightarrow> parser) \<Rightarrow> parser" where
  "parse_power M self d s =
     and_then (self Primary d s)
       (\<lambda>(base, s).
          case accept (CHR ''^'') s of
            (True, s) \<Rightarrow>
              and_then (self Unary d s) (\<lambda>(exponent, s). Some (Inr (m_pow M base exponent, s)))
          | (False, s) \<Rightarrow> Some (Inr (base, s)))"

definition parse_identifier :: "math_lib \<Rightarrow> nat \<Rightarrow> (production \<Rightarrow> parser) \<Rightarrow> parser" where
  "parse_identifier M N self d s =
     (let name = takeWhile is_ident_char s; s = dropWhile is_ident_char s in
      if name = ''pi'' then Some (Inr (d_pi, s))
      else if name = ''e'' then Some (Inr (d_euler, s))
      else
        (case accept (CHR ''('') s of
           (False, s) \<Rightarrow> Some (fail_at N s (''unknown identifier '' @ [SQUOTE] @ name @ [SQUOTE]))
         | (True, s) \<Rightarrow>
             and_then (self Expr d s)
               (\<lambda>(arg, s).
                  case accept (CHR '')'') s of
                    (False, s) \<Rightarrow> Some (fail_at N s (''expected '' @ [SQUOTE] @ '')'' @ [SQUOTE]))
                  | (True, s) \<Rightarrow>
                      Some (bind_result (apply_function M N s name arg) (\<lambda>v. Inr (v, s))))))"

definition parse_primary :: "math_lib \<Rightarrow> nat \<Rightarrow> (production \<Rightarrow> parser) \<Rightarrow> parser" where
  "parse_primary M N self d s =
     (let s = skip_space s in
      if s = [] then Some (fail_at N s ''unexpected end of expression'')
      else
        (case accept (CHR ''('') s of
           (True, s) \<Rightarrow>
             and_then (self Expr d s)
               (\<lambda>(inner, s).
                  case accept (CHR '')'') s of
                    (True, s) \<Rightarrow> Some (Inr (inner, s))
                  | (False, s) \<Rightarrow> Some (fail_at N s (''expected '' @ [SQUOTE] @ '')'' @ [SQUOTE])))
         | (False, s) \<Rightarrow>
             if is_number_char (hd s) then Some (parse_number N s)
             else if is_alpha (hd s) then parse_identifier M N self d s
             else Some (fail_at N s (''unexpected character '' @ [SQUOTE] @ [hd s] @ [SQUOTE]))))"

definition parse_step :: "math_lib \<Rightarrow> nat \<Rightarrow> (production \<Rightarrow> parser) \<Rightarrow> production \<Rightarrow> parser" where
  "parse_step M N self g =
     (case g of
        Expr \<Rightarrow> parse_expr N self
      | ExprLoop lhs \<Rightarrow> parse_expr_loop self lhs
      | Term \<Rightarrow> parse_term self
      | TermLoop lhs \<Rightarrow> parse_term_loop N self lhs
      | Unary \<Rightarrow> parse_unary N self
      | Power \<Rightarrow> parse_power M self
      | Primary \<Rightarrow> parse_primary M N self)"

primrec run_parser :: "math_lib \<Rightarrow> nat \<Rightarrow> nat \<Rightarrow> production \<Rightarrow> parser" where
  "run_parser M N 0 = (\<lambda>g d s. None)"
| "run_parser M N (Suc n) = parse_step M N (run_parser M N n)"

definition parse_text :: "math_lib \<Rightarrow> nat \<Rightarrow> string \<Rightarrow> double result option" where
  "parse_text M fuel t =
     and_then (run_parser M (length t) fuel Expr 0 t)
       (\<lambda>(v, s).
          let s = skip_space s in
          if s \<noteq> [] then
            Some (fail_at (length t) s (''unexpected character '' @ [SQUOTE] @ [hd s] @ [SQUOTE]))
          else if \<not> d_isfinite v then Some (fail_at (length t) s ''result is not a finite number'')
          else Some (Inr v))"

definition parse_fuel :: "string \<Rightarrow> nat" where
  "parse_fuel s = 8 * length s + 8"

definition evaluate_expression :: "math_lib \<Rightarrow> string \<Rightarrow> double result option" where
  "evaluate_expression M t =
     (if 4096 < length t then Some (err KInvalidArgument ''expression too long'')
      else parse_text M (parse_fuel t) t)"

section \<open>Enough fuel\<close>

lemma skip_space_length: "length (skip_space s) \<le> length s"
  by (simp add: skip_space_def length_dropWhile_le)

lemma accept_True: "accept c s = (True, r) \<Longrightarrow> length r < length s"
  using skip_space_length [of s] by (cases "skip_space s") (auto simp: accept_def Let_def split: if_splits)

lemma accept_False: "accept c s = (False, r) \<Longrightarrow> length r \<le> length s"
  using skip_space_length [of s] by (auto simp: accept_def Let_def split: if_splits)

lemma term_op_Some: "term_op s = (Some c, r) \<Longrightarrow> length r < length s"
  and term_op_None: "term_op s = (None, r) \<Longrightarrow> length r \<le> length s"
  by (auto simp: term_op_def split: prod.splits bool.splits
      dest!: accept_True accept_False)

text \<open>
  A run that ends, on a suffix no longer than the text it started on (shorter where something
  must have been read); a number or a name has at least one character.
\<close>

definition ends_within :: "nat \<Rightarrow> (double \<times> string) result option \<Rightarrow> bool" where
  "ends_within k x \<longleftrightarrow>
     (case x of
        Some (Inr (v, r)) \<Rightarrow> length r \<le> k
      | Some (Inl (Failed e)) \<Rightarrow> code e = KInvalidArgument
      | _ \<Rightarrow> False)"

lemma ends_within_fail [simp]: "ends_within k (Some (fail_at N s m))"
  by (simp add: ends_within_def fail_at_def err_def make_error_def)

lemma ends_within_ok [simp]: "ends_within k (Some (Inr (v, r))) \<longleftrightarrow> length r \<le> k"
  by (simp add: ends_within_def)

lemma ends_within_mono: "ends_within k x \<Longrightarrow> k \<le> l \<Longrightarrow> ends_within l x"
  by (auto simp: ends_within_def split: option.splits sum.splits)

lemma ends_within_then:
  assumes "ends_within k x" and "\<And>v r. length r \<le> k \<Longrightarrow> ends_within l (f (v, r))"
  shows "ends_within l (and_then x f)"
proof (cases "\<exists>v r. x = Some (Inr (v, r))")
  case True
  with assms show ?thesis by (auto simp: and_then_def)
next
  case False
  with assms(1) show ?thesis
    by (auto simp: ends_within_def and_then_def split: option.splits sum.splits failure.splits)
qed

text \<open>Where a call stands: the characters left, then the place in the chain of calls.\<close>

fun rank :: "production \<Rightarrow> nat" where
  "rank Expr = 6"
| "rank Term = 5"
| "rank Unary = 4"
| "rank Power = 3"
| "rank Primary = 2"
| "rank (ExprLoop v) = 1"
| "rank (TermLoop v) = 1"

fun reach :: "production \<Rightarrow> string \<Rightarrow> nat" where
  "reach (ExprLoop v) s = length s"
| "reach (TermLoop v) s = length s"
| "reach g s = length s - 1"

definition well_behaved :: "nat \<Rightarrow> (production \<Rightarrow> parser) \<Rightarrow> bool" where
  "well_behaved k self \<longleftrightarrow>
     (\<forall>g d s. 8 * length s + rank g \<le> k \<longrightarrow> ends_within (reach g s) (self g d s))"

lemma well_behavedD:
  "well_behaved k self \<Longrightarrow> 8 * length s + rank g \<le> k \<Longrightarrow> reach g s \<le> l \<Longrightarrow> ends_within l (self g d s)"
  unfolding well_behaved_def by (blast intro: ends_within_mono)

lemma well_behaved_then:
  assumes "well_behaved k self" "8 * length s + rank g \<le> k"
    and "\<And>v r. length r \<le> reach g s \<Longrightarrow> ends_within l (f (v, r))"
  shows "ends_within l (and_then (self g d s) f)"
  by (rule ends_within_then [OF well_behavedD [OF assms(1,2) order_refl]]) (rule assms(3))

lemma parse_number_ends:
  assumes "s \<noteq> []" "is_number_char (hd s)"
  shows "ends_within (length s - 1) (Some (parse_number N s))"
proof -
  have part: "length (snd (exponent_part r)) \<le> length r" for r
    using length_dropWhile_le [of is_digit "drop k (tl r)" for k]
    by (auto simp: exponent_part_def Let_def intro: order_trans [OF length_dropWhile_le])
  from assms have "length (dropWhile is_number_char s) \<le> length s - 1"
    by (cases s) (simp_all add: length_dropWhile_le)
  with part [of "dropWhile is_number_char s"] show ?thesis
    by (auto simp: parse_number_def Let_def split: prod.split)
qed

lemma parse_expr_ends:
  assumes "well_behaved k self" "8 * length s + 6 \<le> Suc k"
  shows "ends_within (length s - 1) (parse_expr N self d s)"
  unfolding parse_expr_def using assms(2)
  by (auto split: prod.split bool.split option.split
      dest!: accept_True accept_False term_op_Some term_op_None
      intro!: well_behaved_then [OF assms(1)] well_behavedD [OF assms(1)])

lemma parse_expr_loop_ends:
  assumes "well_behaved k self" "8 * length s + 1 \<le> Suc k"
  shows "ends_within (length s) (parse_expr_loop self lhs d s)"
  unfolding parse_expr_loop_def using assms(2)
  by (auto split: prod.split bool.split option.split
      dest!: accept_True accept_False term_op_Some term_op_None
      intro!: well_behaved_then [OF assms(1)] well_behavedD [OF assms(1)])

lemma parse_term_ends:
  assumes "well_behaved k self" "8 * length s + 5 \<le> Suc k"
  shows "ends_within (length s - 1) (parse_term self d s)"
  unfolding parse_term_def using assms(2)
  by (auto split: prod.split bool.split option.split
      dest!: accept_True accept_False term_op_Some term_op_None
      intro!: well_behaved_then [OF assms(1)] well_behavedD [OF assms(1)])

lemma parse_term_loop_ends:
  assumes "well_behaved k self" "8 * length s + 1 \<le> Suc k"
  shows "ends_within (length s) (parse_term_loop N self lhs d s)"
  unfolding parse_term_loop_def using assms(2)
  by (auto split: prod.split bool.split option.split
      dest!: accept_True accept_False term_op_Some term_op_None
      intro!: well_behaved_then [OF assms(1)] well_behavedD [OF assms(1)])

lemma parse_unary_ends:
  assumes "well_behaved k self" "8 * length s + 4 \<le> Suc k"
  shows "ends_within (length s - 1) (parse_unary N self d s)"
  unfolding parse_unary_def using assms(2)
  by (auto split: prod.split bool.split option.split
      dest!: accept_True accept_False term_op_Some term_op_None
      intro!: well_behaved_then [OF assms(1)] well_behavedD [OF assms(1)])

lemma parse_power_ends:
  assumes "well_behaved k self" "8 * length s + 3 \<le> Suc k"
  shows "ends_within (length s - 1) (parse_power M self d s)"
  unfolding parse_power_def using assms(2)
  by (auto split: prod.split bool.split option.split
      dest!: accept_True accept_False term_op_Some term_op_None
      intro!: well_behaved_then [OF assms(1)] well_behavedD [OF assms(1)])

lemma parse_identifier_ends:
  assumes "well_behaved k self" "8 * length s \<le> Suc k" "s \<noteq> []" "is_ident_char (hd s)"
  shows "ends_within (length s - 1) (parse_identifier M N self d s)"
proof -
  from assms(3,4) have "length (dropWhile is_ident_char s) < length s"
    by (cases s) (simp_all add: le_imp_less_Suc length_dropWhile_le)
  moreover have "ends_within l (Some (bind_result (apply_function M N r name x) (\<lambda>v. Inr (v, r))))"
    if "length r \<le> l" for l r name x
    using that by (simp add: apply_function_def bind_result_def fail_at_def err_def make_error_def
        ends_within_def)
  ultimately show ?thesis
    unfolding parse_identifier_def Let_def using assms(2)
    by (auto split: prod.split bool.split dest!: accept_True accept_False
      intro!: well_behaved_then [OF assms(1)])
qed

lemma skip_space_hd: "skip_space s \<noteq> [] \<Longrightarrow> accept c (skip_space s) = (hd (skip_space s) = c, if hd (skip_space s) = c then tl (skip_space s) else skip_space s)"
  by (simp add: accept_def skip_space_def)

lemma parse_primary_ends:
  assumes "well_behaved k self" "8 * length s + 2 \<le> Suc k"
  shows "ends_within (length s - 1) (parse_primary M N self d s)"
proof -
  define r where "r = skip_space s"
  have r: "length r \<le> length s" by (simp add: r_def skip_space_length)
  have "ends_within (length s - 1) (Some (parse_number N r))" if "r \<noteq> []" "is_number_char (hd r)"
    by (rule ends_within_mono [OF parse_number_ends [OF that]]) (use r in simp)
  moreover have "r \<noteq> [] \<Longrightarrow> 8 * (length r - 1) + 6 \<le> k"
    using assms(2) r by (cases r) auto
  moreover have "ends_within (length s - 1) (parse_identifier M N self d r)" if "r \<noteq> []" "is_alpha (hd r)"
    using parse_identifier_ends [OF assms(1), of r M N d] that assms(2) r
    by (auto simp: is_ident_char_def elim: ends_within_mono)
  ultimately show ?thesis
    unfolding parse_primary_def Let_def r_def [symmetric] using assms(2) r
    by (auto simp: skip_space_hd [of s, folded r_def] split: prod.split bool.split
      dest!: accept_True accept_False intro!: well_behaved_then [OF assms(1)])
qed

lemma run_parser_well_behaved: "well_behaved n (run_parser M N n)"
proof (induction n)
  case 0
  have "rank g \<noteq> 0" for g by (cases g) auto
  then have "\<not> rank g \<le> 0" for g by simp
  then show ?case by (auto simp: well_behaved_def simp del: le_zero_eq)
next
  case (Suc n)
  have "ends_within (reach g s) (parse_step M N (run_parser M N n) g d s)"
    if "8 * length s + rank g \<le> Suc n" for g d s
    using that Suc.IH unfolding parse_step_def
    by (cases g; simp only: production.simps rank.simps reach.simps)
       (blast intro: parse_expr_ends parse_expr_loop_ends parse_term_ends parse_term_loop_ends
          parse_unary_ends parse_power_ends parse_primary_ends)+
  then show ?case by (simp add: well_behaved_def)
qed

text \<open>A computation that has ended stays the same when it is given more fuel.\<close>

definition below :: "'a option \<Rightarrow> 'a option \<Rightarrow> bool" where
  "below x y \<longleftrightarrow> x = None \<or> x = y"

lemma below_refl [simp]: "below x x"
  by (simp add: below_def)

lemma below_then: "below x y \<Longrightarrow> (\<And>a. below (f a) (g a)) \<Longrightarrow> below (and_then x f) (and_then y g)"
  by (auto simp: below_def and_then_def split: option.splits sum.splits)

lemma below_case_accept:
  "(\<And>s. below (f s) (f' s)) \<Longrightarrow> (\<And>s. below (g s) (g' s)) \<Longrightarrow>
   below (case x of (True, s) \<Rightarrow> f s | (False, s) \<Rightarrow> g s) (case x of (True, s) \<Rightarrow> f' s | (False, s) \<Rightarrow> g' s)"
  by (auto split: prod.split bool.split)

lemma below_if: "below a a' \<Longrightarrow> below b b' \<Longrightarrow> below (if c then a else b) (if c then a' else b')"
  by simp

lemma below_case_prod:
  "(\<And>v s. below (f v s) (f' v s)) \<Longrightarrow> below (case x of (v, s) \<Rightarrow> f v s) (case x of (v, s) \<Rightarrow> f' v s)"
  by (auto split: prod.split)

lemma below_case_op:
  "(\<And>s. below (f s) (f' s)) \<Longrightarrow> (\<And>c s. below (g c s) (g' c s)) \<Longrightarrow>
   below (case x of (None, s) \<Rightarrow> f s | (Some c, s) \<Rightarrow> g c s)
         (case x of (None, s) \<Rightarrow> f' s | (Some c, s) \<Rightarrow> g' c s)"
  by (auto split: prod.split option.split)

lemmas below_intros = below_if below_case_accept below_case_op below_then below_case_prod below_refl

lemma parse_step_mono:
  assumes "\<And>g d s. below (self g d s) (self' g d s)"
  shows "below (parse_step M N self g d s) (parse_step M N self' g d s)"
proof (cases g)
  case Primary
  have "below (parse_identifier M N self d s) (parse_identifier M N self' d s)" for s
    unfolding parse_identifier_def Let_def by (intro below_intros assms)
  with Primary show ?thesis
    by (simp only: parse_step_def production.simps parse_primary_def Let_def) (intro below_intros assms)
qed (simp only: parse_step_def production.simps parse_expr_def parse_expr_loop_def parse_term_def
    parse_term_loop_def parse_unary_def parse_power_def, intro below_intros assms)+

lemma run_parser_mono: "n \<le> m \<Longrightarrow> below (run_parser M N n g d s) (run_parser M N m g d s)"
proof (induction n arbitrary: m g d s)
  case 0
  then show ?case by (simp add: below_def)
next
  case (Suc n)
  then obtain k where "m = Suc k" "n \<le> k" by (cases m) auto
  with Suc.IH show ?case by (auto intro: parse_step_mono)
qed

definition parse_fully :: "math_lib \<Rightarrow> nat \<Rightarrow> production \<Rightarrow> parser" where
  "parse_fully M N g d s = run_parser M N (8 * length s + rank g) g d s"

lemma run_parser_ends: "8 * length s + rank g \<le> n \<Longrightarrow> ends_within (reach g s) (run_parser M N n g d s)"
  using run_parser_well_behaved [of n M N] by (simp add: well_behavedD)

lemma ends_within_Some: "ends_within k x \<Longrightarrow> x \<noteq> None"
  by (cases x) (simp_all add: ends_within_def)

lemma run_parser_below: "below (run_parser M N n g d s) (parse_fully M N g d s)"
proof -
  let ?m = "8 * length s + rank g"
  have "run_parser M N ?m g d s \<noteq> None"
    by (rule ends_within_Some [OF run_parser_ends]) simp
  then show ?thesis
    using run_parser_mono [of n ?m M N g d s] run_parser_mono [of ?m n M N g d s]
    by (cases "n \<le> ?m") (auto simp: parse_fully_def below_def)
qed

lemma run_parser_full: "8 * length s + rank g \<le> n \<Longrightarrow> run_parser M N n g d s = parse_fully M N g d s"
  using run_parser_below [of M N n g d s] ends_within_Some [OF run_parser_ends [of s g n M N d]]
  by (auto simp: below_def)

text \<open>The equations of the member functions, without fuel.\<close>

lemma parse_fully_step: "parse_fully M N g d s = parse_step M N (parse_fully M N) g d s"
proof -
  let ?n = "8 * length s + rank g"
  have "parse_step M N (run_parser M N ?n) g d s = parse_fully M N g d s"
    using run_parser_full [of s g "Suc ?n" M N d] by simp
  moreover have "parse_fully M N g d s \<noteq> None"
    unfolding parse_fully_def by (rule ends_within_Some [OF run_parser_ends]) simp
  moreover have "below (parse_step M N (run_parser M N ?n) g d s) (parse_step M N (parse_fully M N) g d s)"
    by (rule parse_step_mono) (rule run_parser_below)
  ultimately show ?thesis unfolding below_def by metis
qed

lemma evaluate_expression_fully:
  "evaluate_expression M t =
     (if 4096 < length t then Some (err KInvalidArgument ''expression too long'')
      else and_then (parse_fully M (length t) Expr 0 t)
       (\<lambda>(v, s).
          let s = skip_space s in
          if s \<noteq> [] then
            Some (fail_at (length t) s (''unexpected character '' @ [SQUOTE] @ [hd s] @ [SQUOTE]))
          else if \<not> d_isfinite v then Some (fail_at (length t) s ''result is not a finite number'')
          else Some (Inr v)))"
  by (simp add: evaluate_expression_def parse_text_def parse_fuel_def run_parser_full)

section \<open>Expressions and how they are written\<close>

datatype operator = Plus | Minus | Times | Divide | Modulo | Raise

datatype expression =
  Lit nat | Neg expression | Bin operator expression expression | Fn string expression

definition function_names :: "string list" where
  "function_names =
     [''sqrt'', ''abs'', ''sin'', ''cos'', ''tan'', ''exp'', ''floor'', ''ceil'', ''log'', ''log10'']"

fun op_char :: "operator \<Rightarrow> char" where
  "op_char Plus = CHR ''+''"
| "op_char Minus = CHR ''-''"
| "op_char Times = CHR ''*''"
| "op_char Divide = CHR ''/''"
| "op_char Modulo = CHR ''%''"
| "op_char Raise = CHR ''^''"

text \<open>
  The usual precedences: sums bind weakest (1), then products (2), signs (3) and powers (4).  Sums
  and products associate to the left, powers to the right; the exponent may carry a sign, the
  base may not.
\<close>

fun op_level :: "operator \<Rightarrow> nat" where
  "op_level Plus = 1"
| "op_level Minus = 1"
| "op_level Times = 2"
| "op_level Divide = 2"
| "op_level Modulo = 2"
| "op_level Raise = 4"

definition left_level :: "operator \<Rightarrow> nat" where
  "left_level b = (if b = Raise then 5 else op_level b)"

definition right_level :: "operator \<Rightarrow> nat" where
  "right_level b = (if b = Raise then 3 else Suc (op_level b))"

definition bracket :: "bool \<Rightarrow> string \<Rightarrow> string" where
  "bracket b s = (if b then ''('' @ s @ '')'' else s)"

text \<open>Written with only the brackets that are needed in a place of level \<open>p\<close>.\<close>

fun render :: "nat \<Rightarrow> expression \<Rightarrow> string" where
  "render p (Lit n) = nat_to_string n"
| "render p (Neg a) = bracket (3 < p) (''-'' @ render 3 a)"
| "render p (Bin b l r) =
     bracket (op_level b < p) (render (left_level b) l @ op_char b # render (right_level b) r)"
| "render p (Fn f a) = f @ ''('' @ render 1 a @ '')''"

fun well_formed :: "expression \<Rightarrow> bool" where
  "well_formed (Lit n) \<longleftrightarrow> True"
| "well_formed (Neg a) \<longleftrightarrow> well_formed a"
| "well_formed (Bin b l r) \<longleftrightarrow> well_formed l \<and> well_formed r"
| "well_formed (Fn f a) \<longleftrightarrow> f \<in> set function_names \<and> well_formed a"

fun nesting :: "expression \<Rightarrow> nat" where
  "nesting (Lit n) = 1"
| "nesting (Neg a) = 2 + nesting a"
| "nesting (Bin b l r) = 2 + max (nesting l) (nesting r)"
| "nesting (Fn f a) = 2 + nesting a"

fun op_value :: "math_lib \<Rightarrow> operator \<Rightarrow> double \<Rightarrow> double \<Rightarrow> double option" where
  "op_value M Plus a b = Some (d_add a b)"
| "op_value M Minus a b = Some (d_sub a b)"
| "op_value M Times a b = Some (d_mul a b)"
| "op_value M Divide a b = (if d_eq b d_zero then None else Some (d_div a b))"
| "op_value M Modulo a b = (if d_eq b d_zero then None else Some (d_fmod a b))"
| "op_value M Raise a b = Some (m_pow M a b)"

text \<open>The value, \<^const>\<open>None\<close> where a division by zero or a domain error occurs.\<close>

fun expr_value :: "math_lib \<Rightarrow> expression \<Rightarrow> double option" where
  "expr_value M (Lit n) = Some (mk_double False (of_nat n))"
| "expr_value M (Neg a) = map_option d_neg (expr_value M a)"
| "expr_value M (Bin b l r) =
     (case expr_value M l of None \<Rightarrow> None | Some x \<Rightarrow>
      case expr_value M r of None \<Rightarrow> None | Some y \<Rightarrow> op_value M b x y)"
| "expr_value M (Fn f a) =
     (case expr_value M a of None \<Rightarrow> None | Some x \<Rightarrow>
      case apply_function M 0 [] f x of Inr y \<Rightarrow> Some y | Inl e \<Rightarrow> None)"

section \<open>Reading back what was written\<close>

definition yields :: "(double \<times> string) result option \<Rightarrow> double option \<Rightarrow> string \<Rightarrow> bool" where
  "yields x v r \<longleftrightarrow>
     (case v of Some v \<Rightarrow> x = Some (Inr (v, r)) | None \<Rightarrow> \<exists>e. x = Some (Inl e))"

lemma yields_Some [simp]: "yields x (Some v) r \<longleftrightarrow> x = Some (Inr (v, r))"
  and yields_None [simp]: "yields x None r \<longleftrightarrow> (\<exists>e. x = Some (Inl e))"
  by (simp_all add: yields_def)

lemma and_then_simps [simp]:
  "and_then (Some (Inr a)) f = f a" "and_then (Some (Inl e)) f = Some (Inl e)"
  by (simp_all add: and_then_def)

text \<open>
  What may follow a phrase of each level: the end, a closing bracket, and the operators that bind
  more weakly.
\<close>

definition follows :: "string \<Rightarrow> string \<Rightarrow> bool" where
  "follows cs r \<longleftrightarrow> r = [] \<or> hd r \<in> set cs"

abbreviation "after_sum \<equiv> follows '')+-''"
abbreviation "after_product \<equiv> follows '')+-*/%''"
abbreviation "after_primary \<equiv> follows '')+-*/%^''"

lemma after_mono: "after_sum r \<Longrightarrow> after_product r" "after_product r \<Longrightarrow> after_primary r"
  "after_sum r \<Longrightarrow> after_primary r"
  by (auto simp: follows_def)

lemma accept_here:
  "accept c (c # r) = (if c = SP \<or> c = TAB then accept c r else (True, r))"
  by (auto simp: accept_def skip_space_def Let_def)

lemma accept_other:
  "r = [] \<or> (hd r \<noteq> c \<and> hd r \<noteq> SP \<and> hd r \<noteq> TAB) \<Longrightarrow> accept c r = (False, r)"
  by (cases r) (auto simp: accept_def skip_space_def Let_def)

lemma accept_follows:
  assumes "follows cs r" "SP \<notin> set cs" "TAB \<notin> set cs" "c \<notin> set cs"
  shows "accept c r = (False, r)"
  by (rule accept_other) (use assms in \<open>auto simp: follows_def\<close>)

lemma term_op_follows: "after_sum r \<Longrightarrow> term_op r = (None, r)"
  by (simp add: term_op_def accept_follows)

definition sum_start :: "math_lib \<Rightarrow> nat \<Rightarrow> parser" where
  "sum_start M N d s =
     and_then (parse_fully M N Term d s) (\<lambda>(lhs, s). parse_fully M N (ExprLoop lhs) d s)"

definition product_start :: "math_lib \<Rightarrow> nat \<Rightarrow> parser" where
  "product_start M N d s =
     and_then (parse_fully M N Unary d s) (\<lambda>(lhs, s). parse_fully M N (TermLoop lhs) d s)"

definition continues ::
  "(double \<times> string) result option \<Rightarrow> (double \<Rightarrow> (double \<times> string) result option) \<Rightarrow> double option \<Rightarrow> bool" where
  "continues x k v \<longleftrightarrow> (case v of Some v \<Rightarrow> x = k v | None \<Rightarrow> \<exists>e. x = Some (Inl e))"

lemma continues_simps [simp]: "continues x k (Some v) \<longleftrightarrow> x = k v"
  "continues x k None \<longleftrightarrow> (\<exists>e. x = Some (Inl e))"
  by (simp_all add: continues_def)

definition reads_sum :: "math_lib \<Rightarrow> nat \<Rightarrow> nat \<Rightarrow> expression \<Rightarrow> bool" where
  "reads_sum M N d a \<longleftrightarrow>
     (\<forall>r. after_sum r \<longrightarrow>
        continues (sum_start M N d (render 1 a @ r)) (\<lambda>v. parse_fully M N (ExprLoop v) d r) (expr_value M a))"

definition reads_product :: "math_lib \<Rightarrow> nat \<Rightarrow> nat \<Rightarrow> expression \<Rightarrow> bool" where
  "reads_product M N d a \<longleftrightarrow>
     (\<forall>r. after_product r \<longrightarrow>
        continues (product_start M N d (render 2 a @ r)) (\<lambda>v. parse_fully M N (TermLoop v) d r) (expr_value M a))"

definition reads_unary :: "math_lib \<Rightarrow> nat \<Rightarrow> nat \<Rightarrow> expression \<Rightarrow> bool" where
  "reads_unary M N d a \<longleftrightarrow>
     (\<forall>r. after_product r \<longrightarrow> yields (parse_fully M N Unary d (render 3 a @ r)) (expr_value M a) r)"

definition reads_primary :: "math_lib \<Rightarrow> nat \<Rightarrow> nat \<Rightarrow> expression \<Rightarrow> bool" where
  "reads_primary M N d a \<longleftrightarrow>
     (\<forall>r. after_primary r \<longrightarrow> yields (parse_fully M N Primary d (render 5 a @ r)) (expr_value M a) r)"

text \<open>The equations the proofs use.\<close>

lemma P_Expr: "d < max_depth \<Longrightarrow> parse_fully M N Expr d s = sum_start M N (Suc d) s"
  by (subst parse_fully_step) (simp add: parse_step_def parse_expr_def sum_start_def)

lemma P_Term: "parse_fully M N Term d s = product_start M N d s"
  by (subst parse_fully_step) (simp add: parse_step_def parse_term_def product_start_def)

lemma P_sum_end: "follows '')'' r \<Longrightarrow> parse_fully M N (ExprLoop v) d r = Some (Inr (v, r))"
  by (subst parse_fully_step) (simp add: parse_step_def parse_expr_loop_def accept_follows)

lemma P_sum_more:
  "parse_fully M N (ExprLoop v) d (CHR ''+'' # s) =
     and_then (parse_fully M N Term d s) (\<lambda>(rhs, s). parse_fully M N (ExprLoop (d_add v rhs)) d s)"
  "parse_fully M N (ExprLoop v) d (CHR ''-'' # s) =
     and_then (parse_fully M N Term d s) (\<lambda>(rhs, s). parse_fully M N (ExprLoop (d_sub v rhs)) d s)"
  by (subst parse_fully_step, simp add: parse_step_def parse_expr_loop_def accept_here accept_other)+

lemma P_product_end: "after_sum r \<Longrightarrow> parse_fully M N (TermLoop v) d r = Some (Inr (v, r))"
  by (subst parse_fully_step) (simp add: parse_step_def parse_term_loop_def term_op_follows)

lemma P_product_more:
  assumes "b \<in> {Times, Divide, Modulo}"
  shows "parse_fully M N (TermLoop v) d (op_char b # s) =
     and_then (parse_fully M N Unary d s)
       (\<lambda>(rhs, s). case op_value M b v rhs of
          None \<Rightarrow> Some (fail_at N s ''division by zero'')
        | Some w \<Rightarrow> parse_fully M N (TermLoop w) d s)"
proof -
  have top: "term_op (op_char b # s) = (Some (op_char b), s)"
    using assms by (auto simp: term_op_def accept_here accept_other)
  show ?thesis
    using assms by (subst parse_fully_step)
      (auto simp: parse_step_def parse_term_loop_def top apply_term_op_def
        intro!: arg_cong2 [where f = and_then])
qed

lemma P_sign: "d < max_depth \<Longrightarrow>
  parse_fully M N Unary d (CHR ''-'' # s) =
    and_then (parse_fully M N Unary (Suc d) s) (\<lambda>(v, s). Some (Inr (d_neg v, s)))"
  by (subst parse_fully_step) (simp add: parse_step_def parse_unary_def accept_here)

definition plain_start :: "string \<Rightarrow> bool" where
  "plain_start s \<longleftrightarrow> s \<noteq> [] \<and> hd s \<notin> {CHR ''+'', CHR ''-'', SP, TAB}"

lemma P_unsigned: "d < max_depth \<Longrightarrow> plain_start s \<Longrightarrow>
  parse_fully M N Unary d s = parse_fully M N Power (Suc d) s"
  by (subst parse_fully_step) (simp add: parse_step_def parse_unary_def accept_other plain_start_def)

lemma P_Power:
  "parse_fully M N Power d s =
     and_then (parse_fully M N Primary d s)
       (\<lambda>(base, s).
          case accept (CHR ''^'') s of
            (True, s) \<Rightarrow>
              and_then (parse_fully M N Unary d s) (\<lambda>(exponent, s). Some (Inr (m_pow M base exponent, s)))
          | (False, s) \<Rightarrow> Some (Inr (base, s)))"
  by (subst parse_fully_step) (simp add: parse_step_def parse_power_def)

lemma P_bracket:
  "parse_fully M N Primary d (CHR ''('' # s) =
     and_then (parse_fully M N Expr d s)
       (\<lambda>(inner, s).
          case accept (CHR '')'') s of
            (True, s) \<Rightarrow> Some (Inr (inner, s))
          | (False, s) \<Rightarrow> Some (fail_at N s (''expected '' @ [SQUOTE] @ '')'' @ [SQUOTE])))"
  by (subst parse_fully_step)
     (simp add: parse_step_def parse_primary_def accept_here skip_space_def)

lemma after_primary_hd:
  "after_primary r \<Longrightarrow> r = [] \<or> (\<not> is_number_char (hd r) \<and> hd r \<noteq> CHR ''e'' \<and> hd r \<noteq> CHR ''E'')"
  by (auto simp: follows_def is_number_char_def is_digit_def byte_def)

lemma parse_number_numeral:
  assumes "after_primary r"
  shows "parse_number N (nat_to_string n @ r) = Inr (mk_double False (of_nat n), r)"
proof -
  have dig: "\<forall>c \<in> set (nat_to_string n). is_number_char c"
    using nat_to_string_digits [of n] by (auto simp: is_number_char_def)
  have "takeWhile is_number_char (nat_to_string n @ r) = nat_to_string n"
    "dropWhile is_number_char (nat_to_string n @ r) = r"
    using dig after_primary_hd [OF assms]
    by (cases r; auto simp: takeWhile_append dropWhile_append takeWhile_eq_all_conv)+
  moreover have "exponent_part r = ([], r)"
    using after_primary_hd [OF assms] by (auto simp: exponent_part_def)
  ultimately show ?thesis by (simp add: parse_number_def strtod_nat_to_string)
qed

lemma P_numeral:
  assumes "after_primary r"
  shows "parse_fully M N Primary d (nat_to_string n @ r) = Some (Inr (mk_double False (of_nat n), r))"
proof -
  let ?s = "nat_to_string n @ r"
  have hd: "is_digit (hd ?s)" "?s \<noteq> []" using hd_nat_to_string [of n] by simp_all
  then have "hd ?s \<noteq> SP" "hd ?s \<noteq> TAB" "hd ?s \<noteq> CHR ''(''" by (auto simp: is_digit_def byte_def)
  with hd(2) have "skip_space ?s = ?s" "accept (CHR ''('') ?s = (False, ?s)"
    by (cases ?s; simp add: skip_space_def accept_other)+
  with hd show ?thesis
    by (subst parse_fully_step)
       (simp add: parse_step_def parse_primary_def is_number_char_def parse_number_numeral [OF assms])
qed

lemma function_name_chars:
  assumes "f \<in> set function_names"
  shows "f \<noteq> []" "list_all is_ident_char f" "is_alpha (hd f)" "f \<noteq> ''pi''" "f \<noteq> ''e''"
  using assms by (auto simp: function_names_def is_ident_char_def is_alpha_def is_digit_def byte_def)

lemma P_call:
  assumes f: "f \<in> set function_names"
  shows "parse_fully M N Primary d (f @ CHR ''('' # s) =
    and_then (parse_fully M N Expr d s)
      (\<lambda>(arg, s).
         case accept (CHR '')'') s of
           (False, s) \<Rightarrow> Some (fail_at N s (''expected '' @ [SQUOTE] @ '')'' @ [SQUOTE]))
         | (True, s) \<Rightarrow> Some (bind_result (apply_function M N s f arg) (\<lambda>v. Inr (v, s))))"
proof -
  let ?s = "f @ CHR ''('' # s"
  note chars = function_name_chars [OF f]
  have name: "takeWhile is_ident_char ?s = f" "dropWhile is_ident_char ?s = CHR ''('' # s"
    using chars(2) by (auto simp: takeWhile_append dropWhile_append takeWhile_eq_all_conv list_all_iff
        is_ident_char_def is_alpha_def is_digit_def byte_def)
  have hd: "hd ?s = hd f" "?s \<noteq> []" using chars(1) by simp_all
  have nopen: "hd f \<noteq> SP" "hd f \<noteq> TAB" "hd f \<noteq> CHR ''(''" "\<not> is_number_char (hd f)"
    using chars(3) by (auto simp: is_number_char_def is_alpha_def is_digit_def byte_def)
  then have "skip_space ?s = ?s" "accept (CHR ''('') ?s = (False, ?s)"
    using hd by (simp_all add: accept_other) (cases f; simp add: skip_space_def)
  then show ?thesis
    using hd nopen chars
    by (subst parse_fully_step)
       (simp add: parse_step_def parse_primary_def parse_identifier_def name accept_here)
qed

lemma apply_function_place:
  "case apply_function M 0 [] f x of
     Inr y \<Rightarrow> apply_function M N s f x = Inr y
   | Inl e \<Rightarrow> \<exists>e'. apply_function M N s f x = Inl e'"
  by (simp add: apply_function_def fail_at_def err_def)

subsection \<open>From one level to another\<close>

lemma expr_of_sum:
  assumes "reads_sum M N (Suc d) a" "d < max_depth" "follows '')'' r"
  shows "yields (parse_fully M N Expr d (render 1 a @ r)) (expr_value M a) r"
proof -
  from assms(3) have "after_sum r" by (auto simp: follows_def)
  with assms(1) P_sum_end [OF assms(3)] show ?thesis
    by (cases "expr_value M a") (auto simp: reads_sum_def P_Expr [OF assms(2)])
qed

lemma term_of_product:
  assumes "reads_product M N d a" "after_sum r"
  shows "yields (parse_fully M N Term d (render 2 a @ r)) (expr_value M a) r"
  using assms P_product_end [OF assms(2)] after_mono(1) [OF assms(2)]
  by (cases "expr_value M a") (auto simp: reads_product_def P_Term)

lemma sum_of_product:
  assumes "reads_product M N d a" "render 1 a = render 2 a"
  shows "reads_sum M N d a"
  unfolding reads_sum_def
proof (intro allI impI)
  fix r
  assume "after_sum r"
  from term_of_product [OF assms(1) this] assms(2)
  show "continues (sum_start M N d (render 1 a @ r)) (\<lambda>v. parse_fully M N (ExprLoop v) d r) (expr_value M a)"
    by (cases "expr_value M a") (auto simp: sum_start_def)
qed

lemma product_of_unary:
  assumes "reads_unary M N d a" "render 2 a = render 3 a"
  shows "reads_product M N d a"
  unfolding reads_product_def
proof (intro allI impI)
  fix r
  assume "after_product r"
  with assms show "continues (product_start M N d (render 2 a @ r))
      (\<lambda>v. parse_fully M N (TermLoop v) d r) (expr_value M a)"
    by (cases "expr_value M a") (auto simp: product_start_def reads_unary_def)
qed

lemma unary_of_primary:
  assumes "reads_primary M N (Suc d) a" "render 3 a = render 5 a" "d < max_depth" "plain_start (render 5 a)"
  shows "reads_unary M N d a"
  unfolding reads_unary_def
proof (intro allI impI)
  fix r
  assume r: "after_product r"
  then have "accept (CHR ''^'') r = (False, r)" by (simp add: accept_follows)
  moreover have "plain_start (render 5 a @ r)" using assms(4) by (simp add: plain_start_def)
  ultimately show "yields (parse_fully M N Unary d (render 3 a @ r)) (expr_value M a) r"
    using assms(1,2) after_mono(2) [OF r]
    by (cases "expr_value M a") (auto simp: reads_primary_def P_unsigned [OF assms(3)] P_Power)
qed

lemma primary_of_sum:
  assumes "reads_sum M N (Suc d) a" "render 5 a = bracket True (render 1 a)" "d < max_depth"
  shows "reads_primary M N d a"
  unfolding reads_primary_def
proof (intro allI impI)
  fix r
  have "follows '')'' (CHR '')'' # r)" by (simp add: follows_def)
  from expr_of_sum [OF assms(1,3) this]
  show "yields (parse_fully M N Primary d (render 5 a @ r)) (expr_value M a) r"
    by (cases "expr_value M a") (auto simp: assms(2) bracket_def P_bracket accept_here)
qed

definition reads_all :: "math_lib \<Rightarrow> nat \<Rightarrow> nat \<Rightarrow> expression \<Rightarrow> bool" where
  "reads_all M N d a \<longleftrightarrow>
     reads_sum M N d a \<and> reads_product M N d a \<and> reads_unary M N d a \<and> reads_primary M N d a"

text \<open>A phrase of each natural level is read at every level, from two levels of nesting.\<close>

lemma all_of_primary:
  assumes "reads_primary M N d a" "reads_primary M N (Suc d) a" "d < max_depth"
    and "render 1 a = render 5 a" "render 2 a = render 5 a" "render 3 a = render 5 a"
    and "plain_start (render 5 a)"
  shows "reads_all M N d a"
proof -
  have "reads_unary M N d a" using assms by (intro unary_of_primary) simp_all
  moreover from this have "reads_product M N d a" using assms by (intro product_of_unary) simp_all
  moreover from this have "reads_sum M N d a" using assms by (intro sum_of_product) simp_all
  ultimately show ?thesis using assms(1) by (simp add: reads_all_def)
qed

lemma plain_start_bracket: "plain_start (bracket True s)"
  by (simp add: plain_start_def bracket_def)

lemma all_of_unary:
  assumes "reads_unary M N d a" "reads_unary M N (Suc d) a" "d < max_depth"
    and "render 1 a = render 3 a" "render 2 a = render 3 a" "render 5 a = bracket True (render 1 a)"
  shows "reads_all M N d a"
proof -
  have sum: "reads_sum M N d' a" "reads_product M N d' a" if "reads_unary M N d' a" for d'
    using product_of_unary [OF that] sum_of_product [of M N d' a] assms(4,5) by simp_all
  from primary_of_sum [OF sum(1) [OF assms(2)] assms(6,3)] sum [OF assms(1)] assms(1)
  show ?thesis by (simp add: reads_all_def)
qed

lemma all_of_sum:
  assumes "reads_sum M N d a" "reads_sum M N (Suc d) a" "reads_sum M N (Suc (Suc d)) a"
    and "Suc d < max_depth"
    and "render 3 a = render 5 a" "render 5 a = bracket True (render 1 a)"
    and "reads_product M N d a \<or> render 2 a = render 3 a"
  shows "reads_all M N d a"
proof -
  have "reads_unary M N d a"
    using primary_of_sum [OF assms(3,6,4)] assms(4-6) plain_start_bracket
    by (intro unary_of_primary) simp_all
  moreover from this have "reads_product M N d a" using assms(7) product_of_unary by blast
  moreover have "reads_primary M N d a" using primary_of_sum [OF assms(2,6)] assms(4) by simp
  ultimately show ?thesis using assms(1) by (simp add: reads_all_def)
qed

subsection \<open>The phrases themselves\<close>

lemma reads_primary_Lit: "reads_primary M N d (Lit n)"
  by (simp add: reads_primary_def P_numeral)

lemma plain_start_Lit: "plain_start (nat_to_string n @ r)"
  using hd_nat_to_string [of n] by (auto simp: plain_start_def is_digit_def byte_def)

lemma reads_primary_Fn:
  assumes "reads_sum M N (Suc d) a" "d < max_depth" "f \<in> set function_names"
  shows "reads_primary M N d (Fn f a)"
  unfolding reads_primary_def
proof (intro allI impI)
  fix r
  have "follows '')'' (CHR '')'' # r)" by (simp add: follows_def)
  note arg = expr_of_sum [OF assms(1,2) this]
  show "yields (parse_fully M N Primary d (render 5 (Fn f a) @ r)) (expr_value M (Fn f a)) r"
  proof (cases "expr_value M a")
    case None
    with arg show ?thesis by (auto simp: P_call [OF assms(3)])
  next
    case (Some x)
    with arg apply_function_place [of M N r f x] show ?thesis
      by (auto simp: P_call [OF assms(3)] accept_here bind_result_def split: sum.splits)
  qed
qed

lemma reads_unary_Neg:
  assumes "reads_unary M N (Suc d) a" "d < max_depth"
  shows "reads_unary M N d (Neg a)"
  using assms(1)
  by (auto simp: reads_unary_def bracket_def P_sign [OF assms(2)] yields_def split: option.splits)

lemma reads_unary_Raise:
  assumes "reads_primary M N (Suc d) a" "reads_unary M N (Suc d) b" "d < max_depth"
    and "plain_start (render 5 a)"
  shows "reads_unary M N d (Bin Raise a b)"
  unfolding reads_unary_def
proof (intro allI impI)
  fix r
  assume r: "after_product r"
  let ?s = "render 5 a @ CHR ''^'' # render 3 b @ r"
  have "plain_start ?s" using assms(4) by (simp add: plain_start_def)
  moreover have "after_primary (CHR ''^'' # render 3 b @ r)" by (simp add: follows_def)
  with assms(1) have "yields (parse_fully M N Primary (Suc d) ?s) (expr_value M a) (CHR ''^'' # render 3 b @ r)"
    by (simp add: reads_primary_def)
  moreover from assms(2) r have "yields (parse_fully M N Unary (Suc d) (render 3 b @ r)) (expr_value M b) r"
    by (simp add: reads_unary_def)
  ultimately show "yields (parse_fully M N Unary d (render 3 (Bin Raise a b) @ r))
      (expr_value M (Bin Raise a b)) r"
    by (auto simp: bracket_def left_level_def right_level_def P_unsigned [OF assms(3)] P_Power
        accept_here yields_def split: option.splits)
qed

lemma reads_product_Bin:
  assumes "reads_product M N d a" "reads_unary M N d b" "op \<in> {Times, Divide, Modulo}"
  shows "reads_product M N d (Bin op a b)"
  unfolding reads_product_def
proof (intro allI impI)
  fix r
  assume r: "after_product r"
  have "after_product (op_char op # render 3 b @ r)" using assms(3) by (auto simp: follows_def)
  with assms(1) have "continues (product_start M N d (render 2 a @ op_char op # render 3 b @ r))
      (\<lambda>v. parse_fully M N (TermLoop v) d (op_char op # render 3 b @ r)) (expr_value M a)"
    by (simp add: reads_product_def)
  moreover from assms(2) r have "yields (parse_fully M N Unary d (render 3 b @ r)) (expr_value M b) r"
    by (simp add: reads_unary_def)
  moreover have "render 2 (Bin op a b) = render 2 a @ op_char op # render 3 b"
    using assms(3) by (auto simp: bracket_def left_level_def right_level_def numeral_3_eq_3 numeral_2_eq_2)
  ultimately show "continues (product_start M N d (render 2 (Bin op a b) @ r))
      (\<lambda>v. parse_fully M N (TermLoop v) d r) (expr_value M (Bin op a b))"
    by (auto simp: continues_def yields_def P_product_more [OF assms(3)] fail_at_def err_def split: option.splits)
qed

lemma reads_sum_Bin:
  assumes "reads_sum M N d a" "reads_product M N d b" "op \<in> {Plus, Minus}"
  shows "reads_sum M N d (Bin op a b)"
  unfolding reads_sum_def
proof (intro allI impI)
  fix r
  assume r: "after_sum r"
  have "after_sum (op_char op # render 2 b @ r)" using assms(3) by (auto simp: follows_def)
  with assms(1) have "continues (sum_start M N d (render 1 a @ op_char op # render 2 b @ r))
      (\<lambda>v. parse_fully M N (ExprLoop v) d (op_char op # render 2 b @ r)) (expr_value M a)"
    by (simp add: reads_sum_def)
  moreover from term_of_product [OF assms(2) r]
  have "yields (parse_fully M N Term d (render 2 b @ r)) (expr_value M b) r" .
  moreover have "render 1 (Bin op a b) = render 1 a @ op_char op # render 2 b"
    using assms(3) by (auto simp: bracket_def left_level_def right_level_def numeral_2_eq_2)
  ultimately show "continues (sum_start M N d (render 1 (Bin op a b) @ r))
      (\<lambda>v. parse_fully M N (ExprLoop v) d r) (expr_value M (Bin op a b))"
    using assms(3) by (auto simp: continues_def yields_def P_sum_more split: option.splits)
qed

lemma plain_start_render: "well_formed a \<Longrightarrow> plain_start (render 5 a)"
proof (cases a)
  case (Lit n)
  then show ?thesis using plain_start_Lit [of n "[]"] by simp
next
  case (Fn f b)
  assume "well_formed a"
  with Fn have "f \<in> set function_names" by simp
  then have "f \<noteq> []" "is_alpha (hd f)" by (rule function_name_chars)+
  with Fn show ?thesis by (auto simp: plain_start_def is_alpha_def byte_def)
next
  case (Bin b l r)
  then show ?thesis by (cases b) (simp_all add: plain_start_def bracket_def)
qed (simp add: plain_start_def bracket_def)

lemma reads_all_expression:
  "well_formed a \<Longrightarrow> d + nesting a \<le> max_depth \<Longrightarrow> reads_all M N d a"
proof (induction a arbitrary: d)
  case (Lit n)
  then show ?case using plain_start_Lit [of n "[]"] by (intro all_of_primary reads_primary_Lit) simp_all
next
  case (Neg a)
  then have "reads_all M N (Suc d) a" "reads_all M N (Suc (Suc d)) a" by simp_all
  then show ?case using Neg.prems
    by (intro all_of_unary reads_unary_Neg) (simp_all add: reads_all_def bracket_def)
next
  case (Fn f a)
  then have "reads_all M N (Suc d) a" "reads_all M N (Suc (Suc d)) a" by simp_all
  then show ?case using Fn.prems plain_start_render [of "Fn f a"]
    by (intro all_of_primary reads_primary_Fn) (simp_all add: reads_all_def)
next
  case (Bin op a b)
  have a: "reads_all M N d' a" and b: "reads_all M N d' b" if "d' \<le> Suc (Suc d)" for d'
    using Bin that by simp_all
  have d: "Suc d < max_depth" using Bin.prems by (cases a) auto
  show ?case
  proof (cases "op = Raise")
    case True
    then show ?thesis using a b d Bin.prems
      by (simp only:) (intro all_of_unary reads_unary_Raise;
        simp add: reads_all_def bracket_def plain_start_render)
  next
    case raise: False
    show ?thesis
    proof (cases "op_level op = 1")
      case True
      with raise have "op \<in> {Plus, Minus}" by (cases op) auto
      then show ?thesis using a b d
        by (intro all_of_sum reads_sum_Bin; auto simp: reads_all_def bracket_def)
    next
      case False
      with raise have op: "op \<in> {Times, Divide, Modulo}" by (cases op) auto
      have prod: "reads_product M N d' (Bin op a b)" if "d' \<le> Suc (Suc d)" for d'
        using a [OF that] b [OF that] op by (intro reads_product_Bin) (auto simp: reads_all_def)
      then have "reads_sum M N d' (Bin op a b)" if "d' \<le> Suc (Suc d)" for d'
        using that op by (intro sum_of_product) (auto simp: bracket_def)
      with prod show ?thesis using d op by (intro all_of_sum) (auto simp: bracket_def)
    qed
  qed
qed

lemma evaluate_expression_ends:
  "(\<exists>s q. evaluate_expression M t = Some (Inr (Fin s q))) \<or>
   (\<exists>e. evaluate_expression M t = Some (Inl (Failed e)) \<and> code e = KInvalidArgument)"
proof -
  let ?x = "parse_fully M (length t) Expr 0 t"
  have "ends_within (length t - 1) ?x"
    unfolding parse_fully_def using run_parser_ends [of t Expr "8 * length t + rank Expr" M] by simp
  then consider v r where "?x = Some (Inr (v, r))" | e where "?x = Some (Inl (Failed e))" "code e = KInvalidArgument"
    by (auto simp: ends_within_def split: option.splits sum.splits failure.splits)
  then show ?thesis
  proof cases
    case (1 v r)
    then show ?thesis
      by (cases v) (auto simp: evaluate_expression_fully Let_def fail_at_def err_def make_error_def)
  qed (simp add: evaluate_expression_fully err_def make_error_def)
qed

section \<open>Properties\<close>

text \<open>
  C5: the evaluator implements the usual arithmetic: an expression written with only the brackets it
  needs (sums and products associate to the left, powers to the right and bind more tightly than
  signs) is read back and evaluated to its value, if that is finite; and when a division by zero, a
  root or logarithm outside its domain or an overflow occurs anywhere, the result is an error.
\<close>

theorem evaluate_expression_correct:
  assumes "well_formed a" "nesting a < max_depth" "length (render 1 a) \<le> 4096"
  shows "case expr_value M a of
           Some v \<Rightarrow> (if d_isfinite v then evaluate_expression M (render 1 a) = Some (Inr v)
                      else \<exists>e. evaluate_expression M (render 1 a) = Some (Inl e))
         | None \<Rightarrow> \<exists>e. evaluate_expression M (render 1 a) = Some (Inl e)"
proof -
  have "reads_all M (length (render 1 a)) 1 a"
    using assms(1,2) by (intro reads_all_expression) simp_all
  then have "reads_sum M (length (render 1 a)) (Suc 0) a" by (simp add: reads_all_def)
  from expr_of_sum [OF this, of "[]"] assms(2)
  have "yields (parse_fully M (length (render 1 a)) Expr 0 (render 1 a)) (expr_value M a) []"
    by (simp add: follows_def max_depth_def)
  with assms(3) show ?thesis
    by (auto simp: evaluate_expression_fully yields_def skip_space_def fail_at_def err_def split: option.splits)
qed

definition no_math :: math_lib where
  "no_math =
     \<lparr>m_pow = (\<lambda>_ _. NaN), m_sqrt = (\<lambda>_. NaN), m_sin = (\<lambda>_. NaN), m_cos = (\<lambda>_. NaN),
      m_tan = (\<lambda>_. NaN), m_exp = (\<lambda>_. NaN), m_log = (\<lambda>_. NaN), m_log10 = (\<lambda>_. NaN)\<rparr>"

theorem evaluate_expression_correct_witness:
  "evaluate_expression no_math ''7-(1-3)*-2'' = Some (Inr (Fin False 3))"
proof -
  let ?a = "Bin Minus (Lit 7) (Bin Times (Bin Minus (Lit 1) (Lit 3)) (Neg (Lit 2)))"
  have "render 1 ?a = ''7-(1-3)*-2''" by code_simp
  moreover have "mk_double b 1 = Fin b 1" "mk_double b 2 = Fin b 2" "mk_double b 3 = Fin b 3"
    "mk_double b 4 = Fin b 4" "mk_double b 7 = Fin b 7" for b
    using mk_double_nat [of 1 b] mk_double_nat [of 2 b] mk_double_nat [of 3 b] mk_double_nat [of 4 b]
      mk_double_nat [of 7 b] by simp_all
  then have "expr_value no_math ?a = Some (Fin False 3)"
    by (simp add: d_sub_def double_of_rat_def signed_val_def)
  moreover have "nesting ?a < max_depth" by (simp add: max_depth_def)
  ultimately show ?thesis
    using evaluate_expression_correct [of ?a no_math] by simp
qed

text \<open>
  C8: the evaluator is total on every text, however deeply nested: it returns a finite number or an
  \<^verbatim>\<open>invalid_argument\<close> error, never an exception, and the fuel of the model always suffices.
\<close>

theorem evaluate_expression_total:
  "(\<exists>s q. evaluate_expression M t = Some (Inr (Fin s q))) \<or>
   (\<exists>e. evaluate_expression M t = Some (Inl (Failed e)) \<and> code e = KInvalidArgument)"
  by (rule evaluate_expression_ends)

end
