(* ===== verification/Tools.thy ===== *)
theory Tools
  imports Json Types Expression Wall_Clock
begin

text \<open>
  \<^verbatim>\<open>include/gemini/tools.hpp\<close> and \<^verbatim>\<open>src/tools.cpp\<close>: the registry of tools and the built-in ones.

  A handler is a function on the arguments and the state \<^typ>\<open>'w\<close> of the world.  It returns a value
  or an error, or it is left by an exception, derived from \<^verbatim>\<open>std::exception\<close> or not.
\<close>

section \<open>The registry\<close>

datatype 'j tool_outcome =
  ToolValue 'j | ToolError error | ToolException string | ToolForeignException

type_synonym ('j, 'w) tool_handler = "'j \<Rightarrow> 'w \<Rightarrow> 'j tool_outcome \<times> 'w"

type_synonym ('j, 'w) tool_registry = "('j function_declaration \<times> ('j, 'w) tool_handler) list"

definition add_tool ::
  "('j, 'w) tool_registry \<Rightarrow> 'j function_declaration \<Rightarrow> ('j, 'w) tool_handler \<Rightarrow> ('j, 'w) tool_registry" where
  "add_tool reg d h = reg @ [(d, h)]"

definition declarations :: "('j, 'w) tool_registry \<Rightarrow> 'j function_declaration list" where
  "declarations reg = map fst reg"

definition error_object :: "'j json_lib \<Rightarrow> string \<Rightarrow> 'j" where
  "error_object J m = json_object J [(''error'', json_string J m)]"

text \<open>The body of the loop of \<^verbatim>\<open>invoke\<close> for the tool that was found.\<close>

definition run_tool ::
  "'j json_lib \<Rightarrow> ('j, 'w) tool_handler \<Rightarrow> 'j \<Rightarrow> 'w \<Rightarrow> 'j result \<times> 'w" where
  "run_tool J h args w =
     (case h args w of
        (ToolValue v, w) \<Rightarrow> (Inr (if json_is_object J v then v else json_object J [(''result'', v)]), w)
      | (ToolError e, w) \<Rightarrow> (Inr (error_object J (message e)), w)
      | (ToolException what, w) \<Rightarrow> (Inr (error_object J (''tool threw: '' @ what)), w)
      | (ToolForeignException, w) \<Rightarrow> (Inl (Thrown ''not a std::exception''), w))"

fun invoke ::
  "'j json_lib \<Rightarrow> ('j, 'w) tool_registry \<Rightarrow> 'j function_call \<Rightarrow> 'w \<Rightarrow> 'j function_response result \<times> 'w" where
  "invoke J [] call w =
     (Inr \<lparr>fr_name = fc_name call, fr_response = error_object J (''unknown function: '' @ fc_name call),
           fr_id = fc_id call\<rparr>, w)"
| "invoke J ((d, h) # reg) call w =
     (if fd_name d \<noteq> fc_name call then invoke J reg call w
      else
        (case run_tool J h (fc_args call) w of
           (Inr body, w) \<Rightarrow>
             (Inr \<lparr>fr_name = fc_name call, fr_response = body, fr_id = fc_id call\<rparr>, w)
         | (Inl f, w) \<Rightarrow> (Inl f, w)))"

section \<open>Built-in tools\<close>

text \<open>The system clock gives nanoseconds since 1970.\<close>

definition current_time_tool :: "'j json_lib \<Rightarrow> ('w \<Rightarrow> int \<times> 'w) \<Rightarrow> ('j, 'w) tool_handler" where
  "current_time_tool J wall_clock args w =
     (let (now, w) = wall_clock w
      in (ToolValue (json_object J
            [(''utc'', json_string J (iso_now now)), (''unix'', json_int J (cut_div now (10 ^ 9)))]), w))"

definition evaluate_tool :: "'j json_lib \<Rightarrow> math_lib \<Rightarrow> ('j, 'w) tool_handler" where
  "evaluate_tool J M args w =
     (case Option.bind (json_find J args ''expression'') (json_get_string J) of
        None \<Rightarrow>
          (ToolError (make_error KInvalidArgument
             (''missing string argument '' @ [SQUOTE] @ ''expression'' @ [SQUOTE])), w)
      | Some t \<Rightarrow>
          (case evaluate_expression M t of
             Some (Inr v) \<Rightarrow> (ToolValue (json_object J [(''value'', json_double J v)]), w)
           | Some (Inl (Failed e)) \<Rightarrow> (ToolError e, w)
           | _ \<Rightarrow> (ToolForeignException, w)))"

definition time_declaration :: "'j json_lib \<Rightarrow> 'j function_declaration" where
  "time_declaration J =
     \<lparr>fd_name = ''get_current_time'',
      fd_description =
        ''Returns the current UTC date and time in ISO-8601 format and as a Unix timestamp.'',
      fd_parameters = json_object J []\<rparr>"

definition evaluate_declaration :: "'j json_lib \<Rightarrow> 'j function_declaration" where
  "evaluate_declaration J =
     \<lparr>fd_name = ''evaluate_expression'',
      fd_description =
        ''Evaluates an arithmetic expression exactly as a calculator would. Supports + - * / % ^, '' @
        ''parentheses, pi, e, sqrt, abs, sin, cos, tan, log, log10, exp, floor, ceil. Use this '' @
        ''instead of doing arithmetic in your head.'',
      fd_parameters =
        json_object J
          [(''type'', json_string J ''object''),
           (''properties'',
            json_object J
              [(''expression'',
                json_object J
                  [(''type'', json_string J ''string''),
                   (''description'',
                    json_string J (''e.g. '' @ [SQUOTE] @ ''(2^10 - 24) / 3'' @ [SQUOTE]))])]),
           (''required'', json_array J [json_string J ''expression''])]\<rparr>"

definition register_defaults ::
  "'j json_lib \<Rightarrow> math_lib \<Rightarrow> ('w \<Rightarrow> int \<times> 'w) \<Rightarrow> ('j, 'w) tool_registry \<Rightarrow>
   ('j, 'w) tool_registry" where
  "register_defaults J M wall_clock reg =
     add_tool (add_tool reg (time_declaration J) (current_time_tool J wall_clock))
       (evaluate_declaration J) (evaluate_tool J M)"

section \<open>What an invocation promises\<close>

text \<open>Handlers whose exceptions all derive from \<^verbatim>\<open>std::exception\<close>.\<close>

definition contained :: "('j, 'w) tool_registry \<Rightarrow> bool" where
  "contained reg \<longleftrightarrow> (\<forall>(d, h) \<in> set reg. \<forall>args w. fst (h args w) \<noteq> ToolForeignException)"

lemma contained_Cons: "contained ((d, h) # reg) \<longleftrightarrow> (\<forall>args w. fst (h args w) \<noteq> ToolForeignException) \<and> contained reg"
  by (simp add: contained_def)

lemma invoke_answers:
  "invoke J reg call w = (Inr r, w') \<Longrightarrow> fr_name r = fc_name call \<and> fr_id r = fc_id call"
  by (induction J reg call w rule: invoke.induct) (auto split: if_splits prod.splits sum.splits)

lemma invoke_thrown: "invoke J reg call w = (Inl x, w') \<Longrightarrow> x \<noteq> Failed e"
  by (induction J reg call w rule: invoke.induct)
     (auto simp: run_tool_def split: if_splits prod.splits sum.splits tool_outcome.splits)

lemma invoke_contained:
  assumes "contained reg"
  shows "\<exists>r w'. invoke J reg call w = (Inr r, w')"
  using assms
proof (induction reg)
  case (Cons t reg)
  obtain d h where t: "t = (d, h)" by fastforce
  with Cons.prems have "fst (h (fc_args call) w) \<noteq> ToolForeignException"
    by (simp add: contained_Cons)
  with Cons t show ?case
    by (cases "h (fc_args call) w") (auto simp: contained_Cons run_tool_def split: tool_outcome.splits)
qed simp

lemma evaluate_tool_contained: "fst (evaluate_tool J M args w) \<noteq> ToolForeignException"
proof (cases "Option.bind (json_find J args ''expression'') (json_get_string J)")
  case (Some t)
  then show ?thesis using evaluate_expression_ends [of M t] by (auto simp: evaluate_tool_def)
qed (simp add: evaluate_tool_def)

lemma current_time_contained: "fst (current_time_tool J wall_clock args w) \<noteq> ToolForeignException"
  by (simp add: current_time_tool_def split: prod.split)

lemma contained_defaults: "contained reg \<Longrightarrow> contained (register_defaults J M wall_clock reg)"
  using evaluate_tool_contained current_time_contained
  by (fastforce simp: contained_def register_defaults_def add_tool_def)

end
