(* ===== verification/Chat.thy ===== *)
theory Chat
  imports Client_Properties Tools
begin

text \<open>
  \<^verbatim>\<open>include/gemini/chat.hpp\<close> and \<^verbatim>\<open>src/chat.cpp\<close>: a conversation with automatic tool calls.

  The session's own state is the history and the summed usage.  It works on the state of a client
  (and through it on the world the tools and the observer act on).  A result that is not returned
  (an exception) leaves \<^verbatim>\<open>send\<close> with the history as it is at that moment.
\<close>

record 'j chat_options =
  chat_system :: "string option"
  chat_config :: "'j generation_config"
  max_tool_rounds :: int

record 'j chat_session =
  history :: "'j content list"
  total_usage :: usage_metadata

text \<open>What a session refers to: the client, its options, and the tools and the observer, if any.\<close>

record ('j, 'w) chat_setting =
  chat_json :: "'j json_lib"
  chat_env :: "'w environment"
  chat_client :: client_options
  chat_opts :: "'j chat_options"
  chat_registry :: "('j, 'w) tool_registry option"
  observer :: "('j function_call \<Rightarrow> 'j function_response \<Rightarrow> 'w \<Rightarrow> string option \<times> 'w) option"

definition new_session :: "'j chat_session" where
  "new_session = \<lparr>history = [], total_usage = zero_usage\<rparr>"

definition reset_session :: "'j chat_session \<Rightarrow> 'j chat_session" where
  "reset_session c = c\<lparr>history := [], total_usage := zero_usage\<rparr>"

definition build_request :: "('j, 'w) chat_setting \<Rightarrow> 'j content list \<Rightarrow> 'j generate_request" where
  "build_request S h =
     \<lparr>contents = h,
      system_instruction = map_option user_content (chat_system (chat_opts S)),
      tools = (case chat_registry S of Some reg \<Rightarrow> declarations reg | None \<Rightarrow> []),
      config = chat_config (chat_opts S),
      safety_settings = []\<rparr>"

text \<open>A callback makes the session stream.\<close>

definition ask ::
  "('j, 'w) chat_setting \<Rightarrow> ('j, 'w) stream_callback option \<Rightarrow> 'j content list \<Rightarrow> 'w client_state \<Rightarrow>
   'j generate_response result \<times> 'w client_state" where
  "ask S on_chunk h s =
     (case on_chunk of
        Some f \<Rightarrow>
          (let (r, _, s) = stream (chat_json S) (chat_env S) (chat_client S) (build_request S h) (Some f) s
           in (r, s))
      | None \<Rightarrow> generate (chat_json S) (chat_env S) (chat_client S) (build_request S h) s)"

text \<open>
  The loop over the calls of one reply.  The arguments are printed for the log line before each
  call, whether or not the line is written.  The observer may leave with an exception.
\<close>

definition observe ::
  "('j, 'w) chat_setting \<Rightarrow> 'j function_call \<Rightarrow> 'j function_response \<Rightarrow> 'w \<Rightarrow> unit result \<times> 'w" where
  "observe S call r w =
     (case observer S of
        None \<Rightarrow> (Inr (), w)
      | Some note \<Rightarrow>
          (case note call r w of
             (None, w) \<Rightarrow> (Inr (), w)
           | (Some what, w) \<Rightarrow> (Inl (Thrown what), w)))"

fun answer_calls ::
  "('j, 'w) chat_setting \<Rightarrow> ('j, 'w) tool_registry \<Rightarrow> 'j function_call list \<Rightarrow> 'w \<Rightarrow>
   'j part list result \<times> 'w" where
  "answer_calls S reg [] w = (Inr [], w)"
| "answer_calls S reg (call # calls) w =
     (case dump_body (chat_json S) (fc_args call) of
        Inl f \<Rightarrow> (Inl f, w)
      | Inr _ \<Rightarrow>
          (case invoke (chat_json S) reg call w of
             (Inl f, w) \<Rightarrow> (Inl f, w)
           | (Inr r, w) \<Rightarrow>
               (case observe S call r w of
                  (Inl f, w) \<Rightarrow> (Inl f, w)
                | (Inr _, w) \<Rightarrow>
                    (case answer_calls S reg calls w of
                       (Inl f, w) \<Rightarrow> (Inl f, w)
                     | (Inr ps, w) \<Rightarrow> (Inr (response_part r # ps), w)))))"

definition rollback ::
  "nat \<Rightarrow> error \<Rightarrow> 'j chat_session \<Rightarrow> 'w client_state \<Rightarrow>
   'j generate_response result \<times> 'j chat_session \<times> 'w client_state" where
  "rollback checkpoint e c s = (Inl (Failed e), c\<lparr>history := take checkpoint (history c)\<rparr>, s)"

definition push :: "'j content \<Rightarrow> 'j chat_session \<Rightarrow> 'j chat_session" where
  "push m c = c\<lparr>history := history c @ [m]\<rparr>"

definition no_candidates :: error where
  "no_candidates = make_error KParse ''response has no candidates''"

definition too_many_rounds :: "int \<Rightarrow> error" where
  "too_many_rounds n =
     make_error KInvalidArgument
       (''model exceeded max_tool_rounds ('' @ int_to_string n @ '') without answering'')"

text \<open>\<open>send_rounds n\<close>: the loop of \<^verbatim>\<open>send\<close> with \<open>n\<close> rounds left.\<close>

fun send_rounds ::
  "('j, 'w) chat_setting \<Rightarrow> ('j, 'w) stream_callback option \<Rightarrow> nat \<Rightarrow> nat \<Rightarrow> 'j chat_session \<Rightarrow>
   'w client_state \<Rightarrow> 'j generate_response result \<times> 'j chat_session \<times> 'w client_state" where
  "send_rounds S on_chunk checkpoint 0 c s =
     rollback checkpoint (too_many_rounds (max_tool_rounds (chat_opts S))) c s"
| "send_rounds S on_chunk checkpoint (Suc n) c s =
     (case ask S on_chunk (history c) s of
        (Inl (Failed e), s) \<Rightarrow> rollback checkpoint e c s
      | (Inl f, s) \<Rightarrow> (Inl f, c, s)
      | (Inr response, s) \<Rightarrow>
          (let c = c\<lparr>total_usage := add_usage (total_usage c) (usage response)\<rparr> in
           case candidates response of
             [] \<Rightarrow> rollback checkpoint no_candidates c s
           | candidate # _ \<Rightarrow>
               (let c = push ((cand_content candidate)\<lparr>role := Model\<rparr>) c;
                    calls = function_calls response
                in case chat_registry S of
                     None \<Rightarrow> (Inr response, c, s)
                   | Some reg \<Rightarrow>
                       if calls = [] then (Inr response, c, s)
                       else (case answer_calls S reg calls (world s) of
                               (Inl f, w) \<Rightarrow> (Inl f, c, s\<lparr>world := w\<rparr>)
                             | (Inr results, w) \<Rightarrow>
                                 send_rounds S on_chunk checkpoint n
                                   (push \<lparr>role = User, parts = results\<rparr> c) (s\<lparr>world := w\<rparr>)))))"

definition send ::
  "('j, 'w) chat_setting \<Rightarrow> ('j, 'w) stream_callback option \<Rightarrow> string \<Rightarrow> 'j chat_session \<Rightarrow>
   'w client_state \<Rightarrow> 'j generate_response result \<times> 'j chat_session \<times> 'w client_state" where
  "send S on_chunk msg c s =
     send_rounds S on_chunk (length (history c)) (nat (max_tool_rounds (chat_opts S) + 1))
       (push (user_content msg) c) s"

section \<open>What a conversation looks like\<close>

definition calls_of :: "'j content \<Rightarrow> 'j function_call list" where
  "calls_of m = values_of (\<lambda>p. as_call (part_value p)) (parts m)"

text \<open>The parts answer the calls, one by one, with their names and correlation ids.\<close>

definition answers :: "'j function_call list \<Rightarrow> 'j part list \<Rightarrow> bool" where
  "answers calls ps \<longleftrightarrow>
     list_all2 (\<lambda>call p. \<exists>r. part_value p = Response r \<and> fr_name r = fc_name call \<and> fr_id r = fc_id call)
       calls ps"

text \<open>
  What follows a user message: replies of the model, each but the last asking for tools and
  followed by the answers to exactly its calls.
\<close>

fun turns :: "bool \<Rightarrow> 'j content list \<Rightarrow> bool" where
  "turns with_tools [] \<longleftrightarrow> False"
| "turns with_tools [m] \<longleftrightarrow> role m = Model \<and> (with_tools \<longrightarrow> calls_of m = [])"
| "turns with_tools (m # t # rest) \<longleftrightarrow>
     with_tools \<and> role m = Model \<and> calls_of m \<noteq> [] \<and> role t = User \<and> answers (calls_of m) (parts t) \<and>
     turns with_tools rest"

lemma answers_Cons: "answers (c # cs) (response_part r # ps) \<longleftrightarrow> fr_name r = fc_name c \<and> fr_id r = fc_id c \<and> answers cs ps"
  by (simp add: answers_def response_part_def)

lemma answer_calls_answers:
  "answer_calls S reg calls w = (Inr ps, w') \<Longrightarrow> answers calls ps"
proof (induction calls arbitrary: w ps w')
  case (Cons call calls)
  then show ?case
    by (auto simp: answers_Cons dest: invoke_answers split: sum.splits prod.splits)
qed (simp add: answers_def)

lemma answer_calls_thrown:
  "answer_calls S reg calls w = (Inl x, w') \<Longrightarrow> x \<noteq> Failed e"
proof (induction calls arbitrary: w w')
  case (Cons call calls)
  then show ?case
    by (auto simp: dump_body_def observe_def dest: invoke_thrown split: sum.splits prod.splits option.splits)
qed simp

lemma history_push [simp]: "history (push m c) = history c @ [m]"
  by (simp add: push_def)

lemma calls_of_reply:
  "candidates response = candidate # rest \<Longrightarrow>
   calls_of ((cand_content candidate)\<lparr>role := Model\<rparr>) = function_calls response"
  by (simp add: calls_of_def function_calls_def)

text \<open>One round of the loop: it ends in one of three ways or adds a reply and the answers to it.\<close>

lemma send_rounds_cases [consumes 1]:
  assumes "send_rounds S f k (Suc n) c s = (result, c', s')"
  obtains (rolled) e where "result = Inl (Failed e)" "history c' = take k (history c)"
      "s' = snd (ask S f (history c) s)"
  | (thrown) x where "result = Inl x" "\<And>e. x \<noteq> Failed e" "prefix (history c) (history c')"
      "metrics s' = metrics (snd (ask S f (history c) s))"
  | (ended) m r where "result = Inr r" "history c' = history c @ [m]"
      "turns (chat_registry S \<noteq> None) [m]" "s' = snd (ask S f (history c) s)"
      "\<exists>cand rest. candidates r = cand # rest \<and> m = (cand_content cand)\<lparr>role := Model\<rparr>"
  | (again) m t c1 s1 where "send_rounds S f k n c1 s1 = (result, c', s')"
      "history c1 = history c @ [m, t]" "chat_registry S \<noteq> None" "role m = Model" "calls_of m \<noteq> []"
      "role t = User" "answers (calls_of m) (parts t)"
      "metrics s1 = metrics (snd (ask S f (history c) s))"
proof -
  obtain r1 s1 where ask: "ask S f (history c) s = (r1, s1)" by fastforce
  show thesis
  proof (cases r1)
    case (Inl x)
    with assms ask show thesis
      by (cases x) (auto simp: rollback_def intro: rolled thrown)
  next
    case (Inr response)
    let ?c1 = "c\<lparr>total_usage := add_usage (total_usage c) (usage response)\<rparr>"
    show thesis
    proof (cases "candidates response")
      case Nil
      with assms ask Inr show thesis by (auto simp: rollback_def intro!: rolled)
    next
      case (Cons cand rest)
      let ?m = "(cand_content cand)\<lparr>role := Model\<rparr>"
      note calls = calls_of_reply [OF Cons]
      show thesis
      proof (cases "chat_registry S = None \<or> function_calls response = []")
        case True
        with assms ask Inr Cons have "result = Inr response" "c' = push ?m ?c1" "s' = s1"
          by (auto simp: Let_def split: option.splits if_splits)
        with True ask Cons calls show thesis by (intro ended [of response ?m]) auto
      next
        case False
        then obtain reg where reg: "chat_registry S = Some reg" "function_calls response \<noteq> []" by auto
        obtain rs w where ac: "answer_calls S reg (function_calls response) (world s1) = (rs, w)"
          by fastforce
        have step: "send_rounds S f k (Suc n) c s =
            (case (rs, w) of
               (Inl f, w) \<Rightarrow> (Inl f, push ?m ?c1, s1\<lparr>world := w\<rparr>)
             | (Inr results, w) \<Rightarrow>
                 send_rounds S f k n (push \<lparr>role = User, parts = results\<rparr> (push ?m ?c1)) (s1\<lparr>world := w\<rparr>))"
          by (simp add: ask Inr Cons reg ac Let_def del: prod.case)
        show thesis
        proof (cases rs)
          case (Inl x)
          have "x \<noteq> Failed e" for e
            using answer_calls_thrown [OF ac [unfolded Inl]] by simp
          moreover have "result = Inl x" "c' = push ?m ?c1" "s' = s1\<lparr>world := w\<rparr>"
            using assms [unfolded step] Inl by auto
          ultimately show thesis using ask by (intro thrown [of x]) simp_all
        next
          case (Inr results)
          have rec: "send_rounds S f k n (push \<lparr>role = User, parts = results\<rparr> (push ?m ?c1)) (s1\<lparr>world := w\<rparr>)
              = (result, c', s')"
            using assms [unfolded step] Inr by simp
          have "answers (function_calls response) results"
            by (rule answer_calls_answers [OF ac [unfolded Inr]])
          then show thesis using reg calls ask by (intro again [OF rec, of ?m "\<lparr>role = User, parts = results\<rparr>"]) simp_all
        qed
      qed
    qed
  qed
qed

text \<open>The whole loop, from a history that starts with the \<open>k\<close> entries of the checkpoint.\<close>

lemma send_rounds_history:
  assumes "send_rounds S f k n c s = (result, c', s')" "k \<le> length (history c)"
  shows "case result of
      Inr r \<Rightarrow> \<exists>ts. history c' = history c @ ts \<and> turns (chat_registry S \<noteq> None) ts \<and> length ts < 2 * n \<and>
        (\<exists>cand rest. candidates r = cand # rest \<and> last ts = (cand_content cand)\<lparr>role := Model\<rparr>)
    | Inl (Failed e) \<Rightarrow> history c' = take k (history c)
    | Inl _ \<Rightarrow> prefix (history c) (history c')"
  using assms
proof (induction n arbitrary: c s)
  case 0
  then show ?case by (auto simp: rollback_def)
next
  case (Suc n)
  from Suc.prems(1) show ?case
  proof (cases rule: send_rounds_cases)
    case (thrown x)
    then show ?thesis by (cases x) auto
  next
    case (ended m r)
    then show ?thesis by (auto intro!: exI [of _ "[m]"])
  next
    case (again m t c1 s1)
    note IH = Suc.IH [OF again(1)]
    show ?thesis
    proof (cases result)
      case (Inl x)
      with IH again(2) Suc.prems(2) show ?thesis by (cases x) (auto simp: prefix_def)
    next
      case (Inr r)
      with IH again(2) Suc.prems(2) obtain ts cand rest where ts:
        "history c' = history c @ m # t # ts" "turns (chat_registry S \<noteq> None) ts" "length ts < 2 * n"
        "candidates r = cand # rest" "last ts = (cand_content cand)\<lparr>role := Model\<rparr>" by auto
      moreover from ts(2) have "ts \<noteq> []" by auto
      ultimately show ?thesis using Inr again(3-7) by (auto intro!: exI [of _ "m # t # ts"])
    qed
  qed simp
qed

text \<open>Every round is one call of the client.\<close>

lemma ask_counts: "requests (metrics (snd (ask S f h s))) = requests (metrics s) + 1"
proof (cases f)
  case None
  obtain r s1 where g: "generate (chat_json S) (chat_env S) (chat_client S) (build_request S h) s = (r, s1)"
    by fastforce
  from generate_books [OF g] None g show ?thesis by (auto simp: ask_def call_accounts_def)
next
  case (Some cb)
  obtain r sn s1 where g:
    "stream (chat_json S) (chat_env S) (chat_client S) (build_request S h) (Some cb) s = (r, sn, s1)"
    by (metis prod_cases3)
  from stream_books [OF g] Some g show ?thesis by (auto simp: ask_def call_accounts_def)
qed

lemma send_rounds_requests:
  "send_rounds S f k n c s = (result, c', s') \<Longrightarrow>
   \<exists>j \<le> n. requests (metrics s') = requests (metrics s) + of_nat j"
proof (induction n arbitrary: c s)
  case 0
  then show ?case by (auto simp: rollback_def)
next
  case (Suc n)
  from Suc.prems show ?case
  proof (cases rule: send_rounds_cases)
    case (again m t c1 s1)
    from Suc.IH [OF again(1)] obtain j where "j \<le> n"
      "requests (metrics s') = requests (metrics s) + 1 + of_nat j"
      using again(8) ask_counts by metis
    then show ?thesis by (intro exI [of _ "Suc j"]) simp
  qed (use ask_counts in \<open>auto intro!: exI [of _ 1]\<close>)
qed

section \<open>Properties\<close>

text \<open>
  C2: what \<^verbatim>\<open>send\<close> does to the history.  An error restores it exactly.  A reply adds the user's
  message and a well-formed exchange: replies of the model, each but the last asking for tools and
  followed by answers to exactly its calls (name, correlation id, order), the last one being the
  reply that is returned and, when there are tools, asking for none; at most
  \<^verbatim>\<open>max_tool_rounds + 1\<close> requests are made.  Only an exception (a tool leaving with one that is not a
  \<^verbatim>\<open>std::exception\<close>, a string that is not UTF-8) leaves the message in the history.
\<close>

theorem chat_send_history:
  assumes "send S on_chunk msg c s = (result, c', s')"
  shows "(case result of
      Inr r \<Rightarrow> \<exists>ts. history c' = history c @ user_content msg # ts \<and> turns (chat_registry S \<noteq> None) ts \<and>
        (\<exists>cand rest. candidates r = cand # rest \<and> last ts = (cand_content cand)\<lparr>role := Model\<rparr>)
    | Inl (Failed e) \<Rightarrow> history c' = history c
    | Inl _ \<Rightarrow> prefix (history c @ [user_content msg]) (history c')) \<and>
    (\<exists>j \<le> nat (max_tool_rounds (chat_opts S) + 1). requests (metrics s') = requests (metrics s) + of_nat j)"
proof -
  note rounds = assms [unfolded send_def]
  from send_rounds_history [OF rounds] send_rounds_requests [OF rounds] show ?thesis
    by (auto split: sum.splits failure.splits)
qed

definition sample_setting :: "(jval, script) chat_setting" where
  "sample_setting =
     \<lparr>chat_json = sample_json, chat_env = scripted, chat_client = sample_options,
      chat_opts = \<lparr>chat_system = None, chat_config = config sample_request, max_tool_rounds = 8\<rparr>,
      chat_registry = None, observer = None\<rparr>"

text \<open>A reply without candidates: the session is as before, the request was made.\<close>

theorem chat_send_history_witness:
  "\<exists>c' s'. send sample_setting None ''hi'' new_session (start_state [([], Inr ''x'')])
     = (Inl (Failed no_candidates), c', s') \<and> history c' = []"
proof -
  let ?s = "start_state [([], Inr ''x'')]"
  have "generate sample_json scripted sample_options (build_request sample_setting [user_content ''hi'']) ?s =
    (Inr empty_response,
     \<lparr>metrics = zero_metrics\<lparr>requests := 1, attempts := 1\<rparr>, sleeps = [], world = []\<rparr>)"
    by (simp add: generate_def sample_run with_retry.simps sample_generate_attempt build_request_def
        validate_def sample_setting_def sample_options_def default_options_def default_model_def)
  then have "ask sample_setting None [user_content ''hi''] ?s =
    (Inr empty_response,
     \<lparr>metrics = zero_metrics\<lparr>requests := 1, attempts := 1\<rparr>, sleeps = [], world = []\<rparr>)"
    by (simp add: ask_def sample_setting_def)
  moreover have "nat (max_tool_rounds (chat_opts sample_setting) + 1) = Suc 8"
    by (simp add: sample_setting_def)
  ultimately obtain c' s' where
    "send sample_setting None ''hi'' new_session ?s = (Inl (Failed no_candidates), c', s')"
    by (simp add: send_def new_session_def push_def rollback_def empty_response_def eval_nat_numeral)
  with chat_send_history [OF this] show ?thesis by (simp add: new_session_def)
qed

text \<open>
  \<^verbatim>\<open>ToolRegistry::invoke\<close> always answers, with the name and the id of the call, as long as no
  handler leaves with an exception that does not derive from \<^verbatim>\<open>std::exception\<close>; the built-in tools
  never do.
\<close>

theorem tools_always_answer:
  assumes "contained reg"
  shows "\<exists>r w'. invoke J (register_defaults J M wall_clock reg) call w = (Inr r, w') \<and>
    fr_name r = fc_name call \<and> fr_id r = fc_id call"
  using invoke_contained [OF contained_defaults [OF assms], of J J M wall_clock call w] invoke_answers
  by fast

theorem tools_always_answer_witness:
  "\<exists>r w'. invoke sample_json (register_defaults sample_json no_math (\<lambda>w. (0, w)) [])
     \<lparr>fc_name = ''no_such_tool'', fc_args = JNull, fc_id = ''7''\<rparr> () = (Inr r, w') \<and>
     fr_name r = ''no_such_tool'' \<and> fr_id r = ''7''"
proof -
  have "contained ([] :: (jval, unit) tool_registry)" by (simp add: contained_def)
  from tools_always_answer [OF this] show ?thesis by fastforce
qed

end
