(* ===== verification/Code_Extract.thy ===== *)
theory Code_Extract
  imports Prelude
begin

text \<open>
  \<^verbatim>\<open>include/gemini/eval/code_extract.hpp\<close> and \<^verbatim>\<open>src/eval/code_extract.cpp\<close>: the fenced code blocks
  of a reply and the choice of the C++ source among them.
\<close>

section \<open>Fences\<close>

record fence =
  fence_char :: char
  fence_length :: nat
  fence_info :: string

text \<open>Up to three blanks of indentation.\<close>

definition drop_indent :: "string \<Rightarrow> string" where
  "drop_indent l = drop (length (takeWhile (\<lambda>c. c = SP) (take 3 l))) l"

definition info_word :: "string \<Rightarrow> string" where
  "info_word s = map to_lower (takeWhile (\<lambda>c. c \<notin> {SP, TAB, CHR ''{''}) (dropWhile is_space s))"

definition parse_fence :: "string \<Rightarrow> fence option" where
  "parse_fence l =
     (let s = drop_indent l in
      if s = [] \<or> (hd s \<noteq> BTICK \<and> hd s \<noteq> CHR ''~'') then None
      else
        let ch = hd s; n = length (takeWhile (\<lambda>c. c = ch) s) in
        if n < 3 then None
        else Some \<lparr>fence_char = ch, fence_length = n, fence_info = info_word (drop n s)\<rparr>)"

definition is_closing :: "string \<Rightarrow> fence \<Rightarrow> bool" where
  "is_closing l open_fence \<longleftrightarrow>
     (let s = drop_indent l; n = length (takeWhile (\<lambda>c. c = fence_char open_fence) s)
      in fence_length open_fence \<le> n \<and> dropWhile is_space (drop n s) = [])"

section \<open>Blocks\<close>

record code_block =
  language :: string
  block_code :: string
  terminated :: bool

text \<open>The loop over the lines; the fence that is open and its block, and the blocks so far.\<close>

fun scan_lines :: "string list \<Rightarrow> (fence \<times> code_block) option \<Rightarrow> code_block list \<Rightarrow> code_block list" where
  "scan_lines [] None blocks = blocks"
| "scan_lines [] (Some (f, b)) blocks = blocks @ [b\<lparr>terminated := False\<rparr>]"
| "scan_lines (l # ls) None blocks =
     (case parse_fence (chop_cr l) of
        None \<Rightarrow> scan_lines ls None blocks
      | Some f \<Rightarrow>
          scan_lines ls (Some (f, \<lparr>language = fence_info f, block_code = [], terminated = True\<rparr>)) blocks)"
| "scan_lines (l # ls) (Some (f, b)) blocks =
     (if is_closing (chop_cr l) f then scan_lines ls None (blocks @ [b])
      else scan_lines ls (Some (f, b\<lparr>block_code := block_code b @ chop_cr l @ [NL]\<rparr>)) blocks)"

definition find_code_blocks :: "string \<Rightarrow> code_block list" where
  "find_code_blocks markdown = scan_lines (split_on NL markdown) None []"

definition is_cpp_language :: "string \<Rightarrow> bool" where
  "is_cpp_language l \<longleftrightarrow> l \<in> set [''cpp'', ''c++'', ''cc'', ''cxx'', ''hpp'', ''hxx'', ''h'', ''c'']"

definition looks_like_code :: "string \<Rightarrow> bool" where
  "looks_like_code t \<longleftrightarrow>
     contains_sub ''#include'' t \<or> contains_sub ''#pragma once'' t \<or>
     contains_sub ''template <'' t \<or> contains_sub ''template<'' t"

definition trim :: "string \<Rightarrow> string" where
  "trim s = drop_back is_space (drop_front is_space s)"

section \<open>The choice\<close>

text \<open>A later block replaces the best one only when it is longer.\<close>

definition better :: "code_block option \<Rightarrow> code_block \<Rightarrow> code_block option" where
  "better best b =
     (case best of
        None \<Rightarrow> Some b
      | Some a \<Rightarrow> if length (block_code a) < length (block_code b) then Some b else Some a)"

definition consider_block ::
  "code_block \<Rightarrow> code_block option \<times> code_block option \<Rightarrow> code_block option \<times> code_block option" where
  "consider_block b best =
     (if trim (block_code b) = [] then best
      else if is_cpp_language (language b) then (better (fst best) b, snd best)
      else if language b = [] then (fst best, better (snd best) b)
      else best)"

definition extract_cpp_source :: "string \<Rightarrow> string option" where
  "extract_cpp_source reply =
     (let blocks = find_code_blocks reply;
          (cpp, untagged) = fold consider_block blocks (None, None)
      in case cpp of
           Some b \<Rightarrow> Some (block_code b)
         | None \<Rightarrow>
             (case untagged of
                Some b \<Rightarrow> Some (block_code b)
              | None \<Rightarrow>
                  if blocks = [] \<and> looks_like_code reply then Some (trim reply @ [NL]) else None))"

section \<open>What is chosen\<close>

definition usable_cpp :: "code_block \<Rightarrow> bool" where
  "usable_cpp b \<longleftrightarrow> trim (block_code b) \<noteq> [] \<and> is_cpp_language (language b)"

definition usable_untagged :: "code_block \<Rightarrow> bool" where
  "usable_untagged b \<longleftrightarrow> trim (block_code b) \<noteq> [] \<and> language b = []"

text \<open>The first one among the longest.\<close>

definition first_longest :: "code_block list \<Rightarrow> code_block option \<Rightarrow> bool" where
  "first_longest bs best \<longleftrightarrow>
     (case best of
        None \<Rightarrow> bs = []
      | Some b \<Rightarrow> \<exists>pre post. bs = pre @ b # post \<and>
          (\<forall>a \<in> set pre. length (block_code a) < length (block_code b)) \<and>
          (\<forall>a \<in> set post. length (block_code a) \<le> length (block_code b)))"

lemma first_longest_better: "first_longest bs best \<Longrightarrow> first_longest (bs @ [b]) (better best b)"
proof (cases best)
  case None
  assume "first_longest bs best"
  with None show ?thesis
    by (auto simp: first_longest_def better_def intro!: exI [of _ "[]"])
next
  case (Some a)
  assume "first_longest bs best"
  with Some obtain pre post where bs: "bs = pre @ a # post"
    "\<forall>x \<in> set pre. length (block_code x) < length (block_code a)"
    "\<forall>x \<in> set post. length (block_code x) \<le> length (block_code a)" by (auto simp: first_longest_def)
  show ?thesis
  proof (cases "length (block_code a) < length (block_code b)")
    case True
    with bs have "\<forall>x \<in> set bs. length (block_code x) < length (block_code b)" by force
    then have "bs @ [b] = bs @ b # [] \<and>
        (\<forall>x \<in> set bs. length (block_code x) < length (block_code b)) \<and>
        (\<forall>x \<in> set []. length (block_code x) \<le> length (block_code b))" by simp
    then have "first_longest (bs @ [b]) (Some b)" unfolding first_longest_def option.case by blast
    with True Some show ?thesis by (simp add: better_def)
  next
    case False
    with bs have "bs @ [b] = pre @ a # (post @ [b]) \<and>
        (\<forall>x \<in> set pre. length (block_code x) < length (block_code a)) \<and>
        (\<forall>x \<in> set (post @ [b]). length (block_code x) \<le> length (block_code a))" by auto
    then have "first_longest (bs @ [b]) (Some a)" unfolding first_longest_def option.case by blast
    with False Some show ?thesis by (simp add: better_def)
  qed
qed

lemma not_cpp_untagged: "is_cpp_language l \<Longrightarrow> l \<noteq> []"
  by (auto simp: is_cpp_language_def)

lemma consider_step:
  assumes "first_longest cs (fst best)" "first_longest us (snd best)"
  shows "first_longest (cs @ filter usable_cpp [b]) (fst (consider_block b best))"
    and "first_longest (us @ filter usable_untagged [b]) (snd (consider_block b best))"
  using assms not_cpp_untagged [of "language b"]
  by (auto simp: consider_block_def usable_cpp_def usable_untagged_def first_longest_better)

lemma fold_consider:
  "first_longest (filter usable_cpp bs) (fst (fold consider_block bs (None, None)))"
  "first_longest (filter usable_untagged bs) (snd (fold consider_block bs (None, None)))"
proof (induction bs rule: rev_induct)
  case Nil
  {
    case 1
    then show ?case by (simp add: first_longest_def)
  next
    case 2
    then show ?case by (simp add: first_longest_def)
  }
next
  case (snoc b bs)
  {
    case 1
    from consider_step(1) [OF snoc.IH] show ?case by simp
  next
    case 2
    from consider_step(2) [OF snoc.IH] show ?case by simp
  }
qed

section \<open>Documents\<close>

text \<open>A reply as a sequence of prose lines and fenced blocks, possibly cut off inside a block.\<close>

datatype segment =
    Prose string
  | Fenced char nat string "string list"  \<comment> \<open>fence character and length, language, code lines\<close>

fun segment_lines :: "segment \<Rightarrow> string list" where
  "segment_lines (Prose l) = [l]"
| "segment_lines (Fenced ch n lang ls) = (replicate n ch @ lang) # ls @ [replicate n ch]"

text \<open>A word that can stand after a fence and is its own language.\<close>

definition language_word :: "char \<Rightarrow> string \<Rightarrow> bool" where
  "language_word ch w \<longleftrightarrow>
     map to_lower w = w \<and> list_all (\<lambda>c. c \<notin> {SP, TAB, NL, CR, CHR ''{''} \<and> \<not> is_space c) w \<and>
     (w = [] \<or> hd w \<noteq> ch)"

definition plain_line :: "string \<Rightarrow> bool" where
  "plain_line l \<longleftrightarrow> NL \<notin> set l \<and> (l = [] \<or> last l \<noteq> CR)"

definition fence_of :: "char \<Rightarrow> nat \<Rightarrow> string \<Rightarrow> fence" where
  "fence_of ch n w = \<lparr>fence_char = ch, fence_length = n, fence_info = w\<rparr>"

fun segment_ok :: "segment \<Rightarrow> bool" where
  "segment_ok (Prose l) \<longleftrightarrow> plain_line l \<and> parse_fence l = None"
| "segment_ok (Fenced ch n w ls) \<longleftrightarrow>
     ch \<in> {BTICK, CHR ''~''} \<and> 3 \<le> n \<and> language_word ch w \<and>
     list_all (\<lambda>l. plain_line l \<and> \<not> is_closing l (fence_of ch n w)) ls"

definition code_text :: "string list \<Rightarrow> string" where
  "code_text ls = concat (map (\<lambda>l. l @ [NL]) ls)"

fun segment_blocks :: "segment \<Rightarrow> code_block list" where
  "segment_blocks (Prose l) = []"
| "segment_blocks (Fenced ch n w ls) = [\<lparr>language = w, block_code = code_text ls, terminated = True\<rparr>]"

lemma chop_plain: "plain_line l \<Longrightarrow> chop_cr l = l"
  by (auto simp: plain_line_def chop_cr_def)

lemma takeWhile_run: "w = [] \<or> hd w \<noteq> ch \<Longrightarrow> takeWhile (\<lambda>c. c = ch) (replicate n ch @ w) = replicate n ch"
  by (induction n) (auto simp: takeWhile_eq_Nil_iff)

lemma drop_indent_run: "ch \<noteq> SP \<Longrightarrow> 1 \<le> n \<Longrightarrow> drop_indent (replicate n ch @ w) = replicate n ch @ w"
  by (cases n) (simp_all add: drop_indent_def)

lemma parse_fence_open:
  assumes "ch \<in> {BTICK, CHR ''~''}" "3 \<le> n" "language_word ch w"
  shows "parse_fence (replicate n ch @ w) = Some (fence_of ch n w)"
proof -
  have sp: "ch \<noteq> SP" using assms(1) by auto
  have "w = [] \<or> hd w \<noteq> ch" using assms(3) by (simp add: language_word_def)
  note run = takeWhile_run [OF this, of n]
  have "dropWhile is_space w = w"
    using assms(3) by (cases w) (auto simp: language_word_def)
  moreover have "takeWhile (\<lambda>c. c \<notin> {SP, TAB, CHR ''{''}) w = w"
    using assms(3) by (auto simp: language_word_def list_all_iff takeWhile_eq_all_conv)
  ultimately have "info_word w = w"
    using assms(3) unfolding info_word_def language_word_def by argo
  moreover have "hd (replicate n ch @ w) = ch" "replicate n ch @ w \<noteq> []"
    using assms(2) by (cases n; simp)+
  ultimately show ?thesis
    using assms(1,2) run drop_indent_run [OF sp, of n w]
    by (auto simp: parse_fence_def fence_of_def Let_def)
qed

lemma is_closing_close: "ch \<noteq> SP \<Longrightarrow> 1 \<le> n \<Longrightarrow> is_closing (replicate n ch) (fence_of ch n w)"
  using takeWhile_run [of "[]" ch n] drop_indent_run [of ch n "[]"]
  by (simp add: is_closing_def fence_of_def Let_def)

lemma plain_fence: "ch \<in> {BTICK, CHR ''~''} \<Longrightarrow> 1 \<le> n \<Longrightarrow> language_word ch w \<Longrightarrow> plain_line (replicate n ch @ w)"
  by (cases w rule: rev_cases) (auto simp: plain_line_def language_word_def list_all_iff)

lemma scan_code:
  assumes "list_all (\<lambda>l. plain_line l \<and> \<not> is_closing l f) ls"
  shows "scan_lines (ls @ rest) (Some (f, b)) blocks =
    scan_lines rest (Some (f, b\<lparr>block_code := block_code b @ code_text ls\<rparr>)) blocks"
  using assms
  by (induction ls arbitrary: b) (simp_all add: chop_plain code_text_def)

lemma scan_segment:
  assumes "segment_ok g"
  shows "scan_lines (segment_lines g @ rest) None blocks = scan_lines rest None (blocks @ segment_blocks g)"
proof (cases g)
  case (Prose l)
  with assms show ?thesis by (simp add: chop_plain)
next
  case (Fenced ch n w ls)
  with assms have ok: "ch \<in> {BTICK, CHR ''~''}" "3 \<le> n" "language_word ch w"
    "list_all (\<lambda>l. plain_line l \<and> \<not> is_closing l (fence_of ch n w)) ls" by auto
  have "plain_line (replicate n ch @ w)" "plain_line (replicate n ch)"
    using plain_fence [of ch n w] plain_fence [of ch n "[]"] ok by (auto simp: language_word_def)
  moreover have "is_closing (replicate n ch) (fence_of ch n w)"
    using is_closing_close [of ch n w] ok by auto
  ultimately show ?thesis
    using Fenced parse_fence_open [OF ok(1-3)] scan_code [OF ok(4)]
    by (simp add: chop_plain) (simp add: fence_of_def)
qed

lemma scan_document:
  "list_all segment_ok gs \<Longrightarrow>
   scan_lines (concat (map segment_lines gs) @ rest) None blocks =
     scan_lines rest None (blocks @ concat (map segment_blocks gs))"
  by (induction gs arbitrary: blocks) (simp_all add: scan_segment)

lemma segment_lines_plain: "segment_ok g \<Longrightarrow> l \<in> set (segment_lines g) \<Longrightarrow> plain_line l"
proof (cases g)
  case (Prose p)
  assume "segment_ok g" "l \<in> set (segment_lines g)"
  with Prose show ?thesis by simp
next
  case (Fenced ch n w ls)
  assume "segment_ok g" "l \<in> set (segment_lines g)"
  with Fenced have ok: "ch \<in> {BTICK, CHR ''~''}" "1 \<le> n" "language_word ch w"
    and l: "l = replicate n ch @ w \<or> l = replicate n ch @ [] \<or> l \<in> set ls"
    and ls: "\<forall>l \<in> set ls. plain_line l"
    by (simp_all add: list_all_iff)
  have "language_word ch []" by (simp add: language_word_def)
  from l ls plain_fence [OF ok] plain_fence [OF ok(1,2) this] show ?thesis by blast
qed

lemma split_document:
  assumes "ls \<noteq> []" "\<And>l. l \<in> set ls \<Longrightarrow> plain_line l"
  shows "split_on NL (join_with NL ls) = ls"
  using assms by (intro split_on_join_with) (auto simp: plain_line_def)

section \<open>Properties\<close>

text \<open>
  C7: what is extracted.  The source is the code of the first among the longest non-blank blocks
  with a C++ tag; without such a block, of the first among the longest non-blank untagged ones;
  a reply without any block is taken whole, trimmed, when it looks like code; and otherwise nothing
  is extracted.
\<close>

theorem extract_choice:
  "case extract_cpp_source reply of
     Some src \<Rightarrow>
       (\<exists>b. first_longest (filter usable_cpp (find_code_blocks reply)) (Some b) \<and> src = block_code b) \<or>
       (filter usable_cpp (find_code_blocks reply) = [] \<and>
        (\<exists>b. first_longest (filter usable_untagged (find_code_blocks reply)) (Some b) \<and> src = block_code b)) \<or>
       (find_code_blocks reply = [] \<and> looks_like_code reply \<and> src = trim reply @ [NL])
   | None \<Rightarrow>
       filter usable_cpp (find_code_blocks reply) = [] \<and>
       filter usable_untagged (find_code_blocks reply) = [] \<and>
       \<not> (find_code_blocks reply = [] \<and> looks_like_code reply)"
proof -
  obtain cpp untagged where best:
    "fold consider_block (find_code_blocks reply) (None, None) = (cpp, untagged)" by fastforce
  have none: "first_longest bs None \<longleftrightarrow> bs = []" for bs by (simp add: first_longest_def)
  show ?thesis
    using fold_consider [of "find_code_blocks reply"]
    by (cases cpp; cases untagged) (auto simp: extract_cpp_source_def best none)
qed

lemma blocks_of_document:
  assumes "list_all segment_ok gs" "gs \<noteq> []"
  shows "find_code_blocks (join_with NL (concat (map segment_lines gs))) = concat (map segment_blocks gs)"
proof -
  have plain: "plain_line l" if "l \<in> set (concat (map segment_lines gs))" for l
    using that assms segment_lines_plain by (auto simp: list_all_iff)
  have "concat (map segment_lines gs) \<noteq> []" using assms by (cases "hd gs"; cases gs) auto
  from split_document [OF this plain] scan_document [OF assms(1), of "[]" "[]"] show ?thesis
    by (simp only: find_code_blocks_def append_Nil append_Nil2 scan_lines.simps)
qed

lemma blocks_of_cut_document:
  assumes "list_all segment_ok gs" and ok: "segment_ok (Fenced ch n w ls)"
  shows "find_code_blocks (join_with NL (concat (map segment_lines gs) @ (replicate n ch @ w) # ls)) =
    concat (map segment_blocks gs) @ [\<lparr>language = w, block_code = code_text ls, terminated = False\<rparr>]"
proof -
  let ?doc = "concat (map segment_lines gs)"
  have plain: "plain_line l" if "l \<in> set ?doc" for l
    using that assms(1) segment_lines_plain by (auto simp: list_all_iff)
  have tail: "plain_line (replicate n ch @ w)" "\<And>l. l \<in> set ls \<Longrightarrow> plain_line l"
    using segment_lines_plain [OF ok] by auto
  have "split_on NL (join_with NL (?doc @ (replicate n ch @ w) # ls)) = ?doc @ (replicate n ch @ w) # ls"
    using plain tail by (intro split_document) auto
  moreover have "parse_fence (replicate n ch @ w) = Some (fence_of ch n w)"
    using ok by (intro parse_fence_open) auto
  moreover have "list_all (\<lambda>l. plain_line l \<and> \<not> is_closing l (fence_of ch n w)) ls" using ok by simp
  ultimately show ?thesis
    using scan_document [OF assms(1)] scan_code [of "fence_of ch n w" ls "[]"] tail(1)
    by (simp add: find_code_blocks_def chop_plain) (simp add: fence_of_def)
qed

text \<open>
  C6: the blocks of a document are found as they were written: any sequence of prose lines and fenced
  blocks, with fences of three or more backticks or tildes that are not closed by a line of the
  code, gives the blocks in order with their language and their code; and a document cut off
  inside a block gives that block too, marked as not terminated.
\<close>

theorem code_blocks_roundtrip:
  assumes "list_all segment_ok gs" "gs \<noteq> []" "segment_ok (Fenced ch n w ls)"
  shows "find_code_blocks (join_with NL (concat (map segment_lines gs))) = concat (map segment_blocks gs) \<and>
    find_code_blocks (join_with NL (concat (map segment_lines gs) @ (replicate n ch @ w) # ls)) =
      concat (map segment_blocks gs) @ [\<lparr>language = w, block_code = code_text ls, terminated = False\<rparr>]"
  using assms blocks_of_document blocks_of_cut_document by simp

theorem code_blocks_roundtrip_witness:
  "find_code_blocks (join_with NL [''Here:'', ''```cpp'', ''int x;'', ''```''])
     = [\<lparr>language = ''cpp'', block_code = ''int x;'' @ [NL], terminated = True\<rparr>]"
proof -
  have "list_all segment_ok [Prose ''Here:'', Fenced BTICK 3 ''cpp'' [''int x;'']]"
    "segment_ok (Fenced BTICK 3 ''cpp'' [''int x;''])" by code_simp+
  from code_blocks_roundtrip [OF this(1) _ this(2)] show ?thesis
    by (simp add: code_text_def eval_nat_numeral)
qed

end
