(* ===== verification/Process.thy ===== *)
theory Process
  imports Errors
begin

text \<open>
  \<^verbatim>\<open>include/gemini/eval/process.hpp\<close> and \<^verbatim>\<open>src/eval/process.cpp\<close>: running a child process with a
  deadline and a bound on the captured output.

  The operating system is a parameter: a record of the calls the parent makes, as functions on
  the state \<^typ>\<open>'w\<close> of the system.  The clock counts nanoseconds; the options are in milliseconds.
  The loops of the parent may run forever, so they are partial functions: \<^const>\<open>None\<close> is a call
  that does not return.
\<close>

section \<open>Options and results\<close>

record process_options =
  po_argv :: "string list"
  po_cwd :: string
  po_timeout :: int
  max_output_bytes :: nat
  memory_limit_bytes :: "nat option"
  start_marker :: string
  po_grace :: int

record process_result =
  exit_code :: int
  term_signal :: int
  timed_out :: bool
  output_truncated :: bool
  captured :: string
  duration :: int
  startup :: "int option"

definition default_process :: process_options where
  "default_process =
     \<lparr>po_argv = [], po_cwd = [], po_timeout = 10000, max_output_bytes = 2 ^ 20,
      memory_limit_bytes = None, start_marker = [], po_grace = 0\<rparr>"

definition new_result :: process_result where
  "new_result =
     \<lparr>exit_code = - 1, term_signal = 0, timed_out = False, output_truncated = False, captured = [],
      duration = 0, startup = None\<rparr>"

definition process_ok :: "process_result \<Rightarrow> bool" where
  "process_ok r \<longleftrightarrow> \<not> timed_out r \<and> term_signal r = 0 \<and> exit_code r = 0"

definition status_string :: "(int \<Rightarrow> string option) \<Rightarrow> process_result \<Rightarrow> string" where
  "status_string strsignal r =
     (if timed_out r then ''timed out after '' @ int_to_string (duration r) @ '' ms''
      else if term_signal r \<noteq> 0 then
        ''killed by signal '' @ int_to_string (term_signal r) @
        (case strsignal (term_signal r) of Some name \<Rightarrow> '' ('' @ name @ '')'' | None \<Rightarrow> [])
      else ''exit code '' @ int_to_string (exit_code r))"

section \<open>The operating system\<close>

datatype poll_result = PollReady | PollTimeout | PollInterrupted | PollFailed
datatype read_result = ReadData string | ReadEof | ReadInterrupted | ReadStop
datatype child_status = Exited int | Signaled int | OtherStatus
datatype wait_result = Reaped child_status | StillRunning | WaitInterrupted | WaitFailed string

text \<open>\<open>os_pipe\<close> and \<open>os_fork\<close> give the text of the error, if any; \<open>os_kill\<close> kills group and child.\<close>

record 'w os =
  os_now :: "'w \<Rightarrow> int \<times> 'w"
  os_pipe :: "'w \<Rightarrow> string option \<times> 'w"
  os_fork :: "process_options \<Rightarrow> 'w \<Rightarrow> string option \<times> 'w"
  os_poll :: "int \<Rightarrow> 'w \<Rightarrow> poll_result \<times> 'w"
  os_read :: "'w \<Rightarrow> read_result \<times> 'w"
  os_kill :: "'w \<Rightarrow> 'w"
  os_wait :: "'w \<Rightarrow> wait_result \<times> 'w"
  os_sleep :: "'w \<Rightarrow> 'w"
  os_kill_stray :: "'w \<Rightarrow> 'w"

text \<open>\<^verbatim>\<open>duration_cast\<close> to milliseconds truncates.\<close>

definition ns_per_ms :: int where
  "ns_per_ms = 1000000"

definition whole_ms :: "int \<Rightarrow> int" where
  "whole_ms ns = (if 0 \<le> ns then ns div ns_per_ms else - (- ns div ns_per_ms))"

definition remaining_ms :: "int \<Rightarrow> int \<Rightarrow> int" where
  "remaining_ms deadline now =
     (let left = whole_ms (deadline - now) in if left \<le> 0 then 0 else min left 1000000)"

section \<open>The child before its program runs\<close>

datatype child_action = ChildExits int string | ChildRuns "string list"

definition child_start :: "process_options \<Rightarrow> bool \<Rightarrow> bool \<Rightarrow> child_action" where
  "child_start opts chdir_ok exec_ok =
     (if po_cwd opts \<noteq> [] \<and> \<not> chdir_ok then ChildExits 126 []
      else if exec_ok then ChildRuns (po_argv opts)
      else ChildExits 127 (''exec failed: '' @ hd (po_argv opts) @ [NL]))"

section \<open>Output\<close>

definition append_output :: "process_options \<Rightarrow> string \<Rightarrow> process_result \<Rightarrow> process_result" where
  "append_output opts d r =
     (let room = max_output_bytes opts - min (max_output_bytes opts) (length (captured r));
          n = min room (length d)
      in r\<lparr>captured := captured r @ take n d, output_truncated := output_truncated r \<or> n < length d\<rparr>)"

definition cut_at :: "nat \<Rightarrow> nat \<Rightarrow> string \<Rightarrow> string" where
  "cut_at i n s = take i s @ drop (i + n) s"

text \<open>The marker is looked for in the new bytes and the bytes before them that may begin it.\<close>

definition marker_at :: "process_options \<Rightarrow> nat \<Rightarrow> process_result \<Rightarrow> nat option" where
  "marker_at opts before r =
     (if start_marker opts \<noteq> [] \<and> startup r = None
      then find_from (start_marker opts)
             (if length (start_marker opts) \<le> before then before - length (start_marker opts) else 0) (captured r)
      else None)"

definition take_in ::
  "'w os \<Rightarrow> process_options \<Rightarrow> int \<Rightarrow> string \<Rightarrow> process_result \<Rightarrow> int \<Rightarrow> 'w \<Rightarrow> process_result \<times> int \<times> 'w" where
  "take_in OS opts start d r deadline w =
     (let before = length (captured r); r = append_output opts d r
      in case marker_at opts before r of
           None \<Rightarrow> (r, deadline, w)
         | Some i \<Rightarrow>
             (let (now, w) = os_now OS w
              in (r\<lparr>startup := Some (whole_ms (now - start)),
                    captured := cut_at i (length (start_marker opts)) (captured r)\<rparr>,
                  now + po_timeout opts * ns_per_ms, w)))"

section \<open>The loops\<close>

partial_function (option) drain ::
  "'w os \<Rightarrow> process_options \<Rightarrow> int \<Rightarrow> process_result \<Rightarrow> int \<Rightarrow> 'w \<Rightarrow> (bool \<times> process_result \<times> int \<times> 'w) option" where
  "drain OS opts start r deadline w =
     (case os_read OS w of
        (res, w) \<Rightarrow>
          (case res of
             ReadData d \<Rightarrow>
               (case take_in OS opts start d r deadline w of
                  (r, deadline, w) \<Rightarrow> drain OS opts start r deadline w)
           | ReadEof \<Rightarrow> Some (True, r, deadline, w)
           | ReadInterrupted \<Rightarrow> drain OS opts start r deadline w
           | ReadStop \<Rightarrow> Some (False, r, deadline, w)))"

partial_function (option) gather ::
  "'w os \<Rightarrow> process_options \<Rightarrow> int \<Rightarrow> process_result \<Rightarrow> int \<Rightarrow> 'w \<Rightarrow> (process_result \<times> int \<times> 'w) option" where
  "gather OS opts start r deadline w =
     (case os_now OS w of
        (now, w) \<Rightarrow>
          if remaining_ms deadline now = 0 then Some (r\<lparr>timed_out := True\<rparr>, deadline, os_kill OS w)
          else
            (case os_poll OS (remaining_ms deadline now) w of
               (res, w) \<Rightarrow>
                 (case res of
                    PollInterrupted \<Rightarrow> gather OS opts start r deadline w
                  | PollFailed \<Rightarrow> Some (r, deadline, w)
                  | PollTimeout \<Rightarrow> gather OS opts start r deadline w
                  | PollReady \<Rightarrow>
                      Option.bind (drain OS opts start r deadline w)
                        (\<lambda>(eof, r, deadline, w).
                           if eof then Some (r, deadline, w) else gather OS opts start r deadline w))))"

partial_function (option) reap ::
  "'w os \<Rightarrow> process_result \<Rightarrow> int \<Rightarrow> 'w \<Rightarrow> ((string + child_status) \<times> process_result \<times> 'w) option" where
  "reap OS r deadline w =
     (case os_wait OS w of
        (res, w) \<Rightarrow>
          (case res of
             Reaped st \<Rightarrow> Some (Inr st, r, w)
           | WaitFailed m \<Rightarrow> Some (Inl m, r, w)
           | _ \<Rightarrow>
               if timed_out r then reap OS r deadline (os_sleep OS w)
               else
                 (case os_now OS w of
                    (now, w) \<Rightarrow>
                      if deadline \<le> now
                      then reap OS (r\<lparr>timed_out := True\<rparr>) deadline (os_sleep OS (os_kill OS w))
                      else reap OS r deadline (os_sleep OS w))))"

section \<open>run_process\<close>

definition with_status :: "child_status \<Rightarrow> process_result \<Rightarrow> process_result" where
  "with_status st r =
     (let r = (case st of
                 Exited c \<Rightarrow> r\<lparr>exit_code := c\<rparr>
               | Signaled n \<Rightarrow> r\<lparr>term_signal := n\<rparr>
               | OtherStatus \<Rightarrow> r)
      in if timed_out r then r\<lparr>term_signal := 0\<rparr> else r)"

definition first_deadline :: "process_options \<Rightarrow> int \<Rightarrow> int" where
  "first_deadline opts start =
     start + po_timeout opts * ns_per_ms + (if start_marker opts \<noteq> [] then po_grace opts * ns_per_ms else 0)"

definition finish_process ::
  "'w os \<Rightarrow> int \<Rightarrow> (string + child_status) \<times> process_result \<times> 'w \<Rightarrow> (error + process_result) \<times> 'w" where
  "finish_process OS start x =
     (case x of
        (Inl m, r, w) \<Rightarrow> (Inl (make_error KIo (''waitpid: '' @ m)), w)
      | (Inr st, r, w) \<Rightarrow>
          (let w = (if timed_out r then w else os_kill_stray OS w);
               (now, w) = os_now OS w
           in (Inr (with_status st (r\<lparr>duration := whole_ms (now - start)\<rparr>)), w)))"

definition run_process ::
  "'w os \<Rightarrow> process_options \<Rightarrow> 'w \<Rightarrow> ((error + process_result) \<times> 'w) option" where
  "run_process OS opts w =
     (if po_argv opts = [] then Some (Inl (make_error KInvalidArgument ''empty argv''), w)
      else
        (let (start, w) = os_now OS w in
         case os_pipe OS w of
           (Some m, w) \<Rightarrow> Some (Inl (make_error KIo (''pipe: '' @ m)), w)
         | (None, w) \<Rightarrow>
             (case os_fork OS opts w of
                (Some m, w) \<Rightarrow> Some (Inl (make_error KIo (''fork: '' @ m)), w)
              | (None, w) \<Rightarrow>
                  Option.bind (gather OS opts start new_result (first_deadline opts start) w)
                    (\<lambda>(r, deadline, w).
                       map_option (finish_process OS start) (reap OS r deadline w)))))"

section \<open>Invariants of the loops\<close>

lemma drain_invariant:
  assumes run: "drain OS opts start r deadline w = Some (eof, r', deadline', w')" and "I r deadline w"
    and data: "\<And>r deadline w d w1 r2 deadline2 w2. \<lbrakk>I r deadline w; os_read OS w = (ReadData d, w1);
        take_in OS opts start d r deadline w1 = (r2, deadline2, w2)\<rbrakk> \<Longrightarrow> I r2 deadline2 w2"
    and other: "\<And>r deadline w res w1. \<lbrakk>I r deadline w; os_read OS w = (res, w1); \<forall>d. res \<noteq> ReadData d\<rbrakk>
        \<Longrightarrow> I r deadline w1"
  shows "I r' deadline' w'"
proof -
  let ?P = "\<lambda>OS' opts' start' r deadline w (eof :: bool, r', deadline', w').
    OS' = OS \<and> opts' = opts \<and> start' = start \<and> I r deadline w \<longrightarrow> I r' deadline' w'"
  have "?P OS opts start r deadline w (eof, r', deadline', w')"
  proof (rule drain.raw_induct [OF _ run, of ?P])
    fix rec :: "'a os \<Rightarrow> process_options \<Rightarrow> int \<Rightarrow> process_result \<Rightarrow> int \<Rightarrow> 'a \<Rightarrow>
      (bool \<times> process_result \<times> int \<times> 'a) option"
      and OS' opts' start' r deadline w y
    assume IH: "\<And>OS opts start r deadline w y. rec OS opts start r deadline w = Some y \<Longrightarrow>
        ?P OS opts start r deadline w y"
      and body: "(case os_read OS' w of (res, w) \<Rightarrow>
          (case res of
             ReadData d \<Rightarrow>
               (case take_in OS' opts' start' d r deadline w of
                  (r, deadline, w) \<Rightarrow> rec OS' opts' start' r deadline w)
           | ReadEof \<Rightarrow> Some (True, r, deadline, w)
           | ReadInterrupted \<Rightarrow> rec OS' opts' start' r deadline w
           | ReadStop \<Rightarrow> Some (False, r, deadline, w))) = Some y"
    obtain res w1 where res: "os_read OS' w = (res, w1)" by fastforce
    show "?P OS' opts' start' r deadline w y"
    proof (cases res)
      case (ReadData d)
      obtain r2 deadline2 w2 where t: "take_in OS' opts' start' d r deadline w1 = (r2, deadline2, w2)"
        by (cases "take_in OS' opts' start' d r deadline w1")
      with body res ReadData have "rec OS' opts' start' r2 deadline2 w2 = Some y" by simp
      from IH [OF this] res ReadData t data show ?thesis by (auto split: prod.splits)
    next
      case ReadInterrupted
      with body res have "rec OS' opts' start' r deadline w1 = Some y" by simp
      from IH [OF this] res ReadInterrupted other show ?thesis by (auto split: prod.splits)
    qed (use body res other in auto)
  qed
  with assms(2) show ?thesis by simp
qed

lemma gather_invariant:
  assumes run: "gather OS opts start r deadline w = Some (r', deadline', w')" and "I r deadline w"
    and now: "\<And>r deadline w t w1. I r deadline w \<Longrightarrow> os_now OS w = (t, w1) \<Longrightarrow> I r deadline w1"
    and poll: "\<And>r deadline w k res w1. I r deadline w \<Longrightarrow> os_poll OS k w = (res, w1) \<Longrightarrow> I r deadline w1"
    and kill: "\<And>r deadline w. I r deadline w \<Longrightarrow> I (r\<lparr>timed_out := True\<rparr>) deadline (os_kill OS w)"
    and drain: "\<And>r deadline w eof r2 deadline2 w2. I r deadline w \<Longrightarrow>
        drain OS opts start r deadline w = Some (eof, r2, deadline2, w2) \<Longrightarrow> I r2 deadline2 w2"
  shows "I r' deadline' w'"
proof -
  let ?P = "\<lambda>OS' opts' start' r deadline w (r', deadline', w').
    OS' = OS \<and> opts' = opts \<and> start' = start \<and> I r deadline w \<longrightarrow> I r' deadline' w'"
  have "?P OS opts start r deadline w (r', deadline', w')"
  proof (rule gather.raw_induct [OF _ run, of ?P])
    fix rec :: "'a os \<Rightarrow> process_options \<Rightarrow> int \<Rightarrow> process_result \<Rightarrow> int \<Rightarrow> 'a \<Rightarrow>
      (process_result \<times> int \<times> 'a) option"
      and OS' opts' start' r deadline w y
    assume IH: "\<And>OS opts start r deadline w y. rec OS opts start r deadline w = Some y \<Longrightarrow>
        ?P OS opts start r deadline w y"
      and body: "(case os_now OS' w of (now, w) \<Rightarrow>
          if remaining_ms deadline now = 0 then Some (r\<lparr>timed_out := True\<rparr>, deadline, os_kill OS' w)
          else
            (case os_poll OS' (remaining_ms deadline now) w of
               (res, w) \<Rightarrow>
                 (case res of
                    PollInterrupted \<Rightarrow> rec OS' opts' start' r deadline w
                  | PollFailed \<Rightarrow> Some (r, deadline, w)
                  | PollTimeout \<Rightarrow> rec OS' opts' start' r deadline w
                  | PollReady \<Rightarrow>
                      Option.bind (drain OS' opts' start' r deadline w)
                        (\<lambda>(eof, r, deadline, w).
                           if eof then Some (r, deadline, w) else rec OS' opts' start' r deadline w)))) = Some y"
    obtain t w1 where t: "os_now OS' w = (t, w1)" by fastforce
    obtain res w2 where res: "os_poll OS' (remaining_ms deadline t) w1 = (res, w2)" by fastforce
    {
      assume same: "OS' = OS" "opts' = opts" "start' = start" and I: "I r deadline w"
      have I1: "I r deadline w1" using now [OF I] t same by simp
      have I2: "I r deadline w2" using poll [OF I1] res same by simp
      have again: "case y of (r', deadline', w') \<Rightarrow> I r' deadline' w'"
        if "rec OS' opts' start' ra da wa = Some y" "I ra da wa" for ra da wa
        using IH [OF that(1)] that(2) same by simp
      have "case y of (r', deadline', w') \<Rightarrow> I r' deadline' w'"
      proof (cases "remaining_ms deadline t = 0")
        case True
        with body t kill [OF I1] same show ?thesis by auto
      next
        case False
        show ?thesis
        proof (cases res)
          case PollReady
          with body t res False obtain eof r3 deadline3 w3
            where d: "drain OS' opts' start' r deadline w2 = Some (eof, r3, deadline3, w3)"
              and y: "if eof then y = (r3, deadline3, w3) else rec OS' opts' start' r3 deadline3 w3 = Some y"
            by (auto split: Option.bind_splits if_splits)
          from drain [OF I2] d same have "I r3 deadline3 w3" by blast
          with y again [of r3 deadline3 w3] show ?thesis by (cases eof) simp_all
        qed (use body t res False I2 again in auto)
      qed
    }
    then show "?P OS' opts' start' r deadline w y" by (cases y) auto
  qed
  with assms(2) show ?thesis by simp
qed

lemma reap_invariant:
  assumes run: "reap OS r deadline w = Some (res, r', w')" and "I r w"
    and now: "\<And>r w t w1. I r w \<Longrightarrow> os_now OS w = (t, w1) \<Longrightarrow> I r w1"
    and sleep: "\<And>r w. I r w \<Longrightarrow> I r (os_sleep OS w)"
    and kill: "\<And>r w. I r w \<Longrightarrow> \<not> timed_out r \<Longrightarrow> I (r\<lparr>timed_out := True\<rparr>) (os_kill OS w)"
    and still: "\<And>r w x w1. I r w \<Longrightarrow> os_wait OS w = (x, w1) \<Longrightarrow> x \<in> {StillRunning, WaitInterrupted} \<Longrightarrow> I r w1"
    and gone: "\<And>r w st w1. I r w \<Longrightarrow> os_wait OS w = (Reaped st, w1) \<Longrightarrow> J (Inr st) r w1"
    and failed: "\<And>r w m w1. I r w \<Longrightarrow> os_wait OS w = (WaitFailed m, w1) \<Longrightarrow> J (Inl m) r w1"
  shows "J res r' w'"
proof -
  let ?P = "\<lambda>OS' r deadline w (res, r', w'). OS' = OS \<and> I r w \<longrightarrow> J res r' w'"
  have "?P OS r deadline w (res, r', w')"
  proof (rule reap.raw_induct [OF _ run, of ?P])
    fix rec :: "'a os \<Rightarrow> process_result \<Rightarrow> int \<Rightarrow> 'a \<Rightarrow> ((string + child_status) \<times> process_result \<times> 'a) option"
      and OS' r deadline w y
    assume IH: "\<And>OS r deadline w y. rec OS r deadline w = Some y \<Longrightarrow> ?P OS r deadline w y"
      and body: "(case os_wait OS' w of (res, w) \<Rightarrow>
          (case res of
             Reaped st \<Rightarrow> Some (Inr st, r, w)
           | WaitFailed m \<Rightarrow> Some (Inl m, r, w)
           | _ \<Rightarrow>
               if timed_out r then rec OS' r deadline (os_sleep OS' w)
               else
                 (case os_now OS' w of
                    (now, w) \<Rightarrow>
                      if deadline \<le> now
                      then rec OS' (r\<lparr>timed_out := True\<rparr>) deadline (os_sleep OS' (os_kill OS' w))
                      else rec OS' r deadline (os_sleep OS' w)))) = Some y"
    obtain x w1 where x: "os_wait OS' w = (x, w1)" by fastforce
    obtain t w2 where t: "os_now OS' w1 = (t, w2)" by fastforce
    {
      assume same: "OS' = OS" and I: "I r w"
      have again: "case y of (res, r', w') \<Rightarrow> J res r' w'"
        if "rec OS' ra da wa = Some y" "I ra wa" for ra da wa
        using IH [OF that(1)] that(2) same by simp
      have "case y of (res, r', w') \<Rightarrow> J res r' w'"
      proof (cases "x \<in> {StillRunning, WaitInterrupted}")
        case True
        have I1: "I r w1" using still [OF I] x True same by blast
        have I2: "I r w2" using now [OF I1] t same by blast
        have next_round: "if timed_out r then rec OS' r deadline (os_sleep OS' w1) = Some y
            else if deadline \<le> t then rec OS' (r\<lparr>timed_out := True\<rparr>) deadline (os_sleep OS' (os_kill OS' w2)) = Some y
            else rec OS' r deadline (os_sleep OS' w2) = Some y"
          using True body x t by auto
        show ?thesis
        proof (cases "timed_out r")
          case True
          with next_round again sleep [OF I1] same show ?thesis by simp
        next
          case False
          note live = this
          show ?thesis
          proof (cases "deadline \<le> t")
            case True
            with next_round live again sleep [OF kill [OF I2 live]] same show ?thesis by simp
          next
            case False
            with next_round live again sleep [OF I2] same show ?thesis by simp
          qed
        qed
      next
        case False
        with body x gone [OF I] failed [OF I] same show ?thesis by (cases x) auto
      qed
    }
    then show "?P OS' r deadline w y" by (cases y) auto
  qed
  with assms(2) show ?thesis by simp
qed

section \<open>What is captured\<close>

definition without_marker :: "string \<Rightarrow> string \<Rightarrow> string" where
  "without_marker m s =
     (if m = [] then s else case find_sub m s of None \<Rightarrow> s | Some i \<Rightarrow> cut_at i (length m) s)"

definition captures :: "process_options \<Rightarrow> process_result \<Rightarrow> string \<Rightarrow> bool" where
  "captures opts r raw \<longleftrightarrow>
     length (captured r) \<le> max_output_bytes opts \<and>
     (start_marker opts = [] \<longrightarrow>
        captured r = take (max_output_bytes opts) raw \<and>
        (output_truncated r \<longleftrightarrow> max_output_bytes opts < length raw)) \<and>
     (length raw \<le> max_output_bytes opts \<longrightarrow>
        \<not> output_truncated r \<and> captured r = without_marker (start_marker opts) raw \<and>
        (startup r \<noteq> None \<longleftrightarrow> start_marker opts \<noteq> [] \<and> contains_sub (start_marker opts) raw))"

lemma cut_at_append: "i + n \<le> length s \<Longrightarrow> cut_at i n (s @ t) = cut_at i n s @ t"
  by (simp add: cut_at_def)

lemma cut_at_length: "length (cut_at i n s) \<le> length s"
  by (simp add: cut_at_def)

lemma without_marker_length: "length (without_marker m s) \<le> length s"
  by (auto simp: without_marker_def cut_at_length split: option.splits)

text \<open>The bound leaves room for the whole text as long as all that was read is within it.\<close>

lemma append_output_room:
  "length (captured r) + length d \<le> max_output_bytes opts \<Longrightarrow>
   append_output opts d r = r\<lparr>captured := captured r @ d\<rparr>"
  by (simp add: append_output_def Let_def)

lemma append_output_capped:
  assumes "captured r = take (max_output_bytes opts) raw" "output_truncated r \<longleftrightarrow> max_output_bytes opts < length raw"
  shows "captured (append_output opts d r) = take (max_output_bytes opts) (raw @ d)"
    and "output_truncated (append_output opts d r) \<longleftrightarrow> max_output_bytes opts < length (raw @ d)"
  using assms by (auto simp: append_output_def Let_def min_def)

lemma append_output_bound:
  "length (captured r) \<le> max_output_bytes opts \<Longrightarrow>
   length (captured (append_output opts d r)) \<le> max_output_bytes opts"
  by (simp add: append_output_def Let_def)

lemma append_output_startup [simp]: "startup (append_output opts d r) = startup r"
  by (simp add: append_output_def Let_def)

lemma take_in_fields:
  "take_in OS opts start d r deadline w = (r2, deadline2, w2) \<Longrightarrow>
   exit_code r2 = exit_code r \<and> term_signal r2 = term_signal r \<and> timed_out r2 = timed_out r"
  by (auto simp: take_in_def append_output_def Let_def split: option.splits prod.splits)

lemma marker_seen:
  assumes "start_marker opts \<noteq> []" "startup r = None" "find_sub (start_marker opts) raw = None"
    "captured r = raw @ d"
  shows "marker_at opts (length raw) r = find_sub (start_marker opts) (raw @ d)"
  using assms find_sub_append_None [OF assms(3), of "length raw - length (start_marker opts)" d]
  by (auto simp: marker_at_def)

lemma take_in_captures:
  assumes inv: "captures opts r raw" and t: "take_in OS opts start d r deadline w = (r2, deadline2, w2)"
  shows "captures opts r2 (raw @ d)"
proof -
  let ?m = "start_marker opts" and ?r = "append_output opts d r"
  have found: "r2 = (case marker_at opts (length (captured r)) ?r of None \<Rightarrow> ?r
      | Some i \<Rightarrow> ?r\<lparr>startup := startup r2, captured := cut_at i (length ?m) (captured ?r)\<rparr>)"
    and seen: "marker_at opts (length (captured r)) ?r \<noteq> None \<Longrightarrow> startup r2 \<noteq> None"
    using t by (auto simp: take_in_def Let_def split: option.splits prod.splits)
  have bound: "length (captured r2) \<le> max_output_bytes opts"
    using inv append_output_bound [of r opts d] cut_at_length [of _ "length ?m" "captured ?r"]
    by (subst found) (auto simp: captures_def split: option.split intro: order_trans)
  show ?thesis
  proof (cases "?m = []")
    case True
    then have "marker_at opts (length (captured r)) ?r = None" by (simp add: marker_at_def)
    with found have "r2 = ?r" by simp
    with True inv bound append_output_capped [of r opts raw d] show ?thesis
      by (auto simp: captures_def without_marker_def)
  next
    case False
    {
      assume short: "length (raw @ d) \<le> max_output_bytes opts"
      with inv have r: "\<not> output_truncated r" "captured r = without_marker ?m raw"
        "startup r \<noteq> None \<longleftrightarrow> contains_sub ?m raw"
        using False by (simp_all add: captures_def)
      have "length (captured r) + length d \<le> max_output_bytes opts"
        using short without_marker_length [of ?m raw] r(2) by simp
      from append_output_room [OF this] have app: "?r = r\<lparr>captured := captured r @ d\<rparr>" .
      have "\<not> output_truncated r2 \<and> captured r2 = without_marker ?m (raw @ d) \<and>
        (startup r2 \<noteq> None \<longleftrightarrow> contains_sub ?m (raw @ d))"
      proof (cases "find_sub ?m raw")
        case (Some i)
        then have "startup r \<noteq> None" using r(3) by (simp add: contains_sub_def)
        then have "marker_at opts (length (captured r)) ?r = None" by (auto simp: marker_at_def)
        with found have "r2 = ?r" by simp
        then show ?thesis
          using r app Some False find_sub_append_Some [OF Some, of d] cut_at_append [OF find_sub_end [OF Some], of d]
          by (simp add: without_marker_def contains_sub_def)
      next
        case None
        then have raw: "startup r = None" "captured r = raw"
          using r by (auto simp: contains_sub_def without_marker_def)
        with app False None have "marker_at opts (length (captured r)) ?r = find_sub ?m (raw @ d)"
          using marker_seen [of opts ?r raw d] by simp
        then show ?thesis
          using found seen r(1) raw app False
          by (cases "find_sub ?m (raw @ d)") (auto simp: without_marker_def contains_sub_def)
      qed
    }
    with bound False show ?thesis by (simp add: captures_def)
  qed
qed

section \<open>Recording what happens\<close>

text \<open>The same system, which also notes the data it delivers, the kills and the end of the child.\<close>

datatype os_event = GotData string | KilledGroup | ChildGone child_status

definition note_read :: "read_result \<Rightarrow> os_event list" where
  "note_read res = (case res of ReadData d \<Rightarrow> [GotData d] | _ \<Rightarrow> [])"

definition note_wait :: "wait_result \<Rightarrow> os_event list" where
  "note_wait res = (case res of Reaped st \<Rightarrow> [ChildGone st] | _ \<Rightarrow> [])"

definition noting :: "('a \<Rightarrow> 'e list) \<Rightarrow> ('w \<Rightarrow> 'a \<times> 'w) \<Rightarrow> 'w \<times> 'e list \<Rightarrow> 'a \<times> 'w \<times> 'e list" where
  "noting note f x = (let (a, w) = f (fst x) in (a, w, snd x @ note a))"

definition recorded :: "'w os \<Rightarrow> ('w \<times> os_event list) os" where
  "recorded OS =
     \<lparr>os_now = noting (\<lambda>t. []) (os_now OS),
      os_pipe = noting (\<lambda>t. []) (os_pipe OS),
      os_fork = (\<lambda>opts. noting (\<lambda>t. []) (os_fork OS opts)),
      os_poll = (\<lambda>k. noting (\<lambda>t. []) (os_poll OS k)),
      os_read = noting note_read (os_read OS),
      os_kill = (\<lambda>(w, es). (os_kill OS w, es @ [KilledGroup])),
      os_wait = noting note_wait (os_wait OS),
      os_sleep = (\<lambda>(w, es). (os_sleep OS w, es)),
      os_kill_stray = (\<lambda>(w, es). (os_kill_stray OS w, es))\<rparr>"

fun data_of :: "os_event list \<Rightarrow> string" where
  "data_of [] = []"
| "data_of (GotData d # es) = d @ data_of es"
| "data_of (_ # es) = data_of es"

lemma data_of_append [simp]: "data_of (es @ fs) = data_of es @ data_of fs"
  by (induction es rule: data_of.induct) auto

lemma data_of_notes [simp]: "data_of (note_wait res) = []"
  "data_of (note_read rd) = (case rd of ReadData d \<Rightarrow> d | _ \<Rightarrow> [])"
  by (simp_all add: note_wait_def note_read_def split: wait_result.split read_result.split)

lemma killed_notes [simp]: "KilledGroup \<notin> set (note_wait res)" "KilledGroup \<notin> set (note_read rd)"
  by (simp_all add: note_wait_def note_read_def split: wait_result.split read_result.split)

text \<open>The ends of children in a log.\<close>

definition gone :: "os_event \<Rightarrow> child_status option" where
  "gone e = (case e of ChildGone st \<Rightarrow> Some st | _ \<Rightarrow> None)"

abbreviation "ends es \<equiv> values_of gone es"

lemma gone_notes [simp]: "ends (note_read rd) = []" "ends [KilledGroup] = []"
  "ends (note_wait res) = (case res of Reaped st \<Rightarrow> [st] | _ \<Rightarrow> [])"
  by (simp_all add: note_wait_def note_read_def gone_def split: wait_result.split read_result.split)

lemma noting_result: "noting note f x = (a, y) \<Longrightarrow> snd y = snd x @ note a"
  by (auto simp: noting_def split: prod.splits)

text \<open>The state of the call agrees with what has happened since the log was \<open>base\<close>.\<close>

definition agrees :: "os_event list \<Rightarrow> process_options \<Rightarrow> process_result \<Rightarrow> 'w \<times> os_event list \<Rightarrow> bool" where
  "agrees base opts r x \<longleftrightarrow>
     (\<exists>es. snd x = base @ es \<and> captures opts r (data_of es) \<and> exit_code r = - 1 \<and> term_signal r = 0 \<and>
        (timed_out r \<longleftrightarrow> KilledGroup \<in> set es) \<and> ends es = [])"

lemma captures_frame:
  "captured r = captured s \<Longrightarrow> output_truncated r = output_truncated s \<Longrightarrow> startup r = startup s \<Longrightarrow>
   captures opts r raw = captures opts s raw"
  by (simp add: captures_def)

lemma captures_fields [simp]:
  "captures opts (r\<lparr>timed_out := b\<rparr>) raw = captures opts r raw"
  "captures opts (r\<lparr>duration := n\<rparr>) raw = captures opts r raw"
  "captures opts (with_status st r) raw = captures opts r raw"
  by (rule captures_frame; simp add: with_status_def Let_def split: child_status.split)+

lemma agreesI:
  "snd x = base @ es \<Longrightarrow> captures opts r (data_of es) \<Longrightarrow> exit_code r = - 1 \<Longrightarrow> term_signal r = 0 \<Longrightarrow>
   (timed_out r \<longleftrightarrow> KilledGroup \<in> set es) \<Longrightarrow> ends es = [] \<Longrightarrow> agrees base opts r x"
  by (auto simp: agrees_def)

lemma agreesE:
  assumes "agrees base opts r x"
  obtains es where "snd x = base @ es" "captures opts r (data_of es)" "exit_code r = - 1"
    "term_signal r = 0" "timed_out r \<longleftrightarrow> KilledGroup \<in> set es" "ends es = []"
  using assms by (auto simp: agrees_def)

lemma agrees_same: "agrees base opts r x \<Longrightarrow> snd y = snd x \<Longrightarrow> agrees base opts r y"
  by (simp add: agrees_def)

lemma agrees_killed:
  assumes "agrees base opts r x" "snd y = snd x @ [KilledGroup]"
  shows "agrees base opts (r\<lparr>timed_out := True\<rparr>) y"
  using assms(1)
proof (rule agreesE)
  fix es
  assume "snd x = base @ es" "captures opts r (data_of es)" "exit_code r = - 1" "term_signal r = 0" "ends es = []"
  with assms(2) show ?thesis by (intro agreesI [of _ _ "es @ [KilledGroup]"]) (simp_all add: gone_def)
qed

lemma recorded_quiet:
  "os_now (recorded OS) x = (t, y) \<Longrightarrow> snd y = snd x"
  "os_pipe (recorded OS) x = (m, y) \<Longrightarrow> snd y = snd x"
  "os_fork (recorded OS) opts x = (m, y) \<Longrightarrow> snd y = snd x"
  "os_poll (recorded OS) k x = (res, y) \<Longrightarrow> snd y = snd x"
  by (auto simp: recorded_def dest: noting_result)

lemma recorded_steps:
  "snd (os_sleep (recorded OS) x) = snd x"
  "snd (os_kill_stray (recorded OS) x) = snd x"
  "snd (os_kill (recorded OS) x) = snd x @ [KilledGroup]"
  by (simp_all add: recorded_def split: prod.split)

lemma recorded_notes:
  "os_read (recorded OS) x = (res, y) \<Longrightarrow> snd y = snd x @ note_read res"
  "os_wait (recorded OS) x = (st, y) \<Longrightarrow> snd y = snd x @ note_wait st"
  by (auto simp: recorded_def dest: noting_result)

lemma take_in_world:
  "take_in (recorded OS) opts start d r deadline x = (r2, deadline2, y) \<Longrightarrow> snd y = snd x"
  by (auto simp: take_in_def Let_def dest: recorded_quiet split: option.splits prod.splits)

lemma agrees_now: "agrees base opts r x \<Longrightarrow> os_now (recorded OS) x = (t, y) \<Longrightarrow> agrees base opts r y"
  and agrees_poll: "agrees base opts r x \<Longrightarrow> os_poll (recorded OS) k x = (res, y) \<Longrightarrow> agrees base opts r y"
  and agrees_sleep: "agrees base opts r x \<Longrightarrow> agrees base opts r (os_sleep (recorded OS) x)"
  and agrees_kill: "agrees base opts r x \<Longrightarrow> agrees base opts (r\<lparr>timed_out := True\<rparr>) (os_kill (recorded OS) x)"
  by (auto intro: agrees_same agrees_killed simp: recorded_steps dest: recorded_quiet)

lemma drain_agrees:
  assumes "drain (recorded OS) opts start r deadline x = Some (eof, r', deadline', x')" "agrees base opts r x"
  shows "agrees base opts r' x'"
  using assms(1)
proof (rule drain_invariant [where I = "\<lambda>r deadline x. agrees base opts r x"])
  fix r deadline x d y r2 deadline2 z
  assume inv: "agrees base opts r x" and rd: "os_read (recorded OS) x = (ReadData d, y)"
    and t: "take_in (recorded OS) opts start d r deadline y = (r2, deadline2, z)"
  have z: "snd z = snd x @ note_read (ReadData d)"
    using recorded_notes(1) [OF rd] take_in_world [OF t] by simp
  from inv obtain es where es: "snd x = base @ es" "captures opts r (data_of es)" "exit_code r = - 1"
    "term_signal r = 0" "timed_out r \<longleftrightarrow> KilledGroup \<in> set es" "ends es = []" by (rule agreesE)
  from take_in_captures [OF es(2) t] z es take_in_fields [OF t] show "agrees base opts r2 z"
    by (intro agreesI [of _ _ "es @ note_read (ReadData d)"]) simp_all
next
  fix r deadline x res y
  assume "agrees base opts r x" "os_read (recorded OS) x = (res, y)" "\<forall>d. res \<noteq> ReadData d"
  then show "agrees base opts r y"
    by (cases res) (auto simp: note_read_def intro: agrees_same dest!: recorded_notes)
qed (rule assms(2))

lemma gather_agrees:
  assumes "gather (recorded OS) opts start r deadline x = Some (r', deadline', x')" "agrees base opts r x"
  shows "agrees base opts r' x'"
  using assms(1)
  by (rule gather_invariant [where I = "\<lambda>r deadline x. agrees base opts r x"])
    (rule assms(2), erule (1) agrees_now, erule (1) agrees_poll, erule agrees_kill, rule drain_agrees)

lemma reap_agrees:
  fixes OS :: "'w os"
  assumes "reap (recorded OS) r deadline x = Some (Inr st, r', x')" "agrees base opts r x"
  shows "\<exists>y :: 'w \<times> os_event list. agrees base opts r' y \<and> snd x' = snd y @ [ChildGone st]"
proof -
  let ?J = "\<lambda>(res :: string + child_status) r (x :: 'w \<times> os_event list). case res of Inl m \<Rightarrow> True
    | Inr st \<Rightarrow> \<exists>y :: 'w \<times> os_event list. agrees base opts r y \<and> snd x = snd y @ [ChildGone st]"
  have "?J (Inr st) r' x'"
  proof (rule reap_invariant [OF assms(1), where I = "agrees base opts" and J = ?J])
    fix r st and x y :: "'w \<times> os_event list"
    assume "agrees base opts r x" "os_wait (recorded OS) x = (Reaped st, y)"
    then have "agrees base opts r x" "snd y = snd x @ [ChildGone st]"
      using recorded_notes(2) by (fastforce simp: note_wait_def)+
    then have "\<exists>z :: 'w \<times> os_event list. agrees base opts r z \<and> snd y = snd z @ [ChildGone st]" by blast
    then show "?J (Inr st) r y" by (simp only: sum.case)
  next
    fix r res and x y :: "'w \<times> os_event list"
    assume "agrees base opts r x" "os_wait (recorded OS) x = (res, y)" "res \<in> {StillRunning, WaitInterrupted}"
    then show "agrees base opts r y"
      by (auto simp: note_wait_def intro: agrees_same dest!: recorded_notes)
  qed (simp_all add: assms(2) agrees_now agrees_sleep agrees_kill)
  then show ?thesis by simp
qed

lemma with_status_fields:
  "exit_code r = - 1 \<Longrightarrow> term_signal r = 0 \<Longrightarrow>
   exit_code (with_status st r) = (case st of Exited c \<Rightarrow> c | _ \<Rightarrow> - 1) \<and>
   term_signal (with_status st r) = (if timed_out r then 0 else case st of Signaled n \<Rightarrow> n | _ \<Rightarrow> 0) \<and>
   timed_out (with_status st r) = timed_out r"
  by (simp add: with_status_def Let_def split: child_status.split)

lemma captures_new: "captures opts new_result []"
proof -
  have "p \<noteq> [] \<Longrightarrow> find_sub p [] = None" for p by simp
  then show ?thesis by (auto simp: captures_def new_result_def without_marker_def contains_sub_def)
qed

lemma run_process_steps:
  assumes "run_process OS opts w = Some (Inr r, w')"
  obtains start deadline w0 r1 w1 st r2 w2 t where
    "w0 = snd (os_fork OS opts (snd (os_pipe OS (snd (os_now OS w)))))"
    "gather OS opts start new_result (first_deadline opts start) w0 = Some (r1, deadline, w1)"
    "reap OS r1 deadline w1 = Some (Inr st, r2, w2)"
    "r = with_status st (r2\<lparr>duration := t\<rparr>)"
    "w' = snd (os_now OS (if timed_out r2 then w2 else os_kill_stray OS w2))"
proof -
  obtain start wa where a: "os_now OS w = (start, wa)" by fastforce
  obtain p wb where b: "os_pipe OS wa = (p, wb)" by fastforce
  obtain f wc where c: "os_fork OS opts wb = (f, wc)" by fastforce
  note run = assms [unfolded run_process_def]
  from run a b c have "po_argv opts \<noteq> []" "p = None" "f = None"
    by (auto split: if_splits option.splits)
  with run a b c obtain r1 deadline w1 where g:
      "gather OS opts start new_result (first_deadline opts start) wc = Some (r1, deadline, w1)"
    and e: "map_option (finish_process OS start) (reap OS r1 deadline w1) = Some (Inr r, w')"
    by (auto split: Option.bind_splits)
  from e obtain x r2 w2 where x: "reap OS r1 deadline w1 = Some (x, r2, w2)"
    and f: "finish_process OS start (x, r2, w2) = (Inr r, w')" by auto
  from f obtain st where st: "x = Inr st" by (cases x) (auto simp: finish_process_def)
  from f st have "r = with_status st (r2\<lparr>duration :=
        whole_ms (fst (os_now OS (if timed_out r2 then w2 else os_kill_stray OS w2)) - start)\<rparr>)"
    "w' = snd (os_now OS (if timed_out r2 then w2 else os_kill_stray OS w2))"
    by (cases "timed_out r2"; simp add: finish_process_def Let_def split: prod.splits; fail)+
  with g x st a b c that show thesis by simp
qed

text \<open>What a call adds to the log, and what its result says of it.\<close>

definition reports :: "process_options \<Rightarrow> process_result \<Rightarrow> os_event list \<Rightarrow> bool" where
  "reports opts r es \<longleftrightarrow>
     captures opts r (data_of es) \<and> (timed_out r \<longleftrightarrow> KilledGroup \<in> set es) \<and>
     (\<exists>st. ends es = [st] \<and> exit_code r = (case st of Exited c \<Rightarrow> c | _ \<Rightarrow> - 1) \<and>
        term_signal r = (if timed_out r then 0 else case st of Signaled n \<Rightarrow> n | _ \<Rightarrow> 0))"

lemma run_process_report:
  assumes "run_process (recorded OS) opts (w, base) = Some (Inr r, w', es')"
  shows "\<exists>es. es' = base @ es \<and> reports opts r es"
proof -
  let ?OS = "recorded OS"
  obtain start deadline x0 r1 x1 st r2 x2 t where
    x0: "x0 = snd (os_fork ?OS opts (snd (os_pipe ?OS (snd (os_now ?OS (w, base))))))"
    and g: "gather ?OS opts start new_result (first_deadline opts start) x0 = Some (r1, deadline, x1)"
    and e: "reap ?OS r1 deadline x1 = Some (Inr st, r2, x2)"
    and r: "r = with_status st (r2\<lparr>duration := t\<rparr>)"
    and end_of: "(w', es') = snd (os_now ?OS (if timed_out r2 then x2 else os_kill_stray ?OS x2))"
    by (rule run_process_steps [OF assms])
  have quiet: "snd (snd (os_now ?OS x)) = snd x" "snd (snd (os_pipe ?OS x)) = snd x"
    "snd (snd (os_fork ?OS opts x)) = snd x" for x :: "'a \<times> os_event list"
    by (rule recorded_quiet, rule prod.collapse [symmetric])+
  have "snd x0 = base @ []" by (simp add: x0 quiet)
  then have "agrees base opts new_result x0"
    by (rule agreesI) (simp_all add: captures_new new_result_def captures_new [unfolded new_result_def])
  from reap_agrees [OF e gather_agrees [OF g this]] obtain y :: "'a \<times> os_event list" where
    inv: "agrees base opts r2 y" and y: "snd x2 = snd y @ [ChildGone st]" by blast
  have es': "es' = snd x2"
    using arg_cong [OF end_of, of snd] by (simp add: quiet recorded_steps)
  from inv obtain es where es: "snd y = base @ es" "captures opts r2 (data_of es)" "exit_code r2 = - 1"
    "term_signal r2 = 0" "timed_out r2 \<longleftrightarrow> KilledGroup \<in> set es" "ends es = []" by (rule agreesE)
  with with_status_fields [of "r2\<lparr>duration := t\<rparr>" st] have "reports opts r (es @ [ChildGone st])"
    by (simp add: reports_def r gone_def)
  with es' y es(1) show ?thesis by auto
qed

lemma reports_ok:
  "reports opts r es \<Longrightarrow> process_ok r \<longleftrightarrow> KilledGroup \<notin> set es \<and> ends es = [Exited 0]"
  by (auto simp: reports_def process_ok_def split: child_status.splits)

section \<open>Progress\<close>

text \<open>
  What has to hold for a call to return: the clock \<open>clk\<close> does not go back, and it advances while the
  parent waits or sleeps; only finitely many events (data, wake-ups, interrupts) are \<open>left\<close> to come;
  and once the group is killed, the child is gone after finitely many more looks (\<open>patience\<close>).
\<close>

record 'w progress =
  clk :: "'w \<Rightarrow> int"
  left :: "'w \<Rightarrow> nat"
  dead :: "'w \<Rightarrow> bool"
  patience :: "'w \<Rightarrow> nat"

definition keeps :: "'w progress \<Rightarrow> 'w \<Rightarrow> 'w \<Rightarrow> bool" where
  "keeps G w w' \<longleftrightarrow>
     clk G w \<le> clk G w' \<and> left G w' \<le> left G w \<and>
     (dead G w \<longrightarrow> dead G w' \<and> patience G w' \<le> patience G w)"

definition makes_progress :: "'w os \<Rightarrow> 'w progress \<Rightarrow> bool" where
  "makes_progress OS G \<longleftrightarrow>
     (\<forall>w t w'. os_now OS w = (t, w') \<longrightarrow> keeps G w w' \<and> t = clk G w') \<and>
     (\<forall>w k res w'. os_poll OS k w = (res, w') \<longrightarrow> keeps G w w' \<and>
        (res \<in> {PollReady, PollInterrupted} \<longrightarrow> left G w' < left G w) \<and>
        (res = PollTimeout \<and> 0 < k \<longrightarrow> clk G w + k * ns_per_ms \<le> clk G w')) \<and>
     (\<forall>w res w'. os_read OS w = (res, w') \<longrightarrow> keeps G w w' \<and>
        (res \<notin> {ReadEof, ReadStop} \<longrightarrow> left G w' < left G w)) \<and>
     (\<forall>w. keeps G w (os_kill OS w) \<and> dead G (os_kill OS w)) \<and>
     (\<forall>w. keeps G w (os_sleep OS w) \<and> clk G w < clk G (os_sleep OS w)) \<and>
     (\<forall>w res w'. os_wait OS w = (res, w') \<longrightarrow> keeps G w w' \<and>
        (dead G w \<and> res \<in> {StillRunning, WaitInterrupted} \<longrightarrow> patience G w' < patience G w))"

lemma progressD:
  assumes "makes_progress OS G"
  shows "os_now OS w = (t, w') \<Longrightarrow> keeps G w w' \<and> t = clk G w'"
    and "os_poll OS k w = (res, w') \<Longrightarrow> keeps G w w' \<and>
        (res \<in> {PollReady, PollInterrupted} \<longrightarrow> left G w' < left G w) \<and>
        (res = PollTimeout \<and> 0 < k \<longrightarrow> clk G w + k * ns_per_ms \<le> clk G w')"
    and "os_read OS w = (rres, w') \<Longrightarrow> keeps G w w' \<and>
        (rres \<notin> {ReadEof, ReadStop} \<longrightarrow> left G w' < left G w)"
    and "keeps G w (os_kill OS w) \<and> dead G (os_kill OS w)"
    and "keeps G w (os_sleep OS w) \<and> clk G w < clk G (os_sleep OS w)"
    and "os_wait OS w = (wres, w') \<Longrightarrow> keeps G w w' \<and>
        (dead G w \<and> wres \<in> {StillRunning, WaitInterrupted} \<longrightarrow> patience G w' < patience G w)"
  using assms unfolding makes_progress_def by metis+

lemma keeps_trans: "keeps G u v \<Longrightarrow> keeps G v w \<Longrightarrow> keeps G u w"
  by (auto simp: keeps_def)

lemma keeps_refl: "keeps G w w"
  by (simp add: keeps_def)

lemma take_in_keeps:
  "makes_progress OS G \<Longrightarrow> take_in OS opts start d r deadline w = (r2, deadline2, w2) \<Longrightarrow> keeps G w w2"
  by (auto simp: take_in_def Let_def keeps_refl dest: progressD(1) split: option.splits prod.splits)

lemma drain_returns:
  assumes "makes_progress OS G"
  shows "\<exists>eof r' deadline' w'. drain OS opts start r deadline w = Some (eof, r', deadline', w') \<and>
    keeps G w w' \<and> timed_out r' = timed_out r"
proof (induction "left G w" arbitrary: r deadline w rule: less_induct)
  case less
  obtain res w1 where res: "os_read OS w = (res, w1)" by fastforce
  from progressD(3) [OF assms res] have k: "keeps G w w1"
    and l: "res \<notin> {ReadEof, ReadStop} \<Longrightarrow> left G w1 < left G w" by blast+
  show ?case
  proof (cases res)
    case (ReadData d)
    obtain r2 deadline2 w2 where t: "take_in OS opts start d r deadline w1 = (r2, deadline2, w2)"
      by (cases "take_in OS opts start d r deadline w1")
    from take_in_keeps [OF assms t] l ReadData have "left G w2 < left G w" by (auto simp: keeps_def)
    moreover have "keeps G w w2" using k take_in_keeps [OF assms t] by (rule keeps_trans)
    ultimately show ?thesis
      using less.hyps [of w2 r2 deadline2] take_in_fields [OF t] res ReadData t
      by (subst drain.simps) (auto intro: keeps_trans)
  next
    case ReadInterrupted
    with less.hyps [of w1 r deadline] l k res show ?thesis
      by (subst drain.simps) (auto intro: keeps_trans)
  qed (use res k in \<open>subst drain.simps, force\<close>)+
qed

lemma remaining_positive: "remaining_ms deadline now \<noteq> 0 \<Longrightarrow> 0 < remaining_ms deadline now \<and> now < deadline"
  by (auto simp: remaining_ms_def whole_ms_def ns_per_ms_def Let_def split: if_splits)

lemma gather_returns:
  assumes "makes_progress OS G"
  shows "\<not> timed_out r \<Longrightarrow> \<exists>r' deadline' w'. gather OS opts start r deadline w = Some (r', deadline', w') \<and>
    (timed_out r' \<longrightarrow> dead G w')"
proof (induction "(left G w, nat (deadline - clk G w))" arbitrary: r deadline w
    rule: wf_induct_rule [OF wf_lex_prod [OF wf_less_than wf_less_than]])
  case 1
  have IH: "\<exists>r' deadline' w'. gather OS opts start r2 deadline2 w2 = Some (r', deadline', w') \<and>
        (timed_out r' \<longrightarrow> dead G w')"
    if "\<not> timed_out r2" "left G w2 < left G w \<or> left G w2 = left G w \<and>
        nat (deadline2 - clk G w2) < nat (deadline - clk G w)" for r2 deadline2 w2
    using that by (intro 1(1)) auto
  obtain t w1 where t: "os_now OS w = (t, w1)" by fastforce
  from progressD(1) [OF assms t] have k1: "keeps G w w1" and clk1: "t = clk G w1" by auto
  show ?case
  proof (cases "remaining_ms deadline t = 0")
    case True
    with t progressD(4) [OF assms, of w1] show ?thesis by (subst gather.simps) simp
  next
    case False
    obtain res w2 where res: "os_poll OS (remaining_ms deadline t) w1 = (res, w2)" by fastforce
    from progressD(2) [OF assms res] have k2: "keeps G w1 w2"
      and fewer: "res \<in> {PollReady, PollInterrupted} \<Longrightarrow> left G w2 < left G w1"
      and later: "res = PollTimeout \<and> 0 < remaining_ms deadline t \<Longrightarrow> clk G w1 + remaining_ms deadline t * ns_per_ms \<le> clk G w2" by blast+
    show ?thesis
    proof (cases res)
      case PollReady
      obtain eof r3 deadline3 w3 where d: "drain OS opts start r deadline w2 = Some (eof, r3, deadline3, w3)"
        and k3: "keeps G w2 w3" and live: "\<not> timed_out r3"
        using drain_returns [OF assms, of opts start r deadline w2] 1(2) by auto
      have "left G w3 < left G w" using fewer PollReady k1 k3 by (auto simp: keeps_def)
      with IH [of r3 w3 deadline3] live t res False PollReady d show ?thesis
        by (subst gather.simps) (cases eof; simp)
    next
      case PollInterrupted
      then have "left G w2 < left G w" using fewer k1 by (auto simp: keeps_def)
      with IH [of r w2 deadline] 1(2) t res False PollInterrupted show ?thesis
        by (subst gather.simps) simp
    next
      case PollTimeout
      have "0 < remaining_ms deadline t * ns_per_ms" "t < deadline"
        using remaining_positive [OF False] by (simp_all add: ns_per_ms_def)
      then have "clk G w < clk G w2" "clk G w < deadline" using later PollTimeout remaining_positive [OF False] k1 clk1
        by (auto simp: keeps_def)
      then have "nat (deadline - clk G w2) < nat (deadline - clk G w)" by simp
      moreover have "left G w2 \<le> left G w" using k1 k2 by (auto simp: keeps_def)
      ultimately show ?thesis
        using IH [of r w2 deadline] 1(2) t res False PollTimeout
        by (subst gather.simps) (simp add: le_less)
    next
      case PollFailed
      with 1(2) t res False show ?thesis by (subst gather.simps) simp
    qed
  qed
qed

lemma reap_killed_returns:
  assumes "makes_progress OS G"
  shows "timed_out r \<Longrightarrow> dead G w \<Longrightarrow> \<exists>y. reap OS r deadline w = Some y"
proof (induction "patience G w" arbitrary: w rule: less_induct)
  case less
  obtain res w1 where res: "os_wait OS w = (res, w1)" by fastforce
  note this = progressD(6) [OF assms res] progressD(5) [OF assms, of w1]
  with less.prems have k: "dead G (os_sleep OS w1)"
    and p: "res \<in> {StillRunning, WaitInterrupted} \<Longrightarrow> patience G (os_sleep OS w1) < patience G w"
    by (auto simp: keeps_def)
  from less.hyps [OF p less.prems(1) k] res less.prems(1) show ?case
    by (subst reap.simps) (cases res; auto)
qed

lemma reap_returns:
  assumes "makes_progress OS G"
  shows "timed_out r \<longrightarrow> dead G w \<Longrightarrow> \<exists>y. reap OS r deadline w = Some y"
proof (induction "nat (deadline - clk G w)" arbitrary: w rule: less_induct)
  case less
  show ?case
  proof (cases "timed_out r")
    case True
    with less.prems reap_killed_returns [OF assms] show ?thesis by blast
  next
    case False
    obtain res w1 where res: "os_wait OS w = (res, w1)" by fastforce
    obtain t w2 where t: "os_now OS w1 = (t, w2)" by fastforce
    have "keeps G w w1" "keeps G w1 w2" and t_is: "t = clk G w2"
      using progressD(6) [OF assms res] progressD(1) [OF assms t] by blast+
    then have k: "keeps G w w2" by (rule_tac keeps_trans)
    show ?thesis
    proof (cases "deadline \<le> t")
      case True
      let ?w = "os_sleep OS (os_kill OS w2)"
      have "dead G ?w"
        using progressD(4) [OF assms, of w2] progressD(5) [OF assms, of "os_kill OS w2"]
        by (auto simp: keeps_def)
      with reap_killed_returns [OF assms, of "r\<lparr>timed_out := True\<rparr>" ?w deadline] res t True False
      show ?thesis by (subst reap.simps) (cases res; auto)
    next
      case False
      note early = this
      have "clk G w < clk G (os_sleep OS w2)" "clk G w < deadline"
        using k progressD(5) [OF assms, of w2] early t_is by (auto simp: keeps_def)
      then have "nat (deadline - clk G (os_sleep OS w2)) < nat (deadline - clk G w)" by simp
      from less.hyps [OF this] \<open>\<not> timed_out r\<close> res t early show ?thesis
        by (subst reap.simps) (cases res; auto)
    qed
  qed
qed

text \<open>Endless output keeps the inner loop going.\<close>

lemma drain_flooded:
  assumes "\<And>w. \<exists>d w'. os_read OS w = (ReadData d, w')"
  shows "drain OS opts start r deadline w = None"
proof (rule ccontr)
  let ?flood = "\<lambda>OS. \<forall>w. \<exists>d w'. os_read OS w = (ReadData d, w')"
  assume "drain OS opts start r deadline w \<noteq> None"
  then obtain y where "drain OS opts start r deadline w = Some y" by blast
  then have "\<not> ?flood OS"
  proof (rule drain.raw_induct [rotated])
    fix rec :: "'a os \<Rightarrow> process_options \<Rightarrow> int \<Rightarrow> process_result \<Rightarrow> int \<Rightarrow> 'a \<Rightarrow>
      (bool \<times> process_result \<times> int \<times> 'a) option"
      and OS opts start r deadline w y
    assume IH: "\<And>OS opts start r deadline w y. rec OS opts start r deadline w = Some y \<Longrightarrow> \<not> ?flood OS"
      and body: "(case os_read OS w of (res, w) \<Rightarrow>
          (case res of
             ReadData d \<Rightarrow>
               (case take_in OS opts start d r deadline w of
                  (r, deadline, w) \<Rightarrow> rec OS opts start r deadline w)
           | ReadEof \<Rightarrow> Some (True, r, deadline, w)
           | ReadInterrupted \<Rightarrow> rec OS opts start r deadline w
           | ReadStop \<Rightarrow> Some (False, r, deadline, w))) = Some y"
    show "\<not> ?flood OS"
    proof
      assume "?flood OS"
      then obtain d w1 where rd: "os_read OS w = (ReadData d, w1)" by blast
      obtain r2 deadline2 w2 where "take_in OS opts start d r deadline w1 = (r2, deadline2, w2)"
        by (cases "take_in OS opts start d r deadline w1")
      with body rd have "rec OS opts start r2 deadline2 w2 = Some y" by simp
      from IH [OF this] \<open>?flood OS\<close> show False by simp
    qed
  qed
  with assms show False by blast
qed

section \<open>Scripted systems\<close>

text \<open>
  A clock, what can be read now, the bursts of reads to come (a poll is ready as long as there is
  one), and the answers to the waits to come, after which the child has exited with 0.
\<close>

type_synonym os_script = "int \<times> read_result list \<times> read_result list list \<times> wait_result list"

definition scripted_os :: "os_script os" where
  "scripted_os =
     \<lparr>os_now = (\<lambda>(t, x). (t, t, x)),
      os_pipe = (\<lambda>s. (None, s)),
      os_fork = (\<lambda>opts s. (None, s)),
      os_poll = (\<lambda>k (t, rs, bs, ws).
        case bs of [] \<Rightarrow> (PollTimeout, t + max k 0 * ns_per_ms, rs, [], ws) | b # bs \<Rightarrow> (PollReady, t, b, bs, ws)),
      os_read = (\<lambda>(t, rs, x). case rs of [] \<Rightarrow> (ReadStop, t, [], x) | r # rs \<Rightarrow> (r, t, rs, x)),
      os_kill = (\<lambda>(t, rs, bs, ws). (t, rs, bs, [])),
      os_wait = (\<lambda>(t, rs, bs, ws).
        case ws of [] \<Rightarrow> (Reaped (Exited 0), t, rs, bs, []) | x # ws \<Rightarrow> (x, t, rs, bs, ws)),
      os_sleep = (\<lambda>(t, x). (t + 2 * ns_per_ms, x)),
      os_kill_stray = (\<lambda>s. s)\<rparr>"

definition script_progress :: "os_script progress" where
  "script_progress =
     \<lparr>clk = fst, left = (\<lambda>(t, rs, bs, ws). length rs + sum_list (map (\<lambda>b. Suc (length b)) bs)),
      dead = (\<lambda>(t, rs, bs, ws). ws = []), patience = (\<lambda>s. 0)\<rparr>"

lemma scripted_os_sel [simp]:
  "os_now scripted_os (t, x) = (t, t, x)" "os_pipe scripted_os s = (None, s)"
  "os_fork scripted_os opts s = (None, s)"
  "os_poll scripted_os k (t, rs, [], ws) = (PollTimeout, t + max k 0 * ns_per_ms, rs, [], ws)"
  "os_poll scripted_os k (t, rs, b # bs, ws) = (PollReady, t, b, bs, ws)"
  "os_read scripted_os (t, [], y) = (ReadStop, t, [], y)"
  "os_read scripted_os (t, r # rs, y) = (r, t, rs, y)"
  "os_kill scripted_os (t, rs, bs, ws) = (t, rs, bs, [])"
  "os_wait scripted_os (t, rs, bs, []) = (Reaped (Exited 0), t, rs, bs, [])"
  "os_wait scripted_os (t, rs, bs, wx # ws) = (wx, t, rs, bs, ws)"
  "os_sleep scripted_os (t, x) = (t + 2 * ns_per_ms, x)" "os_kill_stray scripted_os s = s"
  by (simp_all add: scripted_os_def)

lemma scripted_progress: "makes_progress scripted_os script_progress"
  unfolding makes_progress_def keeps_def
proof (intro conjI allI impI)
qed (auto simp: scripted_os_def script_progress_def ns_per_ms_def split: list.splits)

text \<open>A child that writes \<open>hello\<close> in two pieces, after the marker \<open>>\<close>, and exits with 0.\<close>

definition hello_options :: process_options where
  "hello_options = default_process\<lparr>po_argv := [''hello''], start_marker := ''>''\<rparr>"

definition hello_script :: os_script where
  "hello_script = (0, [], [[ReadData ''>hel''], [ReadData ''lo'', ReadEof]], [])"

definition hello_result :: process_result where
  "hello_result = new_result\<lparr>exit_code := 0, captured := ''hello'', startup := Some 0\<rparr>"

lemma recorded_sel [simp]:
  "os_now (recorded OS) = noting (\<lambda>t. []) (os_now OS)"
  "os_pipe (recorded OS) = noting (\<lambda>t. []) (os_pipe OS)"
  "os_fork (recorded OS) opts = noting (\<lambda>t. []) (os_fork OS opts)"
  "os_poll (recorded OS) k = noting (\<lambda>t. []) (os_poll OS k)"
  "os_read (recorded OS) = noting note_read (os_read OS)"
  "os_kill (recorded OS) (w, es) = (os_kill OS w, es @ [KilledGroup])"
  "os_wait (recorded OS) = noting note_wait (os_wait OS)"
  "os_sleep (recorded OS) (w, es) = (os_sleep OS w, es)"
  "os_kill_stray (recorded OS) (w, es) = (os_kill_stray OS w, es)"
  by (simp_all add: recorded_def)

lemma hello_run:
  "run_process (recorded scripted_os) hello_options (hello_script, []) =
     Some (Inr hello_result, (0, [], [], []), [GotData ''>hel'', GotData ''lo'', ChildGone (Exited 0)])"
  by (simp add: run_process_def hello_options_def hello_script_def default_process_def noting_def
      first_deadline_def ns_per_ms_def gather.simps remaining_ms_def whole_ms_def drain.simps
      take_in_def append_output_def marker_at_def find_from_def cut_at_def new_result_def
      note_read_def note_wait_def reap.simps finish_process_def with_status_def hello_result_def)

section \<open>Properties\<close>

text \<open>
  C20: whatever the pieces the output comes in, the captured output is what the process wrote,
  without the first occurrence of the start marker, as long as all of it fits the bound, and then
  the start-up time is set exactly when the marker occurs; without a marker it is the first
  \<^verbatim>\<open>max_output_bytes\<close> bytes and it is marked as truncated exactly when there were more; and it never
  exceeds the bound.
\<close>

theorem process_output:
  assumes "run_process (recorded OS) opts (w, []) = Some (Inr r, w', es)"
  shows "captures opts r (data_of es)"
  using run_process_report [OF assms] by (simp add: reports_def)

theorem process_output_witness:
  "captures hello_options hello_result ''>hello''"
  using process_output [OF hello_run] by simp

text \<open>
  The verdict.  A result says that the process timed out exactly when its group was killed, and
  it is a success exactly when the process was not killed and exited with 0; the call only comes
  back when the child is gone.
\<close>

theorem process_verdict:
  assumes "run_process (recorded OS) opts (w, []) = Some (Inr r, w', es)"
  shows "(timed_out r \<longleftrightarrow> KilledGroup \<in> set es) \<and>
    (process_ok r \<longleftrightarrow> KilledGroup \<notin> set es \<and> ends es = [Exited 0]) \<and>
    (\<exists>st. ends es = [st])"
  using run_process_report [OF assms] reports_ok [of opts r es] by (auto simp: reports_def)

theorem process_verdict_witness:
  "\<not> timed_out hello_result \<and> process_ok hello_result"
  using process_verdict [OF hello_run] by (simp add: gone_def)



text \<open>
  The deadline is only looked at between reads.  A child that is never slower in writing than the
  parent in reading, so that there is always more to read, keeps the call from returning, whatever
  the timeout.
\<close>

theorem run_process_flooded:
  assumes "\<And>w. \<exists>d w'. os_read OS w = (ReadData d, w')"
    and "os_now OS w = (start, w1)" "os_pipe OS w1 = (None, w2)" "os_fork OS opts w2 = (None, w3)"
    and "os_now OS w3 = (t, w4)" "remaining_ms (first_deadline opts start) t \<noteq> 0"
    and "os_poll OS (remaining_ms (first_deadline opts start) t) w4 = (PollReady, w5)" "po_argv opts \<noteq> []"
  shows "run_process OS opts w = None"
  using assms(2-) drain_flooded [OF assms(1)] by (simp add: run_process_def gather.simps)

definition flooding_os :: "int os" where
  "flooding_os =
     \<lparr>os_now = (\<lambda>t. (t, t)), os_pipe = (\<lambda>t. (None, t)), os_fork = (\<lambda>opts t. (None, t)),
      os_poll = (\<lambda>k t. (PollReady, t)), os_read = (\<lambda>t. (ReadData ''y'', t + 1)),
      os_kill = (\<lambda>t. t), os_wait = (\<lambda>t. (StillRunning, t)), os_sleep = (\<lambda>t. t + 2 * ns_per_ms),
      os_kill_stray = (\<lambda>t. t)\<rparr>"

theorem run_process_flooded_witness:
  "run_process flooding_os hello_options 0 = None"
  by (rule run_process_flooded [of flooding_os 0 0 0 0 hello_options 0 0 0 0])
     (simp_all add: flooding_os_def hello_options_def default_process_def first_deadline_def
       ns_per_ms_def remaining_ms_def whole_ms_def)

end
