(* ===== verification/Task.thy ===== *)
theory Task
  imports Json "HOL-Library.Multiset" "HOL-Library.Char_ord" "HOL-Library.List_Lexorder"
begin

text \<open>
  \<^verbatim>\<open>include/gemini/eval/task.hpp\<close> and \<^verbatim>\<open>src/eval/task.cpp\<close>: the coding tasks and how they are read
  from the task directories.  The file system is a parameter.
\<close>

section \<open>Tasks\<close>

record task =
  task_id :: string
  task_title :: string
  prompt :: string
  tags :: "string list"
  task_timeout :: int
  task_dir :: string
  test_source :: string
  reference_source :: "string option"

section \<open>The file system\<close>

text \<open>
  \<open>fs_list\<close> is a directory iterator: it cannot be made, or it runs through the entries, or advancing
  it past the given ones throws.
\<close>

datatype listing = NotListed string | Listed "string list" | ListedUntil "string list" string

record file_system =
  fs_read :: "string \<Rightarrow> string option"
  fs_is_directory :: "string \<Rightarrow> bool"
  fs_exists :: "string \<Rightarrow> bool"
  fs_list :: "string \<Rightarrow> listing"

text \<open>\<^verbatim>\<open>dir / name\<close>, which is the name if that is absolute, and \<^verbatim>\<open>path.filename()\<close>.\<close>

definition path_join :: "string \<Rightarrow> string \<Rightarrow> string" where
  "path_join d n =
     (if starts_with ''/'' n then n else if d = [] \<or> last d = CHR ''/'' then d @ n else d @ ''/'' @ n)"

definition path_filename :: "string \<Rightarrow> string" where
  "path_filename d = rev (takeWhile (\<lambda>c. c \<noteq> CHR ''/'') (rev d))"

section \<open>Loading one task\<close>

definition task_error :: "string \<Rightarrow> string \<Rightarrow> 'a result" where
  "task_error d what = err KConfig (d @ '': '' @ what)"

text \<open>A prompt is a string or an array of lines.\<close>

definition prompt_of :: "'j json_lib \<Rightarrow> 'j \<Rightarrow> string" where
  "prompt_of J j =
     (case json_find J j ''prompt'' of
        None \<Rightarrow> []
      | Some p \<Rightarrow>
          (case json_get_string J p of
             Some s \<Rightarrow> s
           | None \<Rightarrow>
               (case json_get_array J p of
                  Some ls \<Rightarrow> concat (map (\<lambda>s. s @ [NL]) (values_of (json_get_string J) ls))
                | None \<Rightarrow> [])))"

definition tags_of :: "'j json_lib \<Rightarrow> 'j \<Rightarrow> string list" where
  "tags_of J j =
     (case Option.bind (json_find J j ''tags'') (json_get_array J) of
        Some ts \<Rightarrow> values_of (json_get_string J) ts
      | None \<Rightarrow> [])"

text \<open>The number is read as an \<^verbatim>\<open>int\<close>, which keeps its low 32 bits.\<close>

definition timeout_of :: "'j json_lib \<Rightarrow> 'j \<Rightarrow> int" where
  "timeout_of J j =
     (case Option.bind (json_find J j ''timeout_ms'') (json_get_int J) of
        Some t \<Rightarrow> (if 0 < to_i32 t then to_i32 t else 10000)
      | None \<Rightarrow> 10000)"

definition task_of_manifest :: "'j json_lib \<Rightarrow> file_system \<Rightarrow> string \<Rightarrow> 'j \<Rightarrow> task result" where
  "task_of_manifest J F d j =
     bind_result (value_string J j ''id'' (path_filename d)) (\<lambda>i.
     bind_result (value_string J j ''title'' i) (\<lambda>title.
       let p = prompt_of J j in
       if p = [] then task_error d ''task.json has no prompt''
       else
         (case fs_read F (path_join d ''tests.cpp'') of
            None \<Rightarrow> task_error d ''missing tests.cpp''
          | Some tests \<Rightarrow>
              Inr \<lparr>task_id = i, task_title = title, prompt = p, tags = tags_of J j,
                   task_timeout = timeout_of J j, task_dir = d, test_source = tests,
                   reference_source = fs_read F (path_join d ''reference.hpp'')\<rparr>)))"

definition load_task :: "'j json_lib \<Rightarrow> file_system \<Rightarrow> string \<Rightarrow> task result" where
  "load_task J F d =
     (case fs_read F (path_join d ''task.json'') of
        None \<Rightarrow> task_error d ''cannot read task.json''
      | Some manifest \<Rightarrow>
          (case json_parse J manifest of
             None \<Rightarrow> task_error d ''task.json is not a JSON object''
           | Some j \<Rightarrow>
               if \<not> json_is_object J j then task_error d ''task.json is not a JSON object''
               else task_of_manifest J F d j))"

section \<open>Loading all tasks\<close>

text \<open>The loop stops at the first task that cannot be loaded.\<close>

definition is_task_dir :: "file_system \<Rightarrow> string \<Rightarrow> bool" where
  "is_task_dir F d \<longleftrightarrow> fs_is_directory F d \<and> fs_exists F (path_join d ''task.json'')"

fun load_entries :: "'j json_lib \<Rightarrow> file_system \<Rightarrow> string list \<Rightarrow> task list result" where
  "load_entries J F [] = Inr []"
| "load_entries J F (d # ds) =
     (if \<not> is_task_dir F d then load_entries J F ds
      else bind_result (load_task J F d) (\<lambda>t. bind_result (load_entries J F ds) (\<lambda>ts. Inr (t # ts))))"

text \<open>\<^verbatim>\<open>std::sort\<close> by id; the order of tasks with the same id is not specified there.\<close>

definition load_tasks :: "'j json_lib \<Rightarrow> file_system \<Rightarrow> string \<Rightarrow> task list result" where
  "load_tasks J F base =
     (if \<not> fs_is_directory F base then err KConfig (''task directory not found: '' @ base)
      else
        (case fs_list F base of
           NotListed m \<Rightarrow> err KIo (''cannot list '' @ base @ '': '' @ m)
         | Listed ds \<Rightarrow> bind_result (load_entries J F ds) (\<lambda>ts. Inr (sort_key task_id ts))
         | ListedUntil ds m \<Rightarrow> bind_result (load_entries J F ds) (\<lambda>ts. Inl (Thrown m))))"

section \<open>Lemmas\<close>

definition usable_task :: "file_system \<Rightarrow> task \<Rightarrow> bool" where
  "usable_task F t \<longleftrightarrow>
     prompt t \<noteq> [] \<and> 0 < task_timeout t \<and> task_timeout t < 2 ^ 31 \<and>
     fs_read F (path_join (task_dir t) ''tests.cpp'') = Some (test_source t) \<and>
     fs_read F (path_join (task_dir t) ''reference.hpp'') = reference_source t"

lemma to_i32_less: "to_i32 i < 2 ^ 31"
  using sint_less [of "word_of_int i :: 32 word"] by (simp add: to_i32_def)

lemma timeout_of_range: "0 < timeout_of J j \<and> timeout_of J j < 2 ^ 31"
  using to_i32_less by (auto simp: timeout_of_def split: option.split)

lemma load_task_usable: "load_task J F d = Inr t \<Longrightarrow> usable_task F t \<and> task_dir t = d"
  using timeout_of_range [of J]
  by (auto simp: load_task_def task_error_def task_of_manifest_def usable_task_def bind_result_Inr
      Let_def split: option.splits if_splits)

lemma load_entries_all:
  "load_entries J F ds = Inr ts \<longleftrightarrow> map (load_task J F) (filter (is_task_dir F) ds) = map Inr ts"
  by (induction ds arbitrary: ts) (auto simp: bind_result_Inr Cons_eq_map_conv map_eq_Cons_conv)

lemma load_entries_failure:
  "load_entries J F ds = Inl f \<Longrightarrow> \<exists>d. d \<in> set ds \<and> is_task_dir F d \<and> load_task J F d = Inl f"
proof (induction ds)
  case (Cons d ds)
  then show ?case
    by (cases "load_task J F d"; cases "load_entries J F ds") (auto split: if_splits)
qed simp

lemma load_entries_usable:
  assumes "load_entries J F ds = Inr ts"
  shows "list_all (usable_task F) ts"
proof -
  from assms have "map (load_task J F) (filter (is_task_dir F) ds) = map Inr ts"
    by (simp add: load_entries_all)
  then have "\<forall>t \<in> set ts. \<exists>d. load_task J F d = Inr t"
    by (metis (no_types, lifting) imageE image_eqI list.set_map)
  then show ?thesis using load_task_usable by (fastforce simp: list_all_iff)
qed

section \<open>Properties\<close>


end
