(* ===== verification/Check_Header.thy ===== *)
theory Check_Header
  imports Prelude
begin

text \<open>
  The assertion library \<^verbatim>\<open>check.hpp\<close> that \<^verbatim>\<open>src/eval/runner.cpp\<close> writes beside the tests of a task, line
  by line, and the marker the runner waits for.
\<close>

abbreviation (input) BSLASH :: char where "BSLASH \<equiv> CHR 0x5C"

definition start_line :: string where
  "start_line = CHR 0x1E # ''gemini-cpp:started'' @ [NL]"

definition check_lines :: "string list" where
  "check_lines =
     [''#pragma once'',
      ''// Assertion helpers injected by the gemini-cpp eval harness.'',
      ''#include <cstdio>'',
      ''#include <exception>'',
      ''#include <ostream>'',
      ''#include <sstream>'',
      ''#include <string>'',
      [],
      ''namespace check {'',
      ''inline int& failures() { static int count = 0; return count; }'',
      [],
      ''namespace detail {'',
      ''// Tells the harness the binary has started (see kStartMarker in runner.cpp).'',
      ''inline const bool started = [] {'',
      ''  std::fputs('' @ [DQUOTE] @ [BSLASH] @ ''x1egemini-cpp:started'' @ [BSLASH] @ ''n'' @ [DQUOTE] @ '', stderr);'',
      ''  std::fflush(stderr);'',
      ''  return true;'',
      ''}();'',
      [],
      ''template <typename T>'',
      ''std::string show(const T& value) {'',
      ''  if constexpr (requires(std::ostream& os) { os << value; }) {'',
      ''    std::ostringstream os;'',
      ''    os << value;'',
      ''    return os.str();'',
      ''  } else {'',
      ''    return '' @ [DQUOTE] @ ''<unprintable>'' @ [DQUOTE] @ '';'',
      ''  }'',
      ''}'',
      ''}  // namespace detail'',
      [],
      ''inline int report() {'',
      ''  if (failures() == 0) {'',
      ''    std::puts('' @ [DQUOTE] @ ''ALL TESTS PASSED'' @ [DQUOTE] @ '');'',
      ''    return 0;'',
      ''  }'',
      ''  std::fprintf(stderr, '' @ [DQUOTE] @ ''%d check(s) failed'' @ [BSLASH] @ ''n'' @ [DQUOTE] @ '', failures());'',
      ''  return 1;'',
      ''}'',
      ''}  // namespace check'',
      [],
      ''#define CHECK(cond)                                                                   '' @ [BSLASH],
      ''  do {                                                                                '' @ [BSLASH],
      ''    if (!(cond)) {                                                                    '' @ [BSLASH],
      ''      std::fprintf(stderr, '' @ [DQUOTE] @ ''%s:%d: CHECK failed: %s'' @ [BSLASH] @ ''n'' @ [DQUOTE] @ '', __FILE__, __LINE__, #cond);   '' @ [BSLASH],
      ''      ++::check::failures();                                                          '' @ [BSLASH],
      ''    }                                                                                 '' @ [BSLASH],
      ''  } while (0)'',
      [],
      ''#define CHECK_EQ(a, b)                                                                '' @ [BSLASH],
      ''  do {                                                                                '' @ [BSLASH],
      ''    const auto& check_a_ = (a);                                                       '' @ [BSLASH],
      ''    const auto& check_b_ = (b);                                                       '' @ [BSLASH],
      ''    if (!(check_a_ == check_b_)) {                                                    '' @ [BSLASH],
      ''      std::fprintf(stderr, '' @ [DQUOTE] @ ''%s:%d: CHECK_EQ failed: %s == %s (got %s vs %s)'' @ [BSLASH] @ ''n'' @ [DQUOTE] @ '',       '' @ [BSLASH],
      ''                   __FILE__, __LINE__, #a, #b,                                        '' @ [BSLASH],
      ''                   ::check::detail::show(check_a_).c_str(),                           '' @ [BSLASH],
      ''                   ::check::detail::show(check_b_).c_str());                          '' @ [BSLASH],
      ''      ++::check::failures();                                                          '' @ [BSLASH],
      ''    }                                                                                 '' @ [BSLASH],
      ''  } while (0)'',
      [],
      ''#define CHECK_THROWS(expr)                                                            '' @ [BSLASH],
      ''  do {                                                                                '' @ [BSLASH],
      ''    bool check_threw_ = false;                                                        '' @ [BSLASH],
      ''    try { (void)(expr); } catch (...) { check_threw_ = true; }                        '' @ [BSLASH],
      ''    if (!check_threw_) {                                                              '' @ [BSLASH],
      ''      std::fprintf(stderr, '' @ [DQUOTE] @ ''%s:%d: CHECK_THROWS failed: %s'' @ [BSLASH] @ ''n'' @ [DQUOTE] @ '', __FILE__, __LINE__, #expr); '' @ [BSLASH],
      ''      ++::check::failures();                                                          '' @ [BSLASH],
      ''    }                                                                                 '' @ [BSLASH],
      ''  } while (0)'']"

definition check_header :: string where
  "check_header = concat (map (\<lambda>l. l @ [NL]) check_lines)"

end
