(* ===== verification/Runner.thy ===== *)
theory Runner
  imports Chat Check_Header Code_Extract Process Task
begin

text \<open>
  \<^verbatim>\<open>include/gemini/eval/runner.hpp\<close> and \<^verbatim>\<open>src/eval/runner.cpp\<close>: asking a model to solve a task,
  compiling and testing the answer, and feeding failures back.

  The machine the runner works on is a parameter: a record of the file and process operations on
  the state \<^typ>\<open>'w\<close> of the world, which the client works on too.  A call that does not return is
  \<^const>\<open>None\<close>.  The parallel run over many tasks is in theory \<open>Parallel_Run\<close>.
\<close>

section \<open>Outcomes and results\<close>

datatype outcome =
  Pass | CompileError | TestFailure | Timeout | Crash | NoCode | ApiError | HarnessError

fun outcome_to_string :: "outcome \<Rightarrow> string" where
  "outcome_to_string Pass = ''pass''"
| "outcome_to_string CompileError = ''compile_error''"
| "outcome_to_string TestFailure = ''test_failure''"
| "outcome_to_string Timeout = ''timeout''"
| "outcome_to_string Crash = ''crash''"
| "outcome_to_string NoCode = ''no_code''"
| "outcome_to_string ApiError = ''api_error''"
| "outcome_to_string HarnessError = ''harness_error''"

record eval_attempt =
  at_round :: int
  at_outcome :: outcome
  at_detail :: string
  at_source :: string
  compile_time :: int
  run_time :: int

definition new_attempt :: "int \<Rightarrow> outcome \<Rightarrow> string \<Rightarrow> eval_attempt" where
  "new_attempt k out detail =
     \<lparr>at_round = k, at_outcome = out, at_detail = detail, at_source = [], compile_time = 0,
      run_time = 0\<rparr>"

record task_result =
  tr_task :: string
  tr_outcome :: outcome
  attempts_of :: "eval_attempt list"
  tr_usage :: usage_metadata
  model_latency :: int

definition new_task_result :: "string \<Rightarrow> task_result" where
  "new_task_result i =
     \<lparr>tr_task = i, tr_outcome = HarnessError, attempts_of = [], tr_usage = zero_usage, model_latency = 0\<rparr>"

definition passed :: "task_result \<Rightarrow> bool" where
  "passed r \<longleftrightarrow> tr_outcome r = Pass"

definition passed_first_try :: "task_result \<Rightarrow> bool" where
  "passed_first_try r \<longleftrightarrow> attempts_of r \<noteq> [] \<and> at_outcome (hd (attempts_of r)) = Pass"

section \<open>Options\<close>

record 'j runner_options =
  compiler :: string
  std_flag :: string
  extra_flags :: "string list"
  sanitize :: bool
  repair_rounds :: int
  jobs :: int
  work_root :: string
  keep_workdirs :: bool
  use_reference :: bool
  compile_timeout :: int
  startup_grace :: int
  max_log_bytes :: nat
  generation :: "'j generation_config"

text \<open>The constructor, given the temporary directory.\<close>

definition new_runner :: "string \<Rightarrow> 'j runner_options \<Rightarrow> 'j runner_options" where
  "new_runner tmp opts =
     opts\<lparr>work_root := (if work_root opts = [] then path_join tmp ''gemini-cpp-eval'' else work_root opts),
          jobs := (if jobs opts < 1 then 1 else jobs opts),
          repair_rounds := (if repair_rounds opts < 0 then 0 else repair_rounds opts)\<rparr>"

section \<open>The machine\<close>

text \<open>
  \<open>host_mkdir\<close> says whether the directory could be made, with the text of its error code;
  \<open>host_suffix\<close> calls \<^verbatim>\<open>unique_suffix()\<close>, whose text is \<open>unique_suffix\<close> below.
\<close>

record 'w host =
  host_os :: "'w os"
  host_strsignal :: "int \<Rightarrow> string option"
  host_write :: "string \<Rightarrow> string \<Rightarrow> 'w \<Rightarrow> bool \<times> 'w"
  host_mkdir :: "string \<Rightarrow> 'w \<Rightarrow> (bool \<times> string) \<times> 'w"
  host_remove :: "string \<Rightarrow> 'w \<Rightarrow> 'w"
  host_suffix :: "'w \<Rightarrow> string \<times> 'w"

text \<open>The process, the counter that all its threads share, and a number that is drawn.\<close>

definition unique_suffix :: "nat \<Rightarrow> 32 word \<Rightarrow> nat \<Rightarrow> string" where
  "unique_suffix pid counter drawn =
     nat_to_string pid @ ''-'' @ nat_to_string (unat counter) @ ''-'' @ nat_to_string (drawn mod 100000)"

definition work_dir :: "'j runner_options \<Rightarrow> task \<Rightarrow> string \<Rightarrow> string" where
  "work_dir opts t uniq = path_join (work_root opts) (task_id t @ ''-'' @ uniq)"

section \<open>Texts\<close>

text \<open>The head of a text and a quarter of its bound from the tail, around a note.\<close>

definition truncate_log :: "string \<Rightarrow> nat \<Rightarrow> string" where
  "truncate_log s n =
     (if length s \<le> n then s
      else
        let end_part = n div 4; front = n - end_part in
        take front s @ [NL] @ ''... ['' @ nat_to_string (length s - n) @ '' bytes truncated] ...'' @ [NL] @
        drop (length s - end_part) s)"

definition mentions_sanitizer :: "string \<Rightarrow> bool" where
  "mentions_sanitizer s \<longleftrightarrow>
     contains_sub ''AddressSanitizer'' s \<or> contains_sub ''UndefinedBehaviorSanitizer'' s \<or>
     contains_sub ''runtime error:'' s \<or> contains_sub ''LeakSanitizer'' s"

definition code_fence :: string where
  "code_fence = [BTICK, BTICK, BTICK]"

definition system_prompt :: string where
  "system_prompt =
     ''You are an expert C++ engineer. You write correct, portable, standards-conforming C++20 '' @
     ''that compiles cleanly with GCC and Clang. When asked to implement something, reply with '' @
     ''exactly one '' @ code_fence @ ''cpp fenced code block containing the complete contents of solution.hpp '' @
     ''(with #pragma once and every #include it needs). Do not write a main() function and do '' @
     ''not include test code.''"

definition build_prompt :: "task \<Rightarrow> string" where
  "build_prompt t =
     prompt t @ [NL, NL] @
     ''Deliverable: the complete contents of '' @ [BTICK] @ ''solution.hpp'' @ [BTICK] @ '' in a single '' @
     code_fence @ ''cpp block. '' @
     ''It will be compiled with '' @ [BTICK] @ ''-std=c++20 -Wall -pthread'' @ [BTICK] @
     '' and exercised by hidden tests '' @
     ''that '' @ [BTICK] @ ''#include '' @ [DQUOTE] @ ''solution.hpp'' @ [DQUOTE, BTICK] @ ''.''"

definition what_failed :: "outcome \<Rightarrow> string" where
  "what_failed out =
     (case out of
        CompileError \<Rightarrow> ''did not compile''
      | TestFailure \<Rightarrow> ''compiled but failed the hidden tests''
      | Timeout \<Rightarrow> ''timed out (possible deadlock, infinite loop or poor complexity)''
      | Crash \<Rightarrow> ''crashed or triggered a sanitizer error''
      | NoCode \<Rightarrow> ''did not contain a '' @ code_fence @ ''cpp code block''
      | _ \<Rightarrow> ''failed'')"

definition build_repair_prompt :: "eval_attempt \<Rightarrow> string" where
  "build_repair_prompt a =
     ''Your solution '' @ what_failed (at_outcome a) @ ''. Output:'' @ [NL] @ code_fence @ ''text'' @ [NL] @
     at_detail a @ [NL] @ code_fence @ [NL] @
     ''Fix the problem and reply with the complete corrected solution.hpp in a '' @
     ''single '' @ code_fence @ ''cpp block.''"

section \<open>One attempt\<close>

definition binary_name :: "int \<Rightarrow> string" where
  "binary_name k = ''test_bin_r'' @ int_to_string k"

definition compile_options :: "'j runner_options \<Rightarrow> string \<Rightarrow> int \<Rightarrow> process_options" where
  "compile_options opts workdir k =
     default_process
       \<lparr>po_cwd := workdir, po_timeout := compile_timeout opts,
        po_argv :=
          [compiler opts, std_flag opts, ''-O1'', ''-g'', ''-Wall'', ''-pthread'', ''-I.''] @
          (if sanitize opts
           then [''-fsanitize=address,undefined'', ''-fno-omit-frame-pointer'',
                 ''-fno-sanitize-recover=undefined'']
           else []) @
          extra_flags opts @ [''tests.cpp'', ''-o'', binary_name k]\<rparr>"

definition test_options :: "'j runner_options \<Rightarrow> task \<Rightarrow> string \<Rightarrow> int \<Rightarrow> process_options" where
  "test_options opts t workdir k =
     default_process
       \<lparr>po_cwd := workdir, po_timeout := task_timeout t,
        po_argv := [path_join workdir (binary_name k)],
        start_marker := start_line, po_grace := startup_grace opts,
        memory_limit_bytes := (if sanitize opts then None else Some (2 * 2 ^ 30))\<rparr>"

text \<open>The outcome of a run of the tests, and its report.\<close>

definition test_outcome :: "process_result \<Rightarrow> outcome" where
  "test_outcome r =
     (if process_ok r then Pass
      else if timed_out r then Timeout
      else if term_signal r \<noteq> 0 \<or> mentions_sanitizer (captured r) then Crash
      else TestFailure)"

definition finish_attempt ::
  "'w host \<Rightarrow> 'j runner_options \<Rightarrow> process_result \<Rightarrow> eval_attempt \<Rightarrow> eval_attempt" where
  "finish_attempt H opts r a =
     a\<lparr>run_time := duration r - (case startup r of Some s \<Rightarrow> s | None \<Rightarrow> 0),
       at_outcome := test_outcome r,
       at_detail :=
         (if test_outcome r = Pass then at_detail a
          else truncate_log (status_string (host_strsignal H) r @ [NL] @ captured r) (max_log_bytes opts))\<rparr>"

definition exec_failed :: "process_result \<Rightarrow> bool" where
  "exec_failed r \<longleftrightarrow> exit_code r = 127 \<and> starts_with ''exec failed'' (captured r)"

definition compile_report :: "'w host \<Rightarrow> 'j runner_options \<Rightarrow> process_result \<Rightarrow> string" where
  "compile_report H opts b =
     truncate_log
       ((if timed_out b then ''compiler '' @ status_string (host_strsignal H) b @ [NL] else []) @ captured b)
       (max_log_bytes opts)"

definition evaluate ::
  "'w host \<Rightarrow> 'j runner_options \<Rightarrow> task \<Rightarrow> string \<Rightarrow> string \<Rightarrow> int \<Rightarrow> 'w \<Rightarrow> (eval_attempt \<times> 'w) option" where
  "evaluate H opts t source workdir k w =
     (let a = (new_attempt k HarnessError [])\<lparr>at_source := source\<rparr>;
          (written, w) = host_write H (path_join workdir ''solution.hpp'') source w
      in if \<not> written then Some (a\<lparr>at_detail := ''cannot write solution.hpp in '' @ workdir\<rparr>, w)
         else
           Option.bind (run_process (host_os H) (compile_options opts workdir k) w)
             (\<lambda>(built, w).
                case built of
                  Inl e \<Rightarrow> Some (a\<lparr>at_detail := describe e\<rparr>, w)
                | Inr b \<Rightarrow>
                    (let a = a\<lparr>compile_time := duration b\<rparr> in
                     if exec_failed b then
                       Some (a\<lparr>at_detail := ''compiler not found: '' @ compiler opts\<rparr>, w)
                     else if \<not> process_ok b then
                       Some (a\<lparr>at_outcome := CompileError, at_detail := compile_report H opts b\<rparr>, w)
                     else
                       Option.bind (run_process (host_os H) (test_options opts t workdir k) w)
                         (\<lambda>(ran, w).
                            case ran of
                              Inl e \<Rightarrow> Some (a\<lparr>at_detail := describe e\<rparr>, w)
                            | Inr r \<Rightarrow> Some (finish_attempt H opts r a, w)))))"

section \<open>One task\<close>

text \<open>What the runner has of the model: the JSON library, the client's environment and the client.\<close>

record ('j, 'w) model_access =
  ma_json :: "'j json_lib"
  ma_env :: "'w environment"
  ma_client :: client_options

definition runner_chat :: "('j, 'w) model_access \<Rightarrow> 'j runner_options \<Rightarrow> ('j, 'w) chat_setting" where
  "runner_chat M opts =
     \<lparr>chat_json = ma_json M, chat_env = ma_env M, chat_client = ma_client M,
      chat_opts = \<lparr>chat_system = Some system_prompt, chat_config = generation opts, max_tool_rounds = 8\<rparr>,
      chat_registry = None, observer = None\<rparr>"

definition host_now :: "'w host \<Rightarrow> 'w client_state \<Rightarrow> int \<times> 'w client_state" where
  "host_now H s = (let (t, w) = os_now (host_os H) (world s) in (t, s\<lparr>world := w\<rparr>))"

text \<open>An answer of the model is evaluated, or it holds no code.\<close>

definition judge ::
  "'w host \<Rightarrow> 'j runner_options \<Rightarrow> task \<Rightarrow> string \<Rightarrow> int \<Rightarrow> 'j generate_response \<Rightarrow> 'w client_state \<Rightarrow>
   (eval_attempt \<times> 'w client_state) option" where
  "judge H opts t workdir k reply s =
     (case extract_cpp_source (response_text reply) of
        Some source \<Rightarrow>
          map_option (\<lambda>(a, w). (a, s\<lparr>world := w\<rparr>)) (evaluate H opts t source workdir k (world s))
      | None \<Rightarrow>
          Some (new_attempt k NoCode
                  (truncate_log (''finish_reason='' @ response_finish_reason reply @ [NL] @ response_text reply)
                     (max_log_bytes opts)), s))"

text \<open>
  \<open>attempt_rounds n\<close>: the loop with at most \<open>n\<close> rounds left.  It gives the attempts, the session and
  the latency of the model, or what escapes from \<^verbatim>\<open>send\<close> other than an error.
\<close>

fun attempt_rounds ::
  "'w host \<Rightarrow> ('j, 'w) model_access \<Rightarrow> 'j runner_options \<Rightarrow> task \<Rightarrow> string \<Rightarrow> nat \<Rightarrow> int \<Rightarrow> string \<Rightarrow>
   'j chat_session \<Rightarrow> int \<Rightarrow> eval_attempt list \<Rightarrow> 'w client_state \<Rightarrow>
   ((eval_attempt list \<times> 'j chat_session \<times> int) result \<times> 'w client_state) option" where
  "attempt_rounds H M opts t workdir 0 k msg c latency as s = Some (Inr (as, c, latency), s)"
| "attempt_rounds H M opts t workdir (Suc n) k msg c latency as s =
     (let (start, s) = host_now H s;
          (reply, c, s) = send (runner_chat M opts) None msg c s;
          (stop, s) = host_now H s;
          latency = latency + whole_ms (stop - start)
      in case reply of
           Inl (Failed e) \<Rightarrow> Some (Inr (as @ [new_attempt k ApiError (describe e)], c, latency), s)
         | Inl f \<Rightarrow> Some (Inl f, s)
         | Inr r \<Rightarrow>
             Option.bind (judge H opts t workdir k r s)
               (\<lambda>(a, s).
                  if at_outcome a = Pass \<or> at_outcome a = HarnessError
                  then Some (Inr (as @ [a], c, latency), s)
                  else attempt_rounds H M opts t workdir n (k + 1) (build_repair_prompt a) c latency
                         (as @ [a]) s))"

definition with_attempts :: "eval_attempt list \<Rightarrow> task_result \<Rightarrow> task_result" where
  "with_attempts as r =
     r\<lparr>attempts_of := as, tr_outcome := (if as = [] then HarnessError else at_outcome (last as))\<rparr>"

definition clean_up :: "'w host \<Rightarrow> 'j runner_options \<Rightarrow> string \<Rightarrow> 'w client_state \<Rightarrow> 'w client_state" where
  "clean_up H opts workdir s =
     (if keep_workdirs opts then s else s\<lparr>world := host_remove H workdir (world s)\<rparr>)"

definition solve ::
  "'w host \<Rightarrow> ('j, 'w) model_access option \<Rightarrow> 'j runner_options \<Rightarrow> task \<Rightarrow> string \<Rightarrow> 'w client_state \<Rightarrow>
   (task_result result \<times> 'w client_state) option" where
  "solve H M opts t workdir s =
     (let r = new_task_result (task_id t) in
      if use_reference opts then
        (case reference_source t of
           None \<Rightarrow> Some (Inr (with_attempts [new_attempt 0 HarnessError ''task has no reference.hpp''] r), s)
         | Some source \<Rightarrow>
             map_option (\<lambda>(a, w). (Inr (with_attempts [a] r), s\<lparr>world := w\<rparr>))
               (evaluate H opts t source workdir 0 (world s)))
      else
        (case M of
           None \<Rightarrow> Some (Inr (with_attempts [new_attempt 0 HarnessError ''no model client configured''] r), s)
         | Some M \<Rightarrow>
             Option.bind
               (attempt_rounds H M opts t workdir (nat (repair_rounds opts + 1)) 0 (build_prompt t)
                  new_session 0 [] s)
               (\<lambda>(res, s).
                  case res of
                    Inl f \<Rightarrow> Some (Inl f, s)
                  | Inr (as, c, latency) \<Rightarrow>
                      Some (Inr (with_attempts as (r\<lparr>tr_usage := total_usage c, model_latency := latency\<rparr>)), s))))"

text \<open>The directory of the attempt, its two files, the attempts, and the removal of the directory.\<close>

definition prepare ::
  "'w host \<Rightarrow> task \<Rightarrow> string \<Rightarrow> 'w \<Rightarrow> string option \<times> 'w" where
  "prepare H t workdir w =
     (let ((made, m), w) = host_mkdir H workdir w in
      if \<not> made then (Some m, w)
      else
        (let (written, w) = host_write H (path_join workdir ''tests.cpp'') (test_source t) w in
         if \<not> written then (Some m, w)
         else
           (let (written, w) = host_write H (path_join workdir ''check.hpp'') check_header w
            in (if written then None else Some m, w))))"

definition run_task ::
  "'w host \<Rightarrow> ('j, 'w) model_access option \<Rightarrow> 'j runner_options \<Rightarrow> task \<Rightarrow> 'w client_state \<Rightarrow>
   (task_result result \<times> 'w client_state) option" where
  "run_task H M opts t s =
     (let (suffix, w) = host_suffix H (world s);
          workdir = work_dir opts t suffix;
          (problem, w) = prepare H t workdir w;
          s = s\<lparr>world := w\<rparr>
      in case problem of
           Some m \<Rightarrow>
             Some (Inr (with_attempts
                     [new_attempt 0 HarnessError (''cannot prepare '' @ workdir @ '': '' @ m)]
                     (new_task_result (task_id t))), s)
         | None \<Rightarrow>
             map_option
               (\<lambda>(res, s). (res, case res of Inr r \<Rightarrow> clean_up H opts workdir s | Inl f \<Rightarrow> s))
               (solve H M opts t workdir s))"

section \<open>What an attempt's outcome says\<close>

lemma evaluate_cases:
  assumes "evaluate H opts t source workdir k w = Some (a, w')"
  obtains (harness) "at_outcome a = HarnessError"
  | (compile) w1 b where "w1 = snd (host_write H (path_join workdir ''solution.hpp'') source w)"
      "run_process (host_os H) (compile_options opts workdir k) w1 = Some (Inr b, w')"
      "\<not> process_ok b" "at_outcome a = CompileError"
  | (ran) w1 b w2 r where "w1 = snd (host_write H (path_join workdir ''solution.hpp'') source w)"
      "run_process (host_os H) (compile_options opts workdir k) w1 = Some (Inr b, w2)"
      "process_ok b"
      "run_process (host_os H) (test_options opts t workdir k) w2 = Some (Inr r, w')"
      "at_outcome a = test_outcome r"
proof -
  obtain written w1 where w1: "host_write H (path_join workdir ''solution.hpp'') source w = (written, w1)"
    by fastforce
  show thesis
  proof (cases written)
    case False
    with assms w1 show thesis by (intro harness) (auto simp: evaluate_def new_attempt_def)
  next
    case True
    with assms w1 obtain built w2 where c:
      "run_process (host_os H) (compile_options opts workdir k) w1 = Some (built, w2)"
      by (cases "run_process (host_os H) (compile_options opts workdir k) w1") (auto simp: evaluate_def Let_def)
    show thesis
    proof (cases built)
      case (Inl e)
      with assms w1 True c show thesis by (intro harness) (auto simp: evaluate_def new_attempt_def)
    next
      case (Inr b)
      show thesis
      proof (cases "exec_failed b \<or> \<not> process_ok b")
        case True
        with assms w1 \<open>written\<close> c Inr show thesis
          by (cases "exec_failed b")
            (auto simp: evaluate_def new_attempt_def Let_def intro: harness compile [of w1 b])
      next
        case False
        with assms w1 \<open>written\<close> c Inr obtain ran w3 where d:
          "run_process (host_os H) (test_options opts t workdir k) w2 = Some (ran, w3)"
          by (cases "run_process (host_os H) (test_options opts t workdir k) w2") (auto simp: evaluate_def Let_def)
        with assms w1 \<open>written\<close> c Inr False show thesis
          by (cases ran) (auto simp: evaluate_def new_attempt_def Let_def finish_attempt_def
              intro: harness ran [of w1 b w2])
      qed
    qed
  qed
qed

lemma evaluate_keeps:
  assumes "evaluate H opts t source workdir k w = Some (a, w')"
  shows "at_round a = k \<and> at_source a = source"
  using assms
  by (auto simp: evaluate_def new_attempt_def Let_def finish_attempt_def
      split: prod.splits if_splits sum.splits Option.bind_splits)

definition recorded_host :: "'w host \<Rightarrow> ('w \<times> os_event list) host" where
  "recorded_host H =
     \<lparr>host_os = recorded (host_os H), host_strsignal = host_strsignal H,
      host_write = (\<lambda>p c. noting (\<lambda>b. []) (host_write H p c)),
      host_mkdir = (\<lambda>d. noting (\<lambda>b. []) (host_mkdir H d)),
      host_remove = (\<lambda>d (w, es). (host_remove H d w, es)),
      host_suffix = noting (\<lambda>b. []) (host_suffix H)\<rparr>"

lemma recorded_host_sel [simp]:
  "host_os (recorded_host H) = recorded (host_os H)"
  "host_write (recorded_host H) p c = noting (\<lambda>b. []) (host_write H p c)"
  by (simp_all add: recorded_host_def)

text \<open>What happened to the two processes, as the outcome tells it.\<close>

fun bears_out :: "outcome \<Rightarrow> bool \<Rightarrow> child_status list \<Rightarrow> bool" where
  "bears_out Pass killed sts \<longleftrightarrow> \<not> killed \<and> sts = [Exited 0, Exited 0]"
| "bears_out CompileError killed sts \<longleftrightarrow> length sts = 1 \<and> (killed \<or> sts \<noteq> [Exited 0])"
| "bears_out Timeout killed sts \<longleftrightarrow> killed \<and> length sts = 2 \<and> hd sts = Exited 0"
| "bears_out TestFailure killed sts \<longleftrightarrow> \<not> killed \<and> length sts = 2 \<and> hd sts = Exited 0 \<and> last sts \<noteq> Exited 0"
| "bears_out Crash killed sts \<longleftrightarrow> \<not> killed \<and> length sts = 2 \<and> hd sts = Exited 0 \<and> last sts \<noteq> Exited 0"
| "bears_out HarnessError killed sts \<longleftrightarrow> True"
| "bears_out _ killed sts \<longleftrightarrow> False"

lemma test_outcome_bears_out:
  assumes "reports opts r es"
  shows "bears_out (test_outcome r) (KilledGroup \<in> set es) (Exited 0 # ends es)"
proof -
  from assms obtain st where "ends es = [st]" "timed_out r \<longleftrightarrow> KilledGroup \<in> set es"
    by (auto simp: reports_def)
  with reports_ok [OF assms] show ?thesis by (auto simp: test_outcome_def)
qed

lemma evaluate_bears_out:
  assumes "evaluate (recorded_host H) opts t source workdir k (w, base) = Some (a, w', es')"
  shows "\<exists>es. at_outcome a = HarnessError \<or> es' = base @ es \<and> bears_out (at_outcome a) (KilledGroup \<in> set es) (ends es)"
  using assms
proof (cases rule: evaluate_cases)
  case harness
  then show ?thesis by blast
next
  case (compile w1 b)
  then obtain v where w1: "w1 = (v, base)" by (auto simp: noting_def split: prod.splits)
  from compile(2) run_process_report [of "host_os H" _ v base b w' es'] obtain es where
    es: "es' = base @ es" "reports (compile_options opts workdir k) b es" by (auto simp: w1)
  with compile(3) reports_ok [OF es(2)] have "bears_out CompileError (KilledGroup \<in> set es) (ends es)"
    by (auto simp: reports_def)
  with es compile(4) show ?thesis by auto
next
  case (ran w1 b w2 r)
  then obtain v where w1: "w1 = (v, base)" by (auto simp: noting_def split: prod.splits)
  obtain v2 es2 where w2: "w2 = (v2, es2)" by fastforce
  from ran(2) run_process_report [of "host_os H" _ v base b v2 es2] obtain fs where
    fs: "es2 = base @ fs" "reports (compile_options opts workdir k) b fs" by (auto simp: w1 w2)
  from ran(4) run_process_report [of "host_os H" _ v2 es2 r w' es'] obtain gs where
    gs: "es' = es2 @ gs" "reports (test_options opts t workdir k) r gs" by (auto simp: w2)
  from reports_ok [OF fs(2)] ran(3) have "KilledGroup \<notin> set fs" "ends fs = [Exited 0]" by auto
  with test_outcome_bears_out [OF gs(2)] have
    "bears_out (test_outcome r) (KilledGroup \<in> set (fs @ gs)) (ends (fs @ gs))" by simp
  with fs(1) gs(1) ran(5) show ?thesis by (auto intro!: exI [of _ "fs @ gs"])
qed

section \<open>The rounds of a task\<close>

text \<open>
  Attempts numbered from \<open>k\<close> on, at most \<open>n\<close> of them, each of them but the last a failure the model is
  told about; there are fewer than \<open>n\<close> only when the last one passed or cannot be repaired.
\<close>

definition final_outcome :: "outcome \<Rightarrow> bool" where
  "final_outcome out \<longleftrightarrow> out \<in> {Pass, HarnessError, ApiError}"

fun rounds_from :: "int \<Rightarrow> nat \<Rightarrow> eval_attempt list \<Rightarrow> bool" where
  "rounds_from k 0 as \<longleftrightarrow> as = []"
| "rounds_from k (Suc n) [] \<longleftrightarrow> False"
| "rounds_from k (Suc n) (a # as) \<longleftrightarrow>
     at_round a = k \<and> (if final_outcome (at_outcome a) then as = [] else rounds_from (k + 1) n as)"

lemma rounds_from_single: "at_round a = k \<Longrightarrow> final_outcome (at_outcome a) \<Longrightarrow> rounds_from k (Suc n) [a]"
  by simp

lemma rounds_from_passed:
  "rounds_from k n as \<Longrightarrow> Pass \<in> at_outcome ` set as \<longleftrightarrow> as \<noteq> [] \<and> at_outcome (last as) = Pass"
  by (induction k n as rule: rounds_from.induct) (auto simp: final_outcome_def split: if_splits)

lemma rounds_from_first:
  "rounds_from k n (a # as) \<Longrightarrow> at_outcome a = Pass \<longleftrightarrow> at_outcome (last (a # as)) = Pass \<and> as = []"
  by (cases n; cases as) (auto simp: final_outcome_def split: if_splits)

lemma new_attempt_sel [simp]:
  "at_round (new_attempt k out d) = k" "at_outcome (new_attempt k out d) = out"
  by (simp_all add: new_attempt_def)

lemma judge_keeps:
  assumes "judge H opts t workdir k r s = Some (a, s')"
  shows "at_round a = k \<and> at_outcome a \<noteq> ApiError"
proof (cases "extract_cpp_source (response_text r)")
  case None
  with assms show ?thesis by (auto simp: judge_def)
next
  case (Some source)
  with assms obtain w' where ev: "evaluate H opts t source workdir k (world s) = Some (a, w')"
    by (auto simp: judge_def)
  from ev have "at_outcome a \<noteq> ApiError"
    by (cases rule: evaluate_cases) (auto simp: test_outcome_def)
  with evaluate_keeps [OF ev] show ?thesis by simp
qed

lemma attempt_rounds_from:
  "attempt_rounds H M opts t workdir n k msg c latency as s = Some (Inr (as', c', latency'), s') \<Longrightarrow>
   \<exists>bs. as' = as @ bs \<and> rounds_from k n bs"
proof (induction n arbitrary: k msg c latency as s)
  case 0
  then show ?case by simp
next
  case (Suc n)
  obtain start s1 where s1: "host_now H s = (start, s1)" by fastforce
  obtain reply c2 s2 where s2: "send (runner_chat M opts) None msg c s1 = (reply, c2, s2)"
    by (cases "send (runner_chat M opts) None msg c s1")
  obtain stop s3 where s3: "host_now H s2 = (stop, s3)" by fastforce
  note run = Suc.prems [unfolded attempt_rounds.simps s1 s2 s3 Let_def prod.case]
  show ?case
  proof (cases reply)
    case (Inl f)
    with run show ?thesis by (cases f) (auto simp: final_outcome_def)
  next
    case (Inr r)
    with run obtain a s4 where a: "judge H opts t workdir k r s3 = Some (a, s4)"
      by (cases "judge H opts t workdir k r s3") auto
    show ?thesis
    proof (cases "at_outcome a = Pass \<or> at_outcome a = HarnessError")
      case True
      with run Inr a judge_keeps [OF a] show ?thesis by (auto simp: final_outcome_def)
    next
      case False
      with run Inr a have "attempt_rounds H M opts t workdir n (k + 1) (build_repair_prompt a) c2
          (latency + whole_ms (stop - start)) (as @ [a]) s4 = Some (Inr (as', c', latency'), s')" by simp
      from Suc.IH [OF this] obtain bs where "as' = as @ a # bs" "rounds_from (k + 1) n bs" by auto
      with False judge_keeps [OF a] show ?thesis
        by (intro exI [of _ "a # bs"]) (simp add: final_outcome_def)
    qed
  qed
qed

definition budget :: "'j runner_options \<Rightarrow> nat" where
  "budget opts = (if use_reference opts then 1 else nat (repair_rounds opts + 1))"

lemma with_attempts_sel [simp]:
  "tr_task (with_attempts as r) = tr_task r" "attempts_of (with_attempts as r) = as"
  "tr_outcome (with_attempts as r) = (if as = [] then HarnessError else at_outcome (last as))"
  by (simp_all add: with_attempts_def)

definition well_formed_result :: "nat \<Rightarrow> task \<Rightarrow> task_result \<Rightarrow> bool" where
  "well_formed_result n t r \<longleftrightarrow>
     tr_task r = task_id t \<and> rounds_from 0 n (attempts_of r) \<and> attempts_of r \<noteq> [] \<and>
     tr_outcome r = at_outcome (last (attempts_of r))"

lemma with_attempts_well_formed:
  "rounds_from 0 n as \<Longrightarrow> 0 < n \<Longrightarrow> tr_task r = task_id t \<Longrightarrow> well_formed_result n t (with_attempts as r)"
  by (cases n; cases as) (auto simp: well_formed_result_def)

lemma new_task_result_task [simp]: "tr_task (new_task_result i) = i"
  by (simp add: new_task_result_def)

lemma harness_problem:
  "0 < n \<Longrightarrow> well_formed_result n t (with_attempts [new_attempt 0 HarnessError m] (new_task_result (task_id t)))"
  by (cases n) (auto intro!: with_attempts_well_formed simp: final_outcome_def)

lemma solve_well_formed:
  assumes "solve H M opts t workdir s = Some (Inr r, s')" and "0 \<le> repair_rounds opts"
  shows "well_formed_result (budget opts) t r"
proof -
  have pos: "0 < budget opts" using assms(2) by (simp add: budget_def)
  show ?thesis
  proof (cases "use_reference opts")
    case True
    show ?thesis
    proof (cases "reference_source t")
      case None
      with assms(1) True harness_problem [OF pos] show ?thesis by (auto simp: solve_def)
    next
      case (Some source)
      with assms(1) True obtain a w' where "evaluate H opts t source workdir 0 (world s) = Some (a, w')"
        and r: "r = with_attempts [a] (new_task_result (task_id t))" by (auto simp: solve_def)
      with evaluate_keeps have "rounds_from 0 (budget opts) [a]"
        using True by (fastforce simp: budget_def)
      with pos r show ?thesis by (auto intro: with_attempts_well_formed)
    qed
  next
    case False
    show ?thesis
    proof (cases M)
      case None
      with assms(1) False harness_problem [OF pos] show ?thesis by (auto simp: solve_def)
    next
      case (Some m)
      let ?rounds = "attempt_rounds H m opts t workdir (nat (repair_rounds opts + 1)) 0 (build_prompt t)
        new_session 0 [] s"
      from assms(1) False Some obtain as c latency s2 where "?rounds = Some (Inr (as, c, latency), s2)"
        and r: "r = with_attempts as ((new_task_result (task_id t))
              \<lparr>tr_usage := total_usage c, model_latency := latency\<rparr>)"
        by (cases ?rounds) (auto simp: solve_def split: sum.splits)
      from attempt_rounds_from [OF this(1)] False have "rounds_from 0 (budget opts) as"
        by (simp add: budget_def)
      with pos r show ?thesis by (auto intro: with_attempts_well_formed)
    qed
  qed
qed

lemma run_task_well_formed:
  assumes "run_task H M opts t s = Some (Inr r, s')" and "0 \<le> repair_rounds opts"
  shows "well_formed_result (budget opts) t r"
proof -
  obtain suffix w1 where w1: "host_suffix H (world s) = (suffix, w1)" by fastforce
  let ?dir = "work_dir opts t suffix"
  obtain problem w2 where w2: "prepare H t ?dir w1 = (problem, w2)" by fastforce
  show ?thesis
  proof (cases problem)
    case None
    with assms(1) w1 w2 obtain s2 where "solve H M opts t ?dir (s\<lparr>world := w2\<rparr>) = Some (Inr r, s2)"
      by (auto simp: run_task_def Let_def)
    from solve_well_formed [OF this assms(2)] show ?thesis .
  next
    case (Some m)
    with assms w1 w2 harness_problem [of "budget opts"] show ?thesis
      by (auto simp: run_task_def Let_def budget_def)
  qed
qed

lemma well_formed_result_passed:
  assumes "well_formed_result n t r"
  shows "passed r \<longleftrightarrow> Pass \<in> at_outcome ` set (attempts_of r)"
    and "passed_first_try r \<longleftrightarrow> passed r \<and> length (attempts_of r) = 1"
    and "length (attempts_of r) \<le> n"
proof -
  have len: "rounds_from k m as \<Longrightarrow> length as \<le> m" for k m as
    by (induction k m as rule: rounds_from.induct) (auto split: if_splits)
  obtain a as where as: "attempts_of r = a # as" using assms by (cases "attempts_of r") (auto simp: well_formed_result_def)
  from assms rounds_from_passed [of 0 n "attempts_of r"] show "passed r \<longleftrightarrow> Pass \<in> at_outcome ` set (attempts_of r)"
    by (auto simp: well_formed_result_def passed_def)
  from assms rounds_from_first [of 0 n a as] as show "passed_first_try r \<longleftrightarrow> passed r \<and> length (attempts_of r) = 1"
    by (auto simp: well_formed_result_def passed_def passed_first_try_def)
  from assms len show "length (attempts_of r) \<le> n" by (auto simp: well_formed_result_def)
qed

section \<open>A scripted machine\<close>

definition script_host :: "os_script host" where
  "script_host =
     \<lparr>host_os = scripted_os, host_strsignal = (\<lambda>n. None), host_write = (\<lambda>p c w. (True, w)),
      host_mkdir = (\<lambda>d w. ((True, []), w)), host_remove = (\<lambda>d w. w), host_suffix = (\<lambda>w. (''0'', w))\<rparr>"

lemma script_host_sel [simp]:
  "host_os script_host = scripted_os" "host_strsignal script_host n = None"
  "host_write script_host p c w = (True, w)" "host_mkdir script_host p w = ((True, []), w)"
  "host_remove script_host p w = w" "host_suffix script_host w = (''0'', w)"
  by (simp_all add: script_host_def)

text \<open>A child that writes nothing and exits with 0.\<close>

definition silent_success :: process_result where
  "silent_success = new_result\<lparr>exit_code := 0\<rparr>"

lemma silent_run:
  assumes "po_argv opts \<noteq> []" "remaining_ms (first_deadline opts t) t \<noteq> 0"
  shows "run_process scripted_os opts (t, [], [ReadEof] # bs, []) = Some (Inr silent_success, t, [], bs, [])"
    and "run_process (recorded scripted_os) opts ((t, [], [ReadEof] # bs, []), es) =
      Some (Inr silent_success, (t, [], bs, []), es @ [ChildGone (Exited 0)])"
  using assms
  by (simp_all add: run_process_def gather.simps drain.simps reap.simps finish_process_def with_status_def
      new_result_def silent_success_def whole_ms_def noting_def note_read_def note_wait_def)

definition sample_task :: task where
  "sample_task =
     \<lparr>task_id = ''t'', task_title = ''t'', prompt = ''p'', tags = [], task_timeout = 10000, task_dir = ''d'',
      test_source = [], reference_source = Some ''int x;''\<rparr>"

definition sample_runner :: "jval runner_options" where
  "sample_runner =
     \<lparr>compiler = ''c++'', std_flag = ''-std=c++20'', extra_flags = [], sanitize = False, repair_rounds = 0,
      jobs = 1, work_root = ''w'', keep_workdirs = False, use_reference = True, compile_timeout = 120000,
      startup_grace = 60000, max_log_bytes = 6000, generation = plain_config sample_json\<rparr>"

lemma sample_process_options:
  "po_argv (compile_options sample_runner d k) \<noteq> []" "po_argv (test_options sample_runner sample_task d k) \<noteq> []"
  "remaining_ms (first_deadline (compile_options sample_runner d k) 0) 0 \<noteq> 0"
  "remaining_ms (first_deadline (test_options sample_runner sample_task d k) 0) 0 \<noteq> 0"
  by (simp_all add: compile_options_def test_options_def sample_runner_def default_process_def
      first_deadline_def ns_per_ms_def remaining_ms_def whole_ms_def sample_task_def start_line_def)

definition sample_world :: os_script where
  "sample_world = (0, [], [[ReadEof], [ReadEof]], [])"

definition sample_attempt :: eval_attempt where
  "sample_attempt = (new_attempt 0 Pass [])\<lparr>at_source := ''int x;''\<rparr>"

lemma silent_success_sel [simp]:
  "process_ok silent_success" "\<not> exec_failed silent_success" "duration silent_success = 0"
  "startup silent_success = None"
  by (simp_all add: silent_success_def new_result_def process_ok_def exec_failed_def)

lemma sample_evaluate:
  "evaluate script_host sample_runner sample_task ''int x;'' d 0 sample_world = Some (sample_attempt, 0, [], [], [])"
  "evaluate (recorded_host script_host) sample_runner sample_task ''int x;'' d 0 (sample_world, []) =
     Some (sample_attempt, (0, [], [], []), [ChildGone (Exited 0), ChildGone (Exited 0)])"
  by (simp_all add: evaluate_def sample_world_def silent_run sample_process_options noting_def
      finish_attempt_def test_outcome_def sample_attempt_def new_attempt_def)

section \<open>Properties\<close>

text \<open>
  C10: an attempt's outcome is the truth about the two processes it ran.  A pass means that the
  compiler and then the tests ran to their end, were not killed and exited with 0; a compile error,
  that only the compiler ran and it failed; a timeout, that the tests were killed after the
  compiler succeeded; a test failure or a crash, that the tests ended by themselves and not with
  exit code 0.
\<close>

theorem evaluate_outcome:
  assumes "evaluate (recorded_host H) opts t source workdir k (w, []) = Some (a, w', es)"
  shows "bears_out (at_outcome a) (KilledGroup \<in> set es) (ends es) \<and> at_round a = k \<and> at_source a = source"
  using evaluate_bears_out [OF assms] evaluate_keeps [OF assms] by auto

theorem evaluate_outcome_witness:
  "bears_out Pass False [Exited 0, Exited 0] \<and> at_source sample_attempt = ''int x;''"
  using evaluate_outcome [OF sample_evaluate(2) [of "''d''"]] by (simp add: sample_attempt_def gone_def)

text \<open>
  C11: the attempts of a task.  They are numbered from 0, there are at most one more than the repair
  rounds asked for, all but the last one are failures that can be repaired, and the loop stops early
  only at a pass, a harness error or an error of the model; the result's outcome is that of the last
  attempt, a task is passed exactly when one of its attempts passed, and at the first try exactly
  when there was no other attempt.
\<close>

theorem run_task_attempts:
  assumes "run_task H M (new_runner tmp opts) t s = Some (Inr r, s')"
  shows "tr_task r = task_id t \<and> attempts_of r \<noteq> [] \<and> tr_outcome r = at_outcome (last (attempts_of r)) \<and>
    rounds_from 0 (if use_reference opts then 1 else nat (max 0 (repair_rounds opts)) + 1) (attempts_of r) \<and>
    length (attempts_of r) \<le> nat (max 0 (repair_rounds opts)) + 1 \<and>
    (passed r \<longleftrightarrow> Pass \<in> at_outcome ` set (attempts_of r)) \<and>
    (passed_first_try r \<longleftrightarrow> passed r \<and> length (attempts_of r) = 1)"
proof -
  let ?n = "if use_reference opts then 1 else nat (max 0 (repair_rounds opts)) + 1"
  have "0 \<le> repair_rounds (new_runner tmp opts)" by (simp add: new_runner_def)
  from run_task_well_formed [OF assms this]
  have "well_formed_result (budget (new_runner tmp opts)) t r" .
  moreover have "budget (new_runner tmp opts) = ?n"
    by (simp add: budget_def new_runner_def nat_add_distrib)
  ultimately have "well_formed_result ?n t r" by simp
  with well_formed_result_passed [OF this] show ?thesis
    by (auto simp: well_formed_result_def split: if_splits)
qed

theorem run_task_attempts_witness:
  "\<exists>r s'. run_task script_host None (new_runner ''tmp'' sample_runner) sample_task (start_state sample_world) =
     Some (Inr r, s') \<and> attempts_of r = [sample_attempt] \<and> passed_first_try r"
proof -
  have new: "new_runner ''tmp'' sample_runner = sample_runner"
    by (simp add: new_runner_def sample_runner_def)
  have "use_reference sample_runner" "reference_source sample_task = Some ''int x;''"
    by (simp_all add: sample_runner_def sample_task_def)
  then have run: "run_task script_host None (new_runner ''tmp'' sample_runner) sample_task (start_state sample_world) =
    Some (Inr (with_attempts [sample_attempt] (new_task_result ''t'')),
      (start_state sample_world)\<lparr>world := (0, [], [], [])\<rparr>)"
    by (simp add: new run_task_def prepare_def solve_def sample_evaluate clean_up_def start_state_def)
      (simp add: sample_task_def)
  from run_task_attempts [OF run] run show ?thesis by (auto simp: sample_attempt_def new_attempt_def passed_def)
qed


text \<open>The text after the last separator, and what comes before it.\<close>

lemma last_separator:
  assumes "a @ ''-'' @ x = b @ ''-'' @ y" "CHR ''-'' \<notin> set x" "CHR ''-'' \<notin> set y"
  shows "a = b \<and> x = y"
proof -
  have "rev x @ CHR ''-'' # rev a = rev y @ CHR ''-'' # rev b" using arg_cong [OF assms(1), of rev] by simp
  then show ?thesis
    using sep_unique [of "CHR ''-''" "rev x" "rev y" "rev a" "rev b"] assms(2,3) by simp
qed

lemma nat_to_string_no_dash: "CHR ''-'' \<notin> set (nat_to_string n)"
  using nat_to_string_digits [of n] by (auto simp: is_digit_def byte_def)

lemma path_join_ends: "\<exists>p. path_join d n = p @ n"
  by (auto simp: path_join_def)

text \<open>
  Two evaluations never share a work directory, whatever the tasks are called and whatever numbers
  are drawn, as long as the processes are different ones or the shared counter has moved on in between.
\<close>

theorem work_dirs_distinct:
  assumes "(pid, c) \<noteq> (pid', c')"
  shows "work_dir opts t (unique_suffix pid c r) \<noteq> work_dir opts' t' (unique_suffix pid' c' r')"
proof
  assume same: "work_dir opts t (unique_suffix pid c r) = work_dir opts' t' (unique_suffix pid' c' r')"
  obtain p p' where p: "work_dir opts t (unique_suffix pid c r) = p @ task_id t @ ''-'' @ unique_suffix pid c r"
    "work_dir opts' t' (unique_suffix pid' c' r') = p' @ task_id t' @ ''-'' @ unique_suffix pid' c' r'"
    unfolding work_dir_def
    using path_join_ends [of "work_root opts" "task_id t @ ''-'' @ unique_suffix pid c r"]
      path_join_ends [of "work_root opts'" "task_id t' @ ''-'' @ unique_suffix pid' c' r'"] by blast
  let ?i = "p @ task_id t" and ?j = "p' @ task_id t'"
  have "(((?i @ ''-'' @ nat_to_string pid) @ ''-'' @ nat_to_string (unat c)) @ ''-'' @ nat_to_string (r mod 100000)) =
    (((?j @ ''-'' @ nat_to_string pid') @ ''-'' @ nat_to_string (unat c')) @ ''-'' @ nat_to_string (r' mod 100000))"
    using same [unfolded p] by (simp add: unique_suffix_def)
  note this [THEN last_separator, OF nat_to_string_no_dash nat_to_string_no_dash, THEN conjunct1]
  note counters = this [THEN last_separator, OF nat_to_string_no_dash nat_to_string_no_dash]
  note pids = counters [THEN conjunct1, THEN last_separator, OF nat_to_string_no_dash nat_to_string_no_dash]
  have "pid = pid'" "unat c = unat c'"
    using counters pids by (metis digits_value_nat_to_string)+
  then show False using assms by (simp add: unsigned_word_eqI)
qed

theorem work_dirs_distinct_witness:
  "work_dir sample_runner sample_task (unique_suffix 1 0 5) \<noteq> work_dir sample_runner sample_task (unique_suffix 1 1 5)"
  using work_dirs_distinct [of 1 0 1 1] by simp

end
