(* ===== verification/Report.thy ===== *)
theory Report
  imports Runner
begin

text \<open>
  \<^verbatim>\<open>src/eval/report.cpp\<close> and \<^verbatim>\<open>Report\<close> of \<^verbatim>\<open>include/gemini/eval/runner.hpp\<close>: the counts over the results
  of a run, and the report as JSON and as Markdown.
\<close>

section \<open>Counts\<close>

record 'j report =
  rep_model :: string
  started_at :: string
  wall_time :: int
  rep_options :: "'j runner_options"
  results :: "task_result list"

definition all_outcomes :: "outcome list" where
  "all_outcomes = [Pass, CompileError, TestFailure, Timeout, Crash, NoCode, ApiError, HarnessError]"

fun count_outcome :: "outcome \<Rightarrow> task_result list \<Rightarrow> nat" where
  "count_outcome out [] = 0"
| "count_outcome out (r # rs) = (if tr_outcome r = out then 1 else 0) + count_outcome out rs"

definition passed_count :: "'j report \<Rightarrow> nat" where
  "passed_count rep = count_outcome Pass (results rep)"

fun first_try_count :: "task_result list \<Rightarrow> nat" where
  "first_try_count [] = 0"
| "first_try_count (r # rs) = (if passed_first_try r then 1 else 0) + first_try_count rs"

definition total_usage_of :: "'j report \<Rightarrow> usage_metadata" where
  "total_usage_of rep = fold (\<lambda>r u. add_usage u (tr_usage r)) (results rep) zero_usage"

section \<open>JSON\<close>

definition attempt_to_json :: "'j json_lib \<Rightarrow> eval_attempt \<Rightarrow> 'j" where
  "attempt_to_json J a =
     json_object J
       [(''round'', json_int J (at_round a)),
        (''outcome'', json_string J (outcome_to_string (at_outcome a))),
        (''compile_ms'', json_int J (compile_time a)),
        (''run_ms'', json_int J (run_time a)),
        (''detail'', json_string J (at_detail a)),
        (''source'', json_string J (at_source a))]"

definition result_to_json :: "'j json_lib \<Rightarrow> task_result \<Rightarrow> 'j" where
  "result_to_json J r =
     json_object J
       [(''task'', json_string J (tr_task r)),
        (''outcome'', json_string J (outcome_to_string (tr_outcome r))),
        (''passed_first_try'', json_bool J (passed_first_try r)),
        (''model_latency_ms'', json_int J (model_latency r)),
        (''prompt_tokens'', json_int J (prompt_tokens (tr_usage r))),
        (''output_tokens'', json_int J (candidates_tokens (tr_usage r))),
        (''attempts'', json_array J (map (attempt_to_json J) (attempts_of r)))]"

definition outcomes_to_json :: "'j json_lib \<Rightarrow> task_result list \<Rightarrow> 'j" where
  "outcomes_to_json J rs =
     fold (\<lambda>out j. json_set J j (outcome_to_string out) (json_int J (int (count_outcome out rs))))
       all_outcomes (json_object J [])"

definition options_to_json :: "'j json_lib \<Rightarrow> 'i runner_options \<Rightarrow> 'j" where
  "options_to_json J opts =
     json_object J
       [(''compiler'', json_string J (compiler opts)), (''std'', json_string J (std_flag opts)),
        (''sanitize'', json_bool J (sanitize opts)), (''repair_rounds'', json_int J (repair_rounds opts)),
        (''jobs'', json_int J (jobs opts))]"

definition summary_to_json :: "'j json_lib \<Rightarrow> 'i report \<Rightarrow> 'j" where
  "summary_to_json J rep =
     (let u = total_usage_of rep in
      json_object J
        [(''tasks'', json_int J (int (length (results rep)))),
         (''passed'', json_int J (int (passed_count rep))),
         (''passed_first_try'', json_int J (int (first_try_count (results rep)))),
         (''outcomes'', outcomes_to_json J (results rep)),
         (''prompt_tokens'', json_int J (prompt_tokens u)),
         (''output_tokens'', json_int J (candidates_tokens u)),
         (''thinking_tokens'', json_int J (thoughts_tokens u))])"

definition report_to_json :: "'j json_lib \<Rightarrow> 'i report \<Rightarrow> 'j" where
  "report_to_json J rep =
     (let j = json_null J;
          j = json_set J j ''model'' (json_string J (rep_model rep));
          j = json_set J j ''started_at'' (json_string J (started_at rep));
          j = json_set J j ''wall_time_ms'' (json_int J (wall_time rep));
          j = json_set J j ''options'' (options_to_json J (rep_options rep));
          j = json_set J j ''summary'' (summary_to_json J rep)
      in json_set J j ''results'' (json_array J (map (result_to_json J) (results rep))))"

section \<open>Markdown\<close>

text \<open>\<^verbatim>\<open>%.1f\<close> of a finite number that is not negative.\<close>

definition tenths :: "rat \<Rightarrow> string" where
  "tenths q = (let n = nat (round_even (q * 10)) in nat_to_string (n div 10) @ ''.'' @ nat_to_string (n mod 10))"

definition percent :: "nat \<Rightarrow> nat \<Rightarrow> string" where
  "percent part whole =
     (if whole = 0 then ''n/a''
      else
        (case d_div (d_mul (double_of_int 100) (double_of_int (int part))) (double_of_int (int whole)) of
           Fin s q \<Rightarrow> (if s then ''-'' else []) @ tenths q
         | Inf s \<Rightarrow> (if s then ''-inf'' else ''inf'')
         | NaN \<Rightarrow> ''nan'') @ ''%'')"

text \<open>The lines of a text; nothing follows a final newline.\<close>

definition log_lines :: "string \<Rightarrow> string list" where
  "log_lines s = (let ls = split_on NL s in if last ls = [] then butlast ls else ls)"

definition telling :: "string \<Rightarrow> bool" where
  "telling l \<longleftrightarrow> contains_sub ''error:'' l \<or> contains_sub ''CHECK'' l \<or> contains_sub ''Sanitizer'' l"

fun pick_line :: "string \<Rightarrow> string list \<Rightarrow> string" where
  "pick_line first [] = first"
| "pick_line first (l # ls) =
     (let first = (if first = [] then l else first) in if telling l then l else pick_line first ls)"

definition cell_char :: "char \<Rightarrow> char" where
  "cell_char c = (if c = CHR ''|'' then CHR ''/'' else if c = BTICK then SQUOTE else c)"

definition ellipsis :: string where
  "ellipsis = [CHR 0xE2, CHR 0x80, CHR 0xA6]"

definition summary_line :: "string \<Rightarrow> nat \<Rightarrow> string" where
  "summary_line s n =
     (let l = pick_line [] (log_lines s);
          l = (if n < length l then take n l @ ellipsis else l)
      in map cell_char l)"

definition check_mark :: string where
  "check_mark = [CHR 0xE2, CHR 0x9C, CHR 0x85, SP]"

definition cross_mark :: string where
  "cross_mark = [CHR 0xE2, CHR 0x9D, CHR 0x8C, SP]"

definition first_failure :: "eval_attempt list \<Rightarrow> string" where
  "first_failure as =
     (case filter (\<lambda>a. at_outcome a \<noteq> Pass) as of
        [] \<Rightarrow> []
      | a # _ \<Rightarrow> outcome_to_string (at_outcome a) @ '': '' @ summary_line (at_detail a) 100)"

definition table_row :: "task_result \<Rightarrow> string" where
  "table_row r =
     ''| '' @ [BTICK] @ tr_task r @ [BTICK] @ '' | '' @
     (if passed r then check_mark else cross_mark) @ outcome_to_string (tr_outcome r) @ '' | '' @
     nat_to_string (length (attempts_of r)) @ '' | '' @ first_failure (attempts_of r) @ '' |'' @ [NL]"

definition quoted :: "string \<Rightarrow> string" where
  "quoted s = [BTICK] @ s @ [BTICK]"

definition metric_row :: "string \<Rightarrow> nat \<Rightarrow> nat \<Rightarrow> string" where
  "metric_row name part n =
     ''| '' @ name @ '' | '' @ nat_to_string part @ ''/'' @ nat_to_string n @ '' ('' @ percent part n @ '') |'' @ [NL]"

definition report_to_markdown :: "'j report \<Rightarrow> string" where
  "report_to_markdown rep =
     (let n = length (results rep); opts = rep_options rep; u = total_usage_of rep in
      ''# gemini-cpp eval report'' @ [NL, NL] @
      ''- **Model:** '' @ quoted (rep_model rep) @ [NL] @
      ''- **Started:** '' @ started_at rep @ [NL] @
      ''- **Wall time:** '' @ int_to_string (wall_time rep) @ '' ms'' @ [NL] @
      ''- **Compiler:** '' @ quoted (compiler opts @ '' '' @ std_flag opts) @
        (if sanitize opts then '' with ASan+UBSan'' else []) @ [NL] @
      ''- **Repair rounds:** '' @ int_to_string (repair_rounds opts) @ [NL, NL] @
      ''| Metric | Value |'' @ [NL] @ ''|---|---|'' @ [NL] @
      metric_row ''pass@1'' (first_try_count (results rep)) n @
      metric_row ''pass after repair'' (passed_count rep) n @
      ''| prompt tokens | '' @ int_to_string (prompt_tokens u) @ '' |'' @ [NL] @
      ''| output tokens | '' @ int_to_string (candidates_tokens u) @ '' |'' @ [NL, NL] @
      ''| Task | Outcome | Attempts | First failure |'' @ [NL] @ ''|---|---|---|---|'' @ [NL] @
      concat (map table_row (results rep)))"

section \<open>Counts and filters\<close>

lemma count_outcome_filter: "count_outcome out rs = length (filter (\<lambda>r. tr_outcome r = out) rs)"
  by (induction rs) auto

lemma first_try_filter: "first_try_count rs = length (filter passed_first_try rs)"
  by (induction rs) auto

lemma outcomes_partition: "sum_list (map (\<lambda>out. count_outcome out rs) all_outcomes) = length rs"
proof (induction rs)
  case (Cons r rs)
  then show ?case by (cases "tr_outcome r") (simp_all add: all_outcomes_def)
qed (simp add: all_outcomes_def)

lemma outcome_to_string_inj: "inj outcome_to_string"
proof (rule injI)
  fix a b
  assume "outcome_to_string a = outcome_to_string b"
  then show "a = b" by (cases a; cases b) simp_all
qed

context json_api begin

lemma find_fold_set:
  "json_is_object J j \<Longrightarrow> distinct (map f xs) \<Longrightarrow>
   json_is_object J (fold (\<lambda>x j. json_set J j (f x) (g x)) xs j) \<and>
   (\<forall>x \<in> set xs. json_find J (fold (\<lambda>x j. json_set J j (f x) (g x)) xs j) (f x) = Some (g x)) \<and>
   (\<forall>k. k \<notin> f ` set xs \<longrightarrow> json_find J (fold (\<lambda>x j. json_set J j (f x) (g x)) xs j) k = json_find J j k)"
proof (induction xs arbitrary: j)
  case (Cons x xs)
  have "json_is_object J (json_set J j (f x) (g x))" using Cons.prems by (simp add: set_is_object)
  from Cons.IH [OF this] Cons.prems show ?case by (auto simp: find_set)
qed simp

lemma find_outcomes:
  "json_find J (outcomes_to_json J rs) (outcome_to_string out) = Some (json_int J (int (count_outcome out rs)))"
proof -
  have "distinct (map outcome_to_string all_outcomes)" by (simp add: all_outcomes_def)
  moreover have "out \<in> set all_outcomes" by (cases out) (simp_all add: all_outcomes_def)
  ultimately show ?thesis
    using find_fold_set [of "json_object J []" outcome_to_string all_outcomes
        "\<lambda>out. json_int J (int (count_outcome out rs))"]
    by (simp add: outcomes_to_json_def object_is_object)
qed

lemma find_summary:
  "json_find J (summary_to_json J rep) ''tasks'' = Some (json_int J (int (length (results rep))))"
  "json_find J (summary_to_json J rep) ''passed'' = Some (json_int J (int (passed_count rep)))"
  "json_find J (summary_to_json J rep) ''passed_first_try'' = Some (json_int J (int (first_try_count (results rep))))"
  "json_find J (summary_to_json J rep) ''outcomes'' = Some (outcomes_to_json J (results rep))"
  by (simp_all add: summary_to_json_def Let_def find_object)

lemma find_report:
  "json_find J (report_to_json J rep) ''summary'' = Some (summary_to_json J rep)"
  "json_find J (report_to_json J rep) ''results'' = Some (json_array J (map (result_to_json J) (results rep)))"
  by (simp_all add: report_to_json_def Let_def api_simps)

end

section \<open>Table cells\<close>

lemma log_lines_plain: "l \<in> set (log_lines s) \<Longrightarrow> NL \<notin> set l"
  using split_on_no_sep [of l NL s] in_set_butlastD [of l "split_on NL s"]
  by (auto simp: log_lines_def Let_def split: if_splits)

lemma pick_line_in: "pick_line first ls \<in> insert first (set ls)"
  by (induction first ls rule: pick_line.induct) (auto simp: Let_def)

lemma pick_line_plain: "NL \<notin> set (pick_line [] (log_lines s))"
  using pick_line_in [of "[]" "log_lines s"] log_lines_plain by fastforce

lemma summary_line_cell: "{NL, CHR 0x7C, BTICK} \<inter> set (summary_line s n) = {}"
proof -
  have "NL \<notin> set (if n < length (pick_line [] (log_lines s)) then take n (pick_line [] (log_lines s)) @ ellipsis
    else pick_line [] (log_lines s))"
    using pick_line_plain [of s] in_set_takeD [of NL n] by (auto simp: ellipsis_def)
  then show ?thesis by (auto simp: summary_line_def Let_def cell_char_def split: if_splits)
qed

lemma digits_cell: "{NL, CHR 0x7C} \<inter> set (nat_to_string n) = {}"
  using nat_to_string_digits [of n] by (auto simp: is_digit_def byte_def)

lemma outcome_cell: "{NL, CHR 0x7C} \<inter> set (outcome_to_string out) = {}"
  by (cases out) simp_all

lemma first_failure_cell: "{NL, CHR 0x7C} \<inter> set (first_failure as) = {}"
  using outcome_cell summary_line_cell by (fastforce simp: first_failure_def split: list.split)

lemma count_list_notin: "x \<notin> set xs \<Longrightarrow> count_list xs x = 0"
  by (induction xs) auto

section \<open>Properties\<close>

text \<open>
  The numbers of the JSON report: the summary counts all the tasks, the passed ones, those passed
  at the first try and those of each outcome, the counts of the outcomes add up to the number of
  tasks, and there is one result per task, in order.
\<close>

theorem report_json:
  assumes "json_api J"
  shows "\<exists>summary counts. json_find J (report_to_json J rep) ''summary'' = Some summary \<and>
    json_find J (report_to_json J rep) ''results'' = Some (json_array J (map (result_to_json J) (results rep))) \<and>
    json_find J summary ''tasks'' = Some (json_int J (int (length (results rep)))) \<and>
    json_find J summary ''passed'' = Some (json_int J (int (length (filter passed (results rep))))) \<and>
    json_find J summary ''passed_first_try'' =
      Some (json_int J (int (length (filter passed_first_try (results rep))))) \<and>
    map (\<lambda>out. json_find J (outcomes_to_json J (results rep)) (outcome_to_string out)) all_outcomes =
      map (\<lambda>n. Some (json_int J (int n))) counts \<and>
    json_find J summary ''outcomes'' = Some (outcomes_to_json J (results rep)) \<and>
    sum_list counts = length (results rep)"
proof -
  let ?rs = "results rep"
  have "map (\<lambda>out. json_find J (outcomes_to_json J ?rs) (outcome_to_string out)) all_outcomes =
      map (\<lambda>n. Some (json_int J (int n))) (map (\<lambda>out. count_outcome out ?rs) all_outcomes)"
    by (simp add: json_api.find_outcomes [OF assms])
  moreover have "passed_count rep = length (filter passed ?rs)"
    by (simp add: passed_count_def count_outcome_filter passed_def [abs_def])
  ultimately show ?thesis
    using json_api.find_report [OF assms, of rep] json_api.find_summary [OF assms, of rep]
      outcomes_partition [of ?rs]
    by (metis first_try_filter)
qed

definition sample_report :: "jval report" where
  "sample_report =
     \<lparr>rep_model = ''m'', started_at = [], wall_time = 0, rep_options = sample_runner,
      results = [with_attempts [sample_attempt] (new_task_result ''t'')]\<rparr>"

theorem report_json_witness:
  "\<exists>summary. json_find (jval_lib Map.empty Map.empty) (report_to_json (jval_lib Map.empty Map.empty) sample_report)
       ''summary'' = Some summary \<and>
     json_find (jval_lib Map.empty Map.empty) summary ''passed'' = Some (JInt 1)"
proof -
  have "filter passed (results sample_report) = results sample_report" "length (results sample_report) = 1"
    by (simp_all add: sample_report_def passed_def sample_attempt_def new_attempt_def)
  with report_json [OF reference_json.json_api_axioms, of Map.empty Map.empty sample_report] show ?thesis
    by (metis jval_lib_sel(5) of_nat_1)
qed

text \<open>
  C37: the Markdown table stays a table: whatever the output of a failed attempt, the row of a task is
  one line with exactly the five bars of its four cells, provided that the task's id has neither.
\<close>

theorem report_rows:
  assumes "{NL, CHR 0x7C} \<inter> set (tr_task r) = {}"
  shows "\<exists>l. table_row r = l @ [NL] \<and> NL \<notin> set l \<and> count_list l (CHR 0x7C) = 5"
proof -
  let ?l = "''| '' @ [BTICK] @ tr_task r @ [BTICK] @ '' | '' @
     (if passed r then check_mark else cross_mark) @ outcome_to_string (tr_outcome r) @ '' | '' @
     nat_to_string (length (attempts_of r)) @ '' | '' @ first_failure (attempts_of r) @ '' |''"
  have "table_row r = ?l @ [NL]" by (simp add: table_row_def)
  moreover have "NL \<notin> set ?l"
    using assms outcome_cell digits_cell first_failure_cell by (auto simp: check_mark_def cross_mark_def)
  moreover have "count_list ?l (CHR 0x7C) = 5"
    using assms outcome_cell digits_cell first_failure_cell
    by (simp add: count_list_append count_list_notin check_mark_def cross_mark_def)
  ultimately show ?thesis by blast
qed

theorem report_rows_witness:
  "\<exists>l. table_row (new_task_result ''lru-cache'') = l @ [NL] \<and> NL \<notin> set l \<and> count_list l (CHR 0x7C) = 5"
  by (rule report_rows) simp

end
