(* ===== verification/Parallel_Run.thy ===== *)
theory Parallel_Run
  imports Report
begin

text \<open>
  \<^verbatim>\<open>Runner::run\<close> of \<^verbatim>\<open>src/eval/runner.cpp\<close>: the workers that share the counter of the next task, the
  results and the lock around the callback, as a step relation in which the workers interleave.

  \<open>solves t r\<close> says that evaluating the task \<open>t\<close> can give the result \<open>r\<close>; the last section takes the
  runs of \<^const>\<open>run_task\<close> for it.
\<close>

section \<open>Workers\<close>

text \<open>
  A worker is about to fetch a task, evaluates one, waits for the lock to report it, is in the
  callback, or has left the loop.
\<close>

datatype worker = Fetching | Evaluating nat | Waiting nat | Calling nat | Finished

record pool =
  next_task :: nat
  slots :: "task_result option list"
  workers :: "worker list"
  lock_owner :: "nat option"
  reported :: "nat list"

definition worker_count :: "int \<Rightarrow> nat \<Rightarrow> nat" where
  "worker_count j n = (let m = min (nat j) n in if m \<le> 1 then 1 else m)"

definition start_pool :: "int \<Rightarrow> nat \<Rightarrow> pool" where
  "start_pool j n =
     \<lparr>next_task = 0, slots = replicate n None, workers = replicate (worker_count j n) Fetching,
      lock_owner = None, reported = []\<rparr>"

definition move :: "nat \<Rightarrow> worker \<Rightarrow> pool \<Rightarrow> pool" where
  "move k x p = p\<lparr>workers := (workers p)[k := x]\<rparr>"

definition worker_at :: "pool \<Rightarrow> nat \<Rightarrow> worker \<Rightarrow> bool" where
  "worker_at p k x \<longleftrightarrow> k < length (workers p) \<and> workers p ! k = x"

inductive step :: "(task \<Rightarrow> task_result \<Rightarrow> bool) \<Rightarrow> task list \<Rightarrow> bool \<Rightarrow> pool \<Rightarrow> pool \<Rightarrow> bool"
  for solves tasks callback where
  take_task: "\<lbrakk>worker_at p k Fetching; next_task p < length tasks\<rbrakk> \<Longrightarrow>
    step solves tasks callback p (move k (Evaluating (next_task p)) (p\<lparr>next_task := next_task p + 1\<rparr>))"
| leave: "\<lbrakk>worker_at p k Fetching; length tasks \<le> next_task p\<rbrakk> \<Longrightarrow>
    step solves tasks callback p (move k Finished (p\<lparr>next_task := next_task p + 1\<rparr>))"
| evaluated: "\<lbrakk>worker_at p k (Evaluating i); solves (tasks ! i) r\<rbrakk> \<Longrightarrow>
    step solves tasks callback p
      (move k (if callback then Waiting i else Fetching) (p\<lparr>slots := (slots p)[i := Some r]\<rparr>))"
| acquire: "\<lbrakk>worker_at p k (Waiting i); lock_owner p = None\<rbrakk> \<Longrightarrow>
    step solves tasks callback p (move k (Calling i) (p\<lparr>lock_owner := Some k\<rparr>))"
| report: "worker_at p k (Calling i) \<Longrightarrow>
    step solves tasks callback p
      (move k Fetching (p\<lparr>lock_owner := None, reported := reported p @ [i]\<rparr>))"

inductive_cases step_elim: "step solves tasks callback p q"

inductive reachable :: "(task \<Rightarrow> task_result \<Rightarrow> bool) \<Rightarrow> task list \<Rightarrow> bool \<Rightarrow> int \<Rightarrow> pool \<Rightarrow> bool"
  for solves tasks callback j where
  at_start: "reachable solves tasks callback j (start_pool j (length tasks))"
| one_step: "\<lbrakk>reachable solves tasks callback j p; step solves tasks callback p q\<rbrakk> \<Longrightarrow>
    reachable solves tasks callback j q"

section \<open>The invariant\<close>

fun holds :: "worker \<Rightarrow> nat option" where
  "holds (Evaluating i) = Some i"
| "holds (Waiting i) = Some i"
| "holds (Calling i) = Some i"
| "holds _ = None"

definition holder :: "pool \<Rightarrow> nat \<Rightarrow> nat \<Rightarrow> bool" where
  "holder p k i \<longleftrightarrow> k < length (workers p) \<and> holds (workers p ! k) = Some i"

definition busy :: "pool \<Rightarrow> nat \<Rightarrow> bool" where
  "busy p i \<longleftrightarrow> (\<exists>k. holder p k i)"

definition evaluating :: "pool \<Rightarrow> nat \<Rightarrow> bool" where
  "evaluating p i \<longleftrightarrow> (\<exists>k. worker_at p k (Evaluating i))"

definition taken_once :: "nat \<Rightarrow> pool \<Rightarrow> bool" where
  "taken_once n p \<longleftrightarrow>
     (\<forall>k i. holder p k i \<longrightarrow> i < next_task p \<and> i < n) \<and>
     (\<forall>k l i. holder p k i \<and> holder p l i \<longrightarrow> k = l)"

definition filled :: "(task \<Rightarrow> task_result \<Rightarrow> bool) \<Rightarrow> task list \<Rightarrow> pool \<Rightarrow> bool" where
  "filled solves tasks p \<longleftrightarrow>
     length (slots p) = length tasks \<and>
     (\<forall>i < length tasks. slots p ! i = None \<longleftrightarrow> next_task p \<le> i \<or> evaluating p i) \<and>
     (\<forall>i < length tasks. \<forall>r. slots p ! i = Some r \<longrightarrow> solves (tasks ! i) r)"

definition reports_once :: "nat \<Rightarrow> bool \<Rightarrow> pool \<Rightarrow> bool" where
  "reports_once n callback p \<longleftrightarrow>
     (if callback then distinct (reported p) \<and>
        (\<forall>i. i \<in> set (reported p) \<longleftrightarrow> i < next_task p \<and> i < n \<and> \<not> busy p i)
      else reported p = [])"

fun is_calling :: "worker \<Rightarrow> bool" where
  "is_calling (Calling i) = True"
| "is_calling _ = False"

fun is_reporting :: "worker \<Rightarrow> bool" where
  "is_reporting (Waiting i) = True"
| "is_reporting (Calling i) = True"
| "is_reporting _ = False"

definition calling :: "pool \<Rightarrow> nat \<Rightarrow> bool" where
  "calling p k \<longleftrightarrow> k < length (workers p) \<and> is_calling (workers p ! k)"

definition reporting :: "pool \<Rightarrow> nat \<Rightarrow> bool" where
  "reporting p k \<longleftrightarrow> k < length (workers p) \<and> is_reporting (workers p ! k)"

definition exclusive :: "bool \<Rightarrow> pool \<Rightarrow> bool" where
  "exclusive callback p \<longleftrightarrow>
     (\<forall>k. calling p k \<longleftrightarrow> lock_owner p = Some k) \<and> (callback \<or> (\<forall>k. \<not> reporting p k))"

definition leaves_late :: "nat \<Rightarrow> pool \<Rightarrow> bool" where
  "leaves_late n p \<longleftrightarrow> (\<forall>k. worker_at p k Finished \<longrightarrow> n \<le> next_task p)"

lemma move_sel [simp]:
  "next_task (move k x p) = next_task p" "slots (move k x p) = slots p" "lock_owner (move k x p) = lock_owner p"
  "reported (move k x p) = reported p" "workers (move k x p) = (workers p)[k := x]"
  by (simp_all add: move_def)

lemma worker_at_move:
  "worker_at (move k x p) l y \<longleftrightarrow> l < length (workers p) \<and> (if l = k then x = y else worker_at p l y)"
  by (auto simp: worker_at_def)

lemma holder_move:
  "holder (move k x p) l i \<longleftrightarrow> l < length (workers p) \<and> (if l = k then holds x = Some i else holder p l i)"
  by (auto simp: holder_def)

lemma worker_at_update [simp]:
  "worker_at (p\<lparr>next_task := m\<rparr>) k x = worker_at p k x" "worker_at (p\<lparr>slots := ss\<rparr>) k x = worker_at p k x"
  "worker_at (p\<lparr>lock_owner := ow\<rparr>) k x = worker_at p k x" "worker_at (p\<lparr>reported := is\<rparr>) k x = worker_at p k x"
  "holder (p\<lparr>next_task := m\<rparr>) k i = holder p k i" "holder (p\<lparr>slots := ss\<rparr>) k i = holder p k i"
  "holder (p\<lparr>lock_owner := ow\<rparr>) k i = holder p k i" "holder (p\<lparr>reported := is\<rparr>) k i = holder p k i"
  by (simp_all add: worker_at_def holder_def)

lemma worker_here:
  assumes "worker_at p k x"
  shows "k < length (workers p)" "holder p k i \<longleftrightarrow> holds x = Some i" "worker_at p k y \<longleftrightarrow> y = x"
  using assms by (auto simp: worker_at_def holder_def)

lemma holder_length: "holder p k i \<Longrightarrow> k < length (workers p)"
  and worker_at_length: "worker_at p k x \<Longrightarrow> k < length (workers p)"
  by (simp_all add: holder_def worker_at_def)

text \<open>A step changes one worker; the others keep what they have.\<close>

definition elsewhere :: "pool \<Rightarrow> nat \<Rightarrow> nat \<Rightarrow> bool" where
  "elsewhere p k i \<longleftrightarrow> (\<exists>l. l \<noteq> k \<and> holder p l i)"

definition evaluated_elsewhere :: "pool \<Rightarrow> nat \<Rightarrow> nat \<Rightarrow> bool" where
  "evaluated_elsewhere p k i \<longleftrightarrow> (\<exists>l. l \<noteq> k \<and> worker_at p l (Evaluating i))"

lemma elsewhere_evaluated: "evaluated_elsewhere p k i \<Longrightarrow> elsewhere p k i"
  by (auto simp: elsewhere_def evaluated_elsewhere_def worker_at_def holder_def)

lemma busy_at: "worker_at p k x \<Longrightarrow> busy p i \<longleftrightarrow> holds x = Some i \<or> elsewhere p k i"
  unfolding busy_def elsewhere_def by (metis worker_here(2))

lemma evaluating_at: "worker_at p k x \<Longrightarrow> evaluating p i \<longleftrightarrow> x = Evaluating i \<or> evaluated_elsewhere p k i"
  unfolding evaluating_def evaluated_elsewhere_def by (metis worker_here(3))

definition others_once :: "pool \<Rightarrow> nat \<Rightarrow> bool" where
  "others_once p k \<longleftrightarrow> (\<forall>l m i. l \<noteq> k \<and> m \<noteq> k \<and> holder p l i \<and> holder p m i \<longrightarrow> l = m)"

lemma elsewhere_move [simp]:
  "elsewhere (move k y p) k i = elsewhere p k i"
  "evaluated_elsewhere (move k y p) k i = evaluated_elsewhere p k i"
  by (auto simp: elsewhere_def evaluated_elsewhere_def holder_move worker_at_move dest: holder_length worker_at_length)

lemma elsewhere_update [simp]:
  "elsewhere (p\<lparr>next_task := m\<rparr>) k i = elsewhere p k i" "elsewhere (p\<lparr>slots := ss\<rparr>) k i = elsewhere p k i"
  "elsewhere (p\<lparr>lock_owner := ow\<rparr>) k i = elsewhere p k i" "elsewhere (p\<lparr>reported := is\<rparr>) k i = elsewhere p k i"
  "evaluated_elsewhere (p\<lparr>next_task := m\<rparr>) k i = evaluated_elsewhere p k i"
  "evaluated_elsewhere (p\<lparr>slots := ss\<rparr>) k i = evaluated_elsewhere p k i"
  "evaluated_elsewhere (p\<lparr>lock_owner := ow\<rparr>) k i = evaluated_elsewhere p k i"
  "evaluated_elsewhere (p\<lparr>reported := is\<rparr>) k i = evaluated_elsewhere p k i"
  by (simp_all add: elsewhere_def evaluated_elsewhere_def)

lemma moved_here: "worker_at p k x \<Longrightarrow> worker_at (move k y p) k y"
  by (simp add: worker_at_def)

lemma others_once_move [simp]: "others_once (move k y p) k = others_once p k"
  by (auto simp: others_once_def holder_move dest: holder_length)

lemma others_once_update [simp]:
  "others_once (p\<lparr>next_task := m\<rparr>) k = others_once p k" "others_once (p\<lparr>slots := ss\<rparr>) k = others_once p k"
  "others_once (p\<lparr>lock_owner := ow\<rparr>) k = others_once p k" "others_once (p\<lparr>reported := is\<rparr>) k = others_once p k"
  by (simp_all add: others_once_def)

lemma taken_once_at:
  assumes "worker_at p k x"
  shows "taken_once n p \<longleftrightarrow>
     (\<forall>i. holds x = Some i \<longrightarrow> i < next_task p \<and> i < n \<and> \<not> elsewhere p k i) \<and>
     (\<forall>i. elsewhere p k i \<longrightarrow> i < next_task p \<and> i < n) \<and> others_once p k"
proof -
  have here: "holds x = Some i \<longleftrightarrow> holder p k i" for i using worker_here(2) [OF assms] by simp
  have "(\<forall>l i. holder p l i \<longrightarrow> i < next_task p \<and> i < n) \<longleftrightarrow>
      (\<forall>i. holds x = Some i \<longrightarrow> i < next_task p \<and> i < n) \<and>
      (\<forall>i. elsewhere p k i \<longrightarrow> i < next_task p \<and> i < n)"
    unfolding elsewhere_def here by metis
  moreover have "(\<forall>l m i. holder p l i \<and> holder p m i \<longrightarrow> l = m) \<longleftrightarrow>
      (\<forall>i. holds x = Some i \<longrightarrow> \<not> elsewhere p k i) \<and> others_once p k"
    unfolding elsewhere_def others_once_def here by metis
  ultimately show ?thesis unfolding taken_once_def by blast
qed

lemma taken_elsewhere: "worker_at p k x \<Longrightarrow> taken_once n p \<Longrightarrow> elsewhere p k i \<Longrightarrow> i < next_task p \<and> i < n"
  and taken_here: "worker_at p k x \<Longrightarrow> taken_once n p \<Longrightarrow> holds x = Some i \<Longrightarrow>
    i < next_task p \<and> i < n \<and> \<not> elsewhere p k i"
  by (simp_all add: taken_once_at)

text \<open>Before and after the step of a worker, in terms of that worker and the others.\<close>

lemma worker_step:
  assumes "worker_at p k x"
  shows "busy p i \<longleftrightarrow> holds x = Some i \<or> elsewhere p k i"
    and "evaluating p i \<longleftrightarrow> x = Evaluating i \<or> evaluated_elsewhere p k i"
    and "busy (move k y (p\<lparr>next_task := m\<rparr>)) i \<longleftrightarrow> holds y = Some i \<or> elsewhere p k i"
    and "busy (move k y (p\<lparr>slots := ss\<rparr>)) i \<longleftrightarrow> holds y = Some i \<or> elsewhere p k i"
    and "busy (move k y (p\<lparr>lock_owner := ow\<rparr>)) i \<longleftrightarrow> holds y = Some i \<or> elsewhere p k i"
    and "busy (move k y (p\<lparr>lock_owner := ow, reported := is\<rparr>)) i \<longleftrightarrow> holds y = Some i \<or> elsewhere p k i"
    and "evaluating (move k y (p\<lparr>next_task := m\<rparr>)) i \<longleftrightarrow> y = Evaluating i \<or> evaluated_elsewhere p k i"
    and "evaluating (move k y (p\<lparr>slots := ss\<rparr>)) i \<longleftrightarrow> y = Evaluating i \<or> evaluated_elsewhere p k i"
    and "evaluating (move k y (p\<lparr>lock_owner := ow\<rparr>)) i \<longleftrightarrow> y = Evaluating i \<or> evaluated_elsewhere p k i"
    and "evaluating (move k y (p\<lparr>lock_owner := ow, reported := is\<rparr>)) i \<longleftrightarrow>
      y = Evaluating i \<or> evaluated_elsewhere p k i"
proof -
  have at: "worker_at (move k y q) k y" if "workers q = workers p" for q y
    using assms that by (simp add: worker_at_def)
  show "busy p i \<longleftrightarrow> holds x = Some i \<or> elsewhere p k i"
    "evaluating p i \<longleftrightarrow> x = Evaluating i \<or> evaluated_elsewhere p k i"
    using busy_at [OF assms] evaluating_at [OF assms] by auto
qed (use assms moved_here busy_at evaluating_at in \<open>simp add: busy_at [OF moved_here] evaluating_at [OF moved_here]\<close>)+

lemma step_filled:
  assumes "step solves tasks callback p q" "taken_once (length tasks) p" "filled solves tasks p"
  shows "filled solves tasks q"
  using assms(1)
proof cases
  case (take_task k)
  have "\<not> elsewhere p k (next_task p)" using taken_elsewhere [OF take_task(2) assms(2)] by blast
  with take_task assms(3) elsewhere_evaluated show ?thesis
    by (auto simp: filled_def worker_step [OF take_task(2)] le_less Suc_le_eq)
next
  case (leave k)
  with assms(3) show ?thesis by (simp add: filled_def worker_step [OF leave(2)])
next
  case (evaluated k i r)
  have "i < next_task p \<and> i < length tasks \<and> \<not> elsewhere p k i"
    using taken_here [OF evaluated(2) assms(2)] by simp
  with evaluated assms(3) elsewhere_evaluated show ?thesis
    by (auto simp: filled_def worker_step [OF evaluated(2)] nth_list_update)
next
  case (acquire k i)
  with assms(3) show ?thesis by (simp add: filled_def worker_step [OF acquire(2)])
next
  case (report k i)
  with assms(3) show ?thesis by (simp add: filled_def worker_step [OF report(2)])
qed

lemma step_reports_once:
  assumes "step solves tasks callback p q" "taken_once (length tasks) p" "exclusive callback p"
    "reports_once (length tasks) callback p"
  shows "reports_once (length tasks) callback q"
  using assms(1)
proof cases
  case (take_task k)
  with assms(4) taken_elsewhere [OF take_task(2) assms(2)] show ?thesis
    by (auto simp: reports_once_def worker_step [OF take_task(2)] less_Suc_eq)
next
  case (leave k)
  with assms(4) show ?thesis by (auto simp: reports_once_def worker_step [OF leave(2)])
next
  case (evaluated k i r)
  with assms(4) show ?thesis by (auto simp: reports_once_def worker_step [OF evaluated(2)])
next
  case (acquire k i)
  with assms(4) show ?thesis by (auto simp: reports_once_def worker_step [OF acquire(2)])
next
  case (report k i)
  from report assms(3) have "callback" by (auto simp: exclusive_def reporting_def worker_at_def)
  with report assms(4) taken_here [OF report(2) assms(2), of i] show ?thesis
    by (auto simp: reports_once_def worker_step [OF report(2)])
qed

lemma step_taken_once:
  assumes "step solves tasks callback p q" "taken_once (length tasks) p"
  shows "taken_once (length tasks) q"
  using assms(1)
proof cases
  case (take_task k)
  from taken_once_at [OF take_task(2)] assms(2) moved_here [of _ k] take_task show ?thesis
    by (auto simp: taken_once_at [OF moved_here] less_Suc_eq)
next
  case (leave k)
  from taken_once_at [OF leave(2)] assms(2) leave show ?thesis
    by (auto simp: taken_once_at [OF moved_here] less_Suc_eq)
next
  case (evaluated k i r)
  from taken_once_at [OF evaluated(2)] assms(2) evaluated show ?thesis
    by (auto simp: taken_once_at [OF moved_here])
next
  case (acquire k i)
  from taken_once_at [OF acquire(2)] assms(2) acquire show ?thesis
    by (auto simp: taken_once_at [OF moved_here])
next
  case (report k i)
  from taken_once_at [OF report(2)] assms(2) report show ?thesis
    by (auto simp: taken_once_at [OF moved_here])
qed

lemma calling_move:
  "worker_at p k x \<Longrightarrow> calling (move k y p) l \<longleftrightarrow> (if l = k then is_calling y else calling p l)"
  "worker_at p k x \<Longrightarrow> reporting (move k y p) l \<longleftrightarrow> (if l = k then is_reporting y else reporting p l)"
  by (auto simp: calling_def reporting_def worker_at_def)

lemma calling_update [simp]:
  "calling (p\<lparr>next_task := m\<rparr>) k = calling p k" "calling (p\<lparr>slots := ss\<rparr>) k = calling p k"
  "calling (p\<lparr>lock_owner := ow\<rparr>) k = calling p k" "calling (p\<lparr>reported := is\<rparr>) k = calling p k"
  "reporting (p\<lparr>next_task := m\<rparr>) k = reporting p k" "reporting (p\<lparr>slots := ss\<rparr>) k = reporting p k"
  "reporting (p\<lparr>lock_owner := ow\<rparr>) k = reporting p k" "reporting (p\<lparr>reported := is\<rparr>) k = reporting p k"
  by (simp_all add: calling_def reporting_def)

lemma calling_at: "worker_at p k x \<Longrightarrow> calling p k = is_calling x \<and> reporting p k = is_reporting x"
  by (auto simp: calling_def reporting_def worker_at_def)

lemma step_exclusive:
  assumes "step solves tasks callback p q" "exclusive callback p"
  shows "exclusive callback q"
  using assms(1)
proof cases
  case (take_task k)
  with assms(2) calling_at [OF take_task(2)] calling_move [of "p\<lparr>next_task := next_task p + 1\<rparr>" k Fetching] show ?thesis
    by (auto simp: exclusive_def)
next
  case (leave k)
  with assms(2) calling_at [OF leave(2)] calling_move [of "p\<lparr>next_task := next_task p + 1\<rparr>" k Fetching] show ?thesis
    by (auto simp: exclusive_def)
next
  case (evaluated k i r)
  with assms(2) calling_at [OF evaluated(2)]
    calling_move [of "p\<lparr>slots := (slots p)[i := Some r]\<rparr>" k "Evaluating i"] show ?thesis
    by (auto simp: exclusive_def)
next
  case (acquire k i)
  with assms(2) calling_at [OF acquire(2)] calling_move [of "p\<lparr>lock_owner := Some k\<rparr>" k "Waiting i"] show ?thesis
    by (auto simp: exclusive_def)
next
  case (report k i)
  with assms(2) calling_at [OF report(2)]
    calling_move [of "p\<lparr>lock_owner := None, reported := reported p @ [i]\<rparr>" k "Calling i"] show ?thesis
    by (auto simp: exclusive_def)
qed

lemma step_leaves_late:
  assumes "step solves tasks callback p q" "leaves_late (length tasks) p"
  shows "leaves_late (length tasks) q"
  using assms(1)
  by cases (use assms(2) in \<open>force simp: leaves_late_def worker_at_move split: if_splits\<close>)+

definition consistent :: "(task \<Rightarrow> task_result \<Rightarrow> bool) \<Rightarrow> task list \<Rightarrow> bool \<Rightarrow> pool \<Rightarrow> bool" where
  "consistent solves tasks callback p \<longleftrightarrow>
     taken_once (length tasks) p \<and> filled solves tasks p \<and> exclusive callback p \<and>
     reports_once (length tasks) callback p \<and> leaves_late (length tasks) p"

lemma start_worker: "k < length (workers (start_pool j n)) \<Longrightarrow> workers (start_pool j n) ! k = Fetching"
  by (simp add: start_pool_def)

lemma consistent_start: "consistent solves tasks callback (start_pool j (length tasks))"
proof -
  let ?p = "start_pool j (length tasks)"
  have "\<not> holder ?p k i" "\<not> calling ?p k" "\<not> reporting ?p k" "\<not> worker_at ?p k Finished"
    "\<not> worker_at ?p k (Evaluating i)" for k i
    using start_worker [of k j "length tasks"]
    by (auto simp: holder_def calling_def reporting_def worker_at_def)
  then show ?thesis
    by (auto simp: consistent_def taken_once_def filled_def exclusive_def reports_once_def leaves_late_def
        busy_def evaluating_def start_pool_def)
qed

lemma consistent_step:
  "step solves tasks callback p q \<Longrightarrow> consistent solves tasks callback p \<Longrightarrow> consistent solves tasks callback q"
  unfolding consistent_def
  using step_taken_once step_filled step_exclusive step_reports_once step_leaves_late by metis

lemma reachable_consistent: "reachable solves tasks callback j p \<Longrightarrow> consistent solves tasks callback p"
  by (induction rule: reachable.induct) (auto intro: consistent_start consistent_step)

section \<open>Progress and termination\<close>

definition all_finished :: "pool \<Rightarrow> bool" where
  "all_finished p \<longleftrightarrow> list_all (\<lambda>x. x = Finished) (workers p)"

lemma not_finished_step:
  assumes "consistent solves tasks callback p" "\<not> all_finished p" "list_all (\<lambda>t. \<exists>r. solves t r) tasks"
  shows "\<exists>q. step solves tasks callback p q"
proof -
  from assms(2) obtain k where k: "k < length (workers p)" "workers p ! k \<noteq> Finished"
    by (auto simp: all_finished_def list_all_length)
  show ?thesis
  proof (cases "workers p ! k")
    case Fetching
    with k have "worker_at p k Fetching" by (simp add: worker_at_def)
    then show ?thesis by (meson step.leave step.take_task not_le_imp_less)
  next
    case (Evaluating i)
    with k have at: "worker_at p k (Evaluating i)" by (simp add: worker_at_def)
    have "i < length tasks" using taken_here [OF at] assms(1) by (auto simp: consistent_def)
    with assms(3) obtain r where "solves (tasks ! i) r" by (auto simp: list_all_length)
    with at show ?thesis by (blast intro: step.intros)
  next
    case (Waiting i)
    with k have at: "worker_at p k (Waiting i)" by (simp add: worker_at_def)
    show ?thesis
    proof (cases "lock_owner p")
      case None
      with at show ?thesis by (blast intro: step.intros)
    next
      case (Some l)
      with assms(1) have "calling p l" by (auto simp: consistent_def exclusive_def)
      then obtain m where "worker_at p l (Calling m)"
        by (auto simp: calling_def worker_at_def elim: is_calling.elims)
      then show ?thesis by (blast intro: step.intros)
    qed
  next
    case (Calling i)
    with k have "worker_at p k (Calling i)" by (simp add: worker_at_def)
    then show ?thesis by (blast intro: step.intros)
  qed (use k in simp)
qed

text \<open>Work left: four units for a task not yet taken, and what the workers still have to do.\<close>

fun effort :: "worker \<Rightarrow> nat" where
  "effort Finished = 0"
| "effort Fetching = 1"
| "effort (Calling i) = 2"
| "effort (Waiting i) = 3"
| "effort (Evaluating i) = 4"

definition work_left :: "nat \<Rightarrow> pool \<Rightarrow> nat" where
  "work_left n p = 4 * (n - next_task p) + sum_list (map effort (workers p))"

lemma sum_list_move:
  "k < length xs \<Longrightarrow> sum_list (map f (xs[k := y])) + f (xs ! k) = sum_list (map f xs) + (f y :: nat)"
  by (induction xs arbitrary: k) (auto split: nat.split simp: nth_Cons')

lemma step_work_left:
  assumes "step solves tasks callback p q"
  shows "work_left (length tasks) q < work_left (length tasks) p"
  using assms
proof cases
  case (take_task k)
  then show ?thesis
    using sum_list_move [of k "workers p" effort "Evaluating (next_task p)"]
    by (simp add: work_left_def worker_at_def)
next
  case (leave k)
  then show ?thesis
    using sum_list_move [of k "workers p" effort Finished] by (simp add: work_left_def worker_at_def)
next
  case (evaluated k i r)
  then show ?thesis
    using sum_list_move [of k "workers p" effort "if callback then Waiting i else Fetching"]
    by (simp add: work_left_def worker_at_def split: if_splits)
next
  case (acquire k i)
  then show ?thesis
    using sum_list_move [of k "workers p" effort "Calling i"] by (simp add: work_left_def worker_at_def)
next
  case (report k i)
  then show ?thesis
    using sum_list_move [of k "workers p" effort Fetching] by (simp add: work_left_def worker_at_def)
qed

lemma no_endless_run:
  assumes "\<And>i. step solves tasks callback (f i) (f (Suc i))"
  shows False
proof -
  have "work_left (length tasks) (f i) + i \<le> work_left (length tasks) (f 0)" for i
  proof (induction i)
    case (Suc i)
    with step_work_left [OF assms [of i]] show ?case by simp
  qed simp
  from this [of "Suc (work_left (length tasks) (f 0))"] show False by simp
qed

lemma finished_filled:
  assumes "consistent solves tasks callback p" "all_finished p" "workers p \<noteq> []"
  shows "list_all2 (\<lambda>t x. \<exists>r. x = Some r \<and> solves t r) tasks (slots p)"
    and "if callback then distinct (reported p) \<and> set (reported p) = {..<length tasks} else reported p = []"
proof -
  have idle: "\<not> busy p i" "\<not> evaluating p i" for i
    using assms(2) by (auto simp: busy_def evaluating_def holder_def worker_at_def all_finished_def list_all_length)
  have "worker_at p 0 Finished"
    using assms(2,3) by (auto simp: worker_at_def all_finished_def list_all_length)
  then have late: "length tasks \<le> next_task p" using assms(1) by (auto simp: consistent_def leaves_late_def)
  show "list_all2 (\<lambda>t x. \<exists>r. x = Some r \<and> solves t r) tasks (slots p)"
    unfolding list_all2_conv_all_nth
  proof (intro conjI allI impI)
    show "length tasks = length (slots p)" using assms(1) by (simp add: consistent_def filled_def)
    fix i
    assume i: "i < length tasks"
    then have "slots p ! i \<noteq> None" using assms(1) late idle by (auto simp: consistent_def filled_def)
    with i assms(1) show "\<exists>r. slots p ! i = Some r \<and> solves (tasks ! i) r"
      by (auto simp: consistent_def filled_def)
  qed
  show "if callback then distinct (reported p) \<and> set (reported p) = {..<length tasks} else reported p = []"
    using assms(1) late idle by (auto simp: consistent_def reports_once_def)
qed

lemma worker_count_pos: "0 < worker_count j n"
  by (auto simp: worker_count_def Let_def min_def)

lemma reachable_workers: "reachable solves tasks callback j p \<Longrightarrow> length (workers p) = worker_count j (length tasks)"
  by (induction rule: reachable.induct) (auto simp: start_pool_def elim!: step_elim)

section \<open>The run of the evaluation\<close>

definition task_runs ::
  "'w host \<Rightarrow> ('j, 'w) model_access option \<Rightarrow> 'j runner_options \<Rightarrow> task \<Rightarrow> task_result \<Rightarrow> bool" where
  "task_runs H M opts t r \<longleftrightarrow> (\<exists>s s'. run_task H M opts t s = Some (Inr r, s'))"

definition run_model :: "('j, 'w) model_access option \<Rightarrow> 'j runner_options \<Rightarrow> string" where
  "run_model M opts =
     (if use_reference opts then ''reference''
      else case M of Some m \<Rightarrow> model (ma_client m) | None \<Rightarrow> ''none'')"

definition slot_result :: "task_result option \<Rightarrow> task_result" where
  "slot_result x = (case x of Some r \<Rightarrow> r | None \<Rightarrow> new_task_result [])"

definition run_report ::
  "('j, 'w) model_access option \<Rightarrow> 'j runner_options \<Rightarrow> int \<Rightarrow> int \<Rightarrow> int \<Rightarrow> pool \<Rightarrow> 'j report" where
  "run_report M opts now start stop p =
     \<lparr>rep_model = run_model M opts, started_at = iso_now now, wall_time = whole_ms (stop - start), rep_options = opts,
      results = map slot_result (slots p)\<rparr>"

section \<open>One task and one worker\<close>

definition sample_result :: task_result where
  "sample_result = with_attempts [sample_attempt] (new_task_result ''t'')"

definition final_pool :: pool where
  "final_pool = \<lparr>next_task = 2, slots = [Some sample_result], workers = [Finished], lock_owner = None, reported = [0]\<rparr>"

lemma reach_final:
  assumes "solves sample_task sample_result"
  shows "reachable solves [sample_task] True 1 final_pool"
proof -
  let ?S = "\<lambda>m s x l rep. \<lparr>next_task = m, slots = [s], workers = [x], lock_owner = l, reported = rep\<rparr>"
  let ?r = "reachable solves [sample_task] True 1" and ?step = "step solves [sample_task] True"
  have "?r (?S 0 None Fetching None [])"
    using at_start [of solves "[sample_task]" True 1] by (simp add: start_pool_def worker_count_def)
  moreover have "?step (?S 0 None Fetching None []) (?S 1 None (Evaluating 0) None [])"
    using take_task [of "?S 0 None Fetching None []" 0 "[sample_task]" solves True]
    by (simp add: worker_at_def move_def)
  ultimately have "?r (?S 1 None (Evaluating 0) None [])" by (rule one_step)
  moreover have "?step (?S 1 None (Evaluating 0) None []) (?S 1 (Some sample_result) (Waiting 0) None [])"
    using evaluated [of "?S 1 None (Evaluating 0) None []" 0 0 solves "[sample_task]" sample_result True] assms
    by (simp add: worker_at_def move_def)
  ultimately have "?r (?S 1 (Some sample_result) (Waiting 0) None [])" by (rule one_step)
  moreover have "?step (?S 1 (Some sample_result) (Waiting 0) None []) (?S 1 (Some sample_result) (Calling 0) (Some 0) [])"
    using acquire [of "?S 1 (Some sample_result) (Waiting 0) None []" 0 0] by (simp add: worker_at_def move_def)
  ultimately have "?r (?S 1 (Some sample_result) (Calling 0) (Some 0) [])" by (rule one_step)
  moreover have "?step (?S 1 (Some sample_result) (Calling 0) (Some 0) []) (?S 1 (Some sample_result) Fetching None [0])"
    using report [of "?S 1 (Some sample_result) (Calling 0) (Some 0) []" 0 0] by (simp add: worker_at_def move_def)
  ultimately have "?r (?S 1 (Some sample_result) Fetching None [0])" by (rule one_step)
  moreover have "?step (?S 1 (Some sample_result) Fetching None [0]) final_pool"
    using leave [of "?S 1 (Some sample_result) Fetching None [0]" 0 "[sample_task]" solves True]
    by (simp add: worker_at_def move_def final_pool_def numeral_2_eq_2)
  ultimately show ?thesis by (rule one_step)
qed

lemma sample_new_runner: "new_runner ''tmp'' sample_runner = sample_runner"
  by (simp add: new_runner_def sample_runner_def)

lemma sample_task_runs: "task_runs script_host None (new_runner ''tmp'' sample_runner) sample_task sample_result"
proof -
  have "use_reference sample_runner" "reference_source sample_task = Some ''int x;''"
    by (simp_all add: sample_runner_def sample_task_def)
  then have "run_task script_host None sample_runner sample_task (start_state sample_world) =
    Some (Inr sample_result, (start_state sample_world)\<lparr>world := (0, [], [], [])\<rparr>)"
    by (simp add: run_task_def prepare_def solve_def sample_evaluate clean_up_def start_state_def sample_result_def)
      (simp add: sample_task_def)
  then show ?thesis unfolding task_runs_def sample_new_runner by blast
qed

section \<open>Properties\<close>



text \<open>
  C33: the parallel evaluation ends.  If every task has a result, then no run goes on forever, and as
  long as not all workers have left, some worker can go on: there is no deadlock on the lock of the
  callback.
\<close>

theorem parallel_run_ends:
  assumes "reachable solves tasks callback j p" "list_all (\<lambda>t. \<exists>r. solves t r) tasks"
  shows "(\<nexists>f. f 0 = p \<and> (\<forall>i. step solves tasks callback (f i) (f (Suc i)))) \<and>
    ((\<exists>q. step solves tasks callback p q) \<or> all_finished p)"
  using not_finished_step [OF reachable_consistent [OF assms(1)] _ assms(2)] no_endless_run by blast

theorem parallel_run_ends_witness:
  "(\<exists>q. step (\<lambda>t r. True) [sample_task] True final_pool q) \<or> all_finished final_pool"
  using parallel_run_ends [OF reach_final [of "\<lambda>t r. True"]] by simp

text \<open>
  C16: when all workers have left, the report has exactly one result for each task, in the order of the
  tasks and whatever the interleaving, with the well-formed attempts of a run of that task; and the
  callback was called exactly once for each task.
\<close>

theorem parallel_run_complete:
  assumes "reachable (task_runs H M (new_runner tmp opts)) tasks callback j p" "all_finished p"
  shows "list_all2 (well_formed_result (budget (new_runner tmp opts))) tasks
      (results (run_report M (new_runner tmp opts) now start stop p)) \<and>
    (if callback then distinct (reported p) \<and> set (reported p) = {..<length tasks} else reported p = [])"
proof -
  have "workers p \<noteq> []"
    using reachable_workers [OF assms(1)] worker_count_pos [of j "length tasks"] by auto
  note fin = finished_filled [OF reachable_consistent [OF assms(1)] assms(2) this]
  have "0 \<le> repair_rounds (new_runner tmp opts)" by (simp add: new_runner_def)
  then have "list_all2 (well_formed_result (budget (new_runner tmp opts))) tasks (map slot_result (slots p))"
    unfolding list_all2_map2
    by (intro list_all2_mono [OF fin(1)])
      (auto simp: task_runs_def slot_result_def intro: run_task_well_formed)
  with fin(2) show ?thesis by (simp add: run_report_def)
qed

theorem parallel_run_complete_witness:
  "list_all2 (well_formed_result 1) [sample_task] [sample_result] \<and> reported final_pool = [0]"
proof -
  have "all_finished final_pool" by (simp add: all_finished_def final_pool_def)
  from parallel_run_complete [OF reach_final
      [of "task_runs script_host None (new_runner ''tmp'' sample_runner)", OF sample_task_runs] this, of 0 0 0]
  show ?thesis
    by (simp add: run_report_def slot_result_def final_pool_def budget_def sample_new_runner)
      (simp add: sample_runner_def)
qed

end
