(* ===== verification/Lru_Cache.thy ===== *)
theory Lru_Cache
  imports Main
begin

text \<open>
  \<^verbatim>\<open>tasks/lru-cache/reference.hpp\<close>: a cache with a bound that evicts the least recently used entry.

  The list of entries and the index share nodes (the index holds list iterators), so nodes have an
  identity here: \<open>node\<close> gives the contents of a live node, \<open>order\<close> the nodes from the most to the least
  recently used, and \<open>index\<close> the node of a key.  Splicing a node to the front changes the order
  and leaves every iterator valid.
\<close>

section \<open>The cache\<close>

record ('k, 'v) lru =
  capacity :: nat
  node :: "nat \<Rightarrow> ('k \<times> 'v) option"
  order :: "nat list"
  index :: "'k \<Rightarrow> nat option"
  next_node :: nat

definition new_lru :: "nat \<Rightarrow> ('k, 'v) lru" where
  "new_lru n = \<lparr>capacity = n, node = Map.empty, order = [], index = Map.empty, next_node = 0\<rparr>"

definition splice_front :: "nat \<Rightarrow> ('k, 'v) lru \<Rightarrow> ('k, 'v) lru" where
  "splice_front i c = c\<lparr>order := i # remove1 i (order c)\<rparr>"

definition lru_get :: "'k \<Rightarrow> ('k, 'v) lru \<Rightarrow> 'v option \<times> ('k, 'v) lru" where
  "lru_get k c =
     (case index c k of
        None \<Rightarrow> (None, c)
      | Some i \<Rightarrow> (map_option snd (node c i), splice_front i c))"

text \<open>The last entry goes, from the index by its key and from the list.\<close>

definition evict :: "('k, 'v) lru \<Rightarrow> ('k, 'v) lru" where
  "evict c =
     (let i = last (order c) in
      c\<lparr>index := (case node c i of Some (k, v) \<Rightarrow> (index c)(k := None) | None \<Rightarrow> index c),
        order := butlast (order c), node := (node c)(i := None)\<rparr>)"

definition emplace_front :: "'k \<Rightarrow> 'v \<Rightarrow> ('k, 'v) lru \<Rightarrow> ('k, 'v) lru" where
  "emplace_front k v c =
     c\<lparr>node := (node c)(next_node c \<mapsto> (k, v)), order := next_node c # order c,
       index := (index c)(k \<mapsto> next_node c), next_node := next_node c + 1\<rparr>"

definition lru_put :: "'k \<Rightarrow> 'v \<Rightarrow> ('k, 'v) lru \<Rightarrow> ('k, 'v) lru" where
  "lru_put k v c =
     (if capacity c = 0 then c
      else
        (case index c k of
           Some i \<Rightarrow> splice_front i (c\<lparr>node := (node c)(i \<mapsto> (k, v))\<rparr>)
         | None \<Rightarrow>
             emplace_front k v (if length (order c) = capacity c then evict c else c)))"

definition lru_contains :: "'k \<Rightarrow> ('k, 'v) lru \<Rightarrow> bool" where
  "lru_contains k c \<longleftrightarrow> index c k \<noteq> None"

definition lru_size :: "('k, 'v) lru \<Rightarrow> nat" where
  "lru_size c = length (order c)"

section \<open>The invariant\<close>

definition lru_ok :: "('k, 'v) lru \<Rightarrow> bool" where
  "lru_ok c \<longleftrightarrow>
     distinct (order c) \<and> dom (node c) = set (order c) \<and> (\<forall>i \<in> set (order c). i < next_node c) \<and>
     (\<forall>k i. index c k = Some i \<longleftrightarrow> (\<exists>v. node c i = Some (k, v))) \<and> length (order c) \<le> capacity c"

text \<open>The entries, the most recently used one first.\<close>

definition entries :: "('k, 'v) lru \<Rightarrow> ('k \<times> 'v) list" where
  "entries c = map (\<lambda>i. the (node c i)) (order c)"

section \<open>What a cache promises\<close>

text \<open>A recency list: looking up moves to the front, and adding may drop the end.\<close>

definition without_key :: "'k \<Rightarrow> ('k \<times> 'v) list \<Rightarrow> ('k \<times> 'v) list" where
  "without_key k es = filter (\<lambda>e. fst e \<noteq> k) es"

definition recency_get :: "'k \<Rightarrow> ('k \<times> 'v) list \<Rightarrow> 'v option \<times> ('k \<times> 'v) list" where
  "recency_get k es =
     (case map_of es k of None \<Rightarrow> (None, es) | Some v \<Rightarrow> (Some v, (k, v) # without_key k es))"

definition recency_put :: "nat \<Rightarrow> 'k \<Rightarrow> 'v \<Rightarrow> ('k \<times> 'v) list \<Rightarrow> ('k \<times> 'v) list" where
  "recency_put n k v es = take n ((k, v) # without_key k es)"

text \<open>Any sequence of operations: a lookup (no value) or an insertion, and the answers.\<close>

fun run_ops :: "('k \<Rightarrow> 'c \<Rightarrow> 'v option \<times> 'c) \<Rightarrow> ('k \<Rightarrow> 'v \<Rightarrow> 'c \<Rightarrow> 'c) \<Rightarrow> ('k \<times> 'v option) list \<Rightarrow> 'c \<Rightarrow>
    'v option list \<times> 'c" where
  "run_ops get put [] c = ([], c)"
| "run_ops get put ((k, Some v) # ops) c = run_ops get put ops (put k v c)"
| "run_ops get put ((k, None) # ops) c =
     (let (r, c) = get k c; (rs, c) = run_ops get put ops c in (r # rs, c))"

locale recency_cache =
  fixes contents :: "'c \<Rightarrow> ('k \<times> 'v) list"
    and bound :: "'c \<Rightarrow> nat"
    and valid :: "'c \<Rightarrow> bool"
    and make :: "nat \<Rightarrow> 'c"
    and get :: "'k \<Rightarrow> 'c \<Rightarrow> 'v option \<times> 'c"
    and put :: "'k \<Rightarrow> 'v \<Rightarrow> 'c \<Rightarrow> 'c"
  assumes make_ok: "valid (make n) \<and> contents (make n) = [] \<and> bound (make n) = n"
    and get_ok: "valid c \<Longrightarrow> valid (snd (get k c)) \<and> bound (snd (get k c)) = bound c \<and>
      (fst (get k c), contents (snd (get k c))) = recency_get k (contents c)"
    and put_ok: "valid c \<Longrightarrow> valid (put k v c) \<and> bound (put k v c) = bound c \<and>
      contents (put k v c) = recency_put (bound c) k v (contents c)"
begin

lemma run_refines:
  "valid c \<Longrightarrow> valid (snd (run_ops get put ops c)) \<and> bound (snd (run_ops get put ops c)) = bound c \<and>
     (fst (run_ops get put ops c), contents (snd (run_ops get put ops c))) =
       run_ops recency_get (recency_put (bound c)) ops (contents c)"
proof (induction ops arbitrary: c)
  case (Cons op ops)
  obtain k x where op: "op = (k, x)" by fastforce
  show ?case
  proof (cases x)
    case (Some v)
    with op put_ok [OF Cons.prems, of k v] Cons.IH [of "put k v c"] show ?thesis by simp
  next
    case None
    obtain r c2 where g: "get k c = (r, c2)" by fastforce
    obtain r' es2 where s: "recency_get k (contents c) = (r', es2)" by fastforce
    from get_ok [OF Cons.prems, of k] g s have c2: "valid c2" "bound c2 = bound c" "r' = r" "es2 = contents c2"
      by auto
    from Cons.IH [OF c2(1)] g s c2 op None show ?thesis by (auto split: prod.splits)
  qed
qed simp

end

section \<open>The nodes behind the list\<close>

lemma lru_okD:
  assumes "lru_ok c"
  shows "distinct (order c)" "length (order c) \<le> capacity c"
    and "i \<in> set (order c) \<longleftrightarrow> node c i \<noteq> None"
    and "i \<in> set (order c) \<Longrightarrow> i < next_node c"
    and "index c k = Some i \<longleftrightarrow> (\<exists>v. node c i = Some (k, v))"
  using assms unfolding lru_ok_def by blast+

lemma index_node:
  assumes "lru_ok c" "index c k = Some i"
  obtains v where "node c i = Some (k, v)" "i \<in> set (order c)"
  using assms lru_okD(3,5) [OF assms(1)] by auto

lemma same_key:
  assumes "lru_ok c" "node c i = Some (k, v)" "node c j = Some (k, w)"
  shows "i = j"
  using lru_okD(5) [OF assms(1), of k i] lru_okD(5) [OF assms(1), of k j] assms(2,3) by simp

lemma entries_key:
  assumes "lru_ok c" "node c i = Some (k, v)" "j \<in> set (order c)"
  shows "fst (the (node c j)) = k \<longleftrightarrow> j = i"
  using lru_okD(3) [OF assms(1), of j] assms same_key [OF assms(1,2), of j] by auto

lemma map_of_entries:
  assumes "lru_ok c"
  shows "map_of (entries c) k = (case index c k of None \<Rightarrow> None | Some i \<Rightarrow> map_option snd (node c i))"
proof -
  have keys: "distinct (map fst (entries c))"
    unfolding entries_def map_map distinct_map
  proof
    show "inj_on (fst \<circ> (\<lambda>i. the (node c i))) (set (order c))"
      using lru_okD(3) [OF assms] same_key [OF assms] by (force intro!: inj_onI)
  qed (rule lru_okD(1) [OF assms])
  show ?thesis
  proof (cases "index c k")
    case None
    have "(k, v) \<notin> set (entries c)" for v
      using None lru_okD(3,5) [OF assms] by (force simp: entries_def)
    then show ?thesis using None by (cases "map_of (entries c) k") (auto dest: map_of_SomeD)
  next
    case (Some i)
    then obtain v where v: "node c i = Some (k, v)" "i \<in> set (order c)" by (rule index_node [OF assms])
    then have "(k, v) \<in> set (entries c)" by (force simp: entries_def)
    with keys Some v show ?thesis by simp
  qed
qed

lemma entries_front:
  assumes "lru_ok c" "node c i = Some (k, v)"
  shows "entries (splice_front i c) = (k, v) # without_key k (entries c)"
proof -
  have "remove1 i (order c) = filter (\<lambda>j. j \<noteq> i) (order c)"
    using lru_okD(1) [OF assms(1)] by (simp add: distinct_remove1_removeAll removeAll_filter_not_eq eq_commute)
  also have "map (\<lambda>i. the (node c i)) \<dots> = without_key k (entries c)"
    using entries_key [OF assms] by (simp add: without_key_def entries_def filter_map o_def cong: filter_cong)
  finally show ?thesis using assms(2) by (simp add: splice_front_def entries_def)
qed

lemma splice_ok: "lru_ok c \<Longrightarrow> i \<in> set (order c) \<Longrightarrow> lru_ok (splice_front i c)"
proof -
  assume ok: "lru_ok c" and i: "i \<in> set (order c)"
  have "distinct (i # remove1 i (order c))" "set (i # remove1 i (order c)) = set (order c)"
    using lru_okD(1) [OF ok] i by auto
  moreover have "length (i # remove1 i (order c)) = length (order c)"
    using i length_pos_if_in_set [OF i] by (simp add: length_remove1)
  ultimately show ?thesis
    using ok unfolding lru_ok_def splice_front_def by simp
qed

lemma without_key_absent: "lru_ok c \<Longrightarrow> index c k = None \<Longrightarrow> without_key k (entries c) = entries c"
  unfolding without_key_def filter_id_conv
proof
  fix e
  assume ok: "lru_ok c" and absent: "index c k = None" and "e \<in> set (entries c)"
  then obtain i where i: "i \<in> set (order c)" "e = the (node c i)" by (auto simp: entries_def)
  then obtain k' v where node: "node c i = Some (k', v)" using lru_okD(3) [OF ok] by auto
  with lru_okD(5) [OF ok, of k' i] absent i(2) show "fst e \<noteq> k" by auto
qed

section \<open>The operations\<close>

lemma new_lru_ok: "lru_ok (new_lru n) \<and> entries (new_lru n) = [] \<and> capacity (new_lru n) = n"
  by (simp add: lru_ok_def new_lru_def entries_def)

lemma splice_capacity [simp]: "capacity (splice_front i c) = capacity c"
  by (simp add: splice_front_def)

lemma lru_get_ok:
  assumes "lru_ok c"
  shows "lru_ok (snd (lru_get k c)) \<and> capacity (snd (lru_get k c)) = capacity c \<and>
    (fst (lru_get k c), entries (snd (lru_get k c))) = recency_get k (entries c)"
proof (cases "index c k")
  case None
  with assms show ?thesis by (simp add: lru_get_def recency_get_def map_of_entries)
next
  case (Some i)
  then obtain v where v: "node c i = Some (k, v)" "i \<in> set (order c)" by (rule index_node [OF assms])
  with Some assms splice_ok [OF assms v(2)] entries_front [OF assms v(1)] show ?thesis
    by (simp add: lru_get_def recency_get_def map_of_entries)
qed

lemma evict_ok:
  assumes "lru_ok c" "order c \<noteq> []"
  shows "lru_ok (evict c)" "entries (evict c) = butlast (entries c)" "capacity (evict c) = capacity c"
    "length (order (evict c)) < capacity c" "index c k = None \<Longrightarrow> index (evict c) k = None"
proof -
  define i where "i = last (order c)"
  obtain js where ord: "order c = js @ [i]" using assms(2) by (metis append_butlast_last_id i_def)
  have i: "i \<in> set (order c)" "i \<notin> set js" "distinct js" using ord lru_okD(1) [OF assms(1)] by auto
  obtain k0 v0 where node: "node c i = Some (k0, v0)" using lru_okD(3) [OF assms(1)] i(1) by auto
  have ev: "evict c = c\<lparr>index := (index c)(k0 := None), order := js, node := (node c)(i := None)\<rparr>"
    using node by (simp add: evict_def i_def [symmetric]) (simp add: ord)
  show "entries (evict c) = butlast (entries c)" using i(2) by (simp add: ev entries_def ord)
  show "capacity (evict c) = capacity c" by (simp add: ev)
  show "length (order (evict c)) < capacity c" using lru_okD(2) [OF assms(1)] by (simp add: ev ord)
  show "index c k = None \<Longrightarrow> index (evict c) k = None" by (simp add: ev)
  have idx: "(index (evict c) k = Some j) = (\<exists>v. node (evict c) j = Some (k, v))" for k j
    using lru_okD(5) [OF assms(1), of k j] lru_okD(5) [OF assms(1), of k0 i] node by (auto simp: ev)
  have "dom (node (evict c)) = set (order (evict c))"
    using assms(1) i(2) by (auto simp: ev lru_ok_def ord)
  with idx show "lru_ok (evict c)"
    using lru_okD(2,4) [OF assms(1)] i(3) by (auto simp: lru_ok_def ev ord)
qed

lemma emplace_ok:
  assumes "lru_ok c" "index c k = None" "length (order c) < capacity c"
  shows "lru_ok (emplace_front k v c)" "entries (emplace_front k v c) = (k, v) # entries c"
proof -
  let ?i = "next_node c" and ?c = "emplace_front k v c"
  have fresh: "?i \<notin> set (order c)" using lru_okD(4) [OF assms(1)] by blast
  then have none: "node c ?i = None" using lru_okD(3) [OF assms(1), of ?i] by (cases "node c ?i") simp_all
  have idx: "(index ?c k' = Some j) = (\<exists>v. node ?c j = Some (k', v))" for k' j
    using lru_okD(5) [OF assms(1), of k' j] lru_okD(5) [OF assms(1), of k' ?i] assms(2) none
    by (auto simp: emplace_front_def)
  have "dom (node ?c) = set (order ?c)"
    using assms(1) by (auto simp: emplace_front_def lru_ok_def)
  with idx fresh assms lru_okD(1,4) [OF assms(1)] show "lru_ok ?c"
    unfolding lru_ok_def by (auto simp: emplace_front_def less_Suc_eq)
  show "entries ?c = (k, v) # entries c"
    using fresh by (auto simp: emplace_front_def entries_def)
qed

lemma update_ok:
  assumes "lru_ok c" "node c i = Some (k, w)"
  shows "lru_ok (c\<lparr>node := (node c)(i \<mapsto> (k, v))\<rparr>)"
    and "without_key k (entries (c\<lparr>node := (node c)(i \<mapsto> (k, v))\<rparr>)) = without_key k (entries c)"
proof -
  let ?c = "c\<lparr>node := (node c)(i \<mapsto> (k, v))\<rparr>"
  have "(index ?c k' = Some j) = (\<exists>v. node ?c j = Some (k', v))" for k' j
    using lru_okD(5) [OF assms(1), of k' j] assms(2) by auto
  moreover have "dom (node ?c) = set (order ?c)" using assms by (auto simp: lru_ok_def)
  ultimately show "lru_ok ?c" using assms(1) by (simp add: lru_ok_def)
  have "filter (\<lambda>e. fst e \<noteq> k) (map (\<lambda>j. the (((node c)(i \<mapsto> (k, v))) j)) js) =
      filter (\<lambda>e. fst e \<noteq> k) (map (\<lambda>j. the (node c j)) js)" for js
    using assms(2) by (induction js) auto
  then show "without_key k (entries ?c) = without_key k (entries c)"
    by (simp add: without_key_def entries_def)
qed

lemma lru_put_ok:
  assumes "lru_ok c"
  shows "lru_ok (lru_put k v c) \<and> capacity (lru_put k v c) = capacity c \<and>
    entries (lru_put k v c) = recency_put (capacity c) k v (entries c)"
proof (cases "capacity c = 0")
  case True
  with assms lru_okD(2) [OF assms] show ?thesis by (simp add: lru_put_def recency_put_def entries_def)
next
  case False
  show ?thesis
  proof (cases "index c k")
    case (Some i)
    then obtain w where w: "node c i = Some (k, w)" "i \<in> set (order c)" by (rule index_node [OF assms])
    let ?c = "c\<lparr>node := (node c)(i \<mapsto> (k, v))\<rparr>"
    note ok = update_ok [OF assms w(1), of v]
    have "entries (splice_front i ?c) = (k, v) # without_key k (entries c)"
      using entries_front [OF ok(1), of i k v] ok(2) by simp
    moreover have "length (without_key k (entries c)) < length (entries c)"
    proof -
      have "(k, w) \<in> set (entries c)" using w by (force simp: entries_def)
      then show ?thesis unfolding without_key_def by (rule length_filter_less) simp
    qed
    ultimately show ?thesis
      using False Some splice_ok [OF ok(1), of i] w lru_okD(2) [OF assms]
      by (auto simp: lru_put_def recency_put_def entries_def intro!: take_all [symmetric])
  next
    case None
    note same = without_key_absent [OF assms None]
    show ?thesis
    proof (cases "length (order c) = capacity c")
      case True
      with False have ne: "order c \<noteq> []" by auto
      note ev = evict_ok [OF assms ne]
      have "length (entries c) = capacity c" using True by (simp add: entries_def)
      then have "take (capacity c - 1) (entries c) = butlast (entries c)" by (simp add: butlast_conv_take)
      then show ?thesis
        using False None True same emplace_ok [OF ev(1) ev(5) [OF None]] ev(2-4)
        by (cases "capacity c") (auto simp: lru_put_def recency_put_def emplace_front_def)
    next
      case less: False
      with lru_okD(2) [OF assms] have "length (order c) < capacity c" by simp
      with False None less same emplace_ok [OF assms None this] show ?thesis
        by (auto simp: lru_put_def recency_put_def emplace_front_def entries_def intro!: take_all [symmetric])
    qed
  qed
qed

interpretation lru: recency_cache entries capacity lru_ok new_lru lru_get lru_put
  by unfold_locales (rule new_lru_ok, erule lru_get_ok, erule lru_put_ok)

lemma lru_size_entries: "lru_size c = length (entries c)"
  by (simp add: lru_size_def entries_def)

lemma lru_contains_entries:
  assumes "lru_ok c"
  shows "lru_contains k c \<longleftrightarrow> k \<in> fst ` set (entries c)"
proof (cases "index c k")
  case None
  with map_of_entries [OF assms, of k] show ?thesis by (simp add: lru_contains_def map_of_eq_None_iff)
next
  case (Some i)
  then obtain v where "node c i = Some (k, v)" by (rule index_node [OF assms])
  with Some map_of_entries [OF assms, of k] have "map_of (entries c) k = Some v" by simp
  then have "k \<in> fst ` set (entries c)" using map_of_eq_None_iff [of "entries c" k] by auto
  with Some show ?thesis by (simp add: lru_contains_def)
qed

section \<open>Properties\<close>

text \<open>
  C27: the list with its index is a recency list.  For any sequence of lookups and insertions on a new
  cache, the answers are those of the specification, in which a lookup or an insertion moves the key to
  the front and an insertion keeps the first \<^verbatim>\<open>capacity\<close> entries; the entries are those of the
  specification too, \<^verbatim>\<open>contains\<close> and \<^verbatim>\<open>size\<close> agree with them, and the cache is well formed: every
  iterator of the index points to a live node of its key.
\<close>

theorem lru_refines:
  "lru_ok (snd (run_ops lru_get lru_put ops (new_lru n))) \<and>
   (fst (run_ops lru_get lru_put ops (new_lru n)), entries (snd (run_ops lru_get lru_put ops (new_lru n)))) =
     run_ops recency_get (recency_put n) ops [] \<and>
   lru_size (snd (run_ops lru_get lru_put ops (new_lru n))) \<le> n \<and>
   (lru_contains k (snd (run_ops lru_get lru_put ops (new_lru n))) \<longleftrightarrow>
      k \<in> fst ` set (snd (run_ops recency_get (recency_put n) ops [])))"
proof -
  let ?c = "snd (run_ops lru_get lru_put ops (new_lru n))"
  have run: "lru_ok ?c" "capacity ?c = n"
    "(fst (run_ops lru_get lru_put ops (new_lru n)), entries ?c) = run_ops recency_get (recency_put n) ops []"
    using lru.run_refines [OF conjunct1 [OF new_lru_ok], where ops = ops] by (simp_all add: new_lru_ok)
  have "lru_size ?c \<le> n" using lru_okD(2) [OF run(1)] run(2) by (simp add: lru_size_def)
  moreover have "snd (run_ops recency_get (recency_put n) ops []) = entries ?c"
    using run(3) by (metis snd_conv)
  ultimately show ?thesis using run lru_contains_entries [OF run(1), of k] by simp
qed

end
