(* ===== verification/Thread_Pool.thy ===== *)
theory Thread_Pool
  imports Main "HOL-Library.Multiset"
begin

text \<open>
  \<^verbatim>\<open>tasks/thread-pool/reference.hpp\<close>: the pool of threads that work off a queue of jobs.

  Every critical section under the pool's mutex is one step, and so is every notification outside of
  it.  The threads are interchangeable, so they are a multiset of where they are.  A thread that finds
  nothing to do sleeps on \<^verbatim>\<open>work_cv_\<close> and goes on only when it is woken: by \<^verbatim>\<open>notify_one\<close> (at most one
  of the sleeping threads), by \<^verbatim>\<open>notify_all\<close>, or spuriously; callers of \<^verbatim>\<open>wait_idle\<close> sleep on
  \<^verbatim>\<open>idle_cv_\<close>.  The jobs are numbered; what one does is not a step of the pool, but it may submit more
  jobs, also while the destructor waits for it.  From outside, nothing is called once the destructor runs;
  a job does not call \<^verbatim>\<open>wait_idle\<close>, which would wait for itself.
\<close>

section \<open>States and steps\<close>

text \<open>About to look at the queue, asleep, running a job, or returned.\<close>

datatype thread = Looking | Asleep | Running nat | Returned

record tpool =
  threads :: "thread multiset"
  queue :: "nat list"
  active :: nat
  stopping :: bool
  pending :: nat  \<comment> \<open>calls of \<^verbatim>\<open>submit\<close> between the lock and the notification\<close>
  closing :: bool  \<comment> \<open>the destructor is between the lock and the notification\<close>
  idlers :: nat  \<comment> \<open>calls of \<^verbatim>\<open>wait_idle\<close> that sleep\<close>
  submitted :: "nat list"  \<comment> \<open>in the order of submission\<close>
  started :: "nat list"  \<comment> \<open>in the order in which they were taken\<close>
  completed :: "nat list"

definition new_tpool :: "nat \<Rightarrow> tpool" where
  "new_tpool n =
     \<lparr>threads = replicate_mset (if n = 0 then 1 else n) Looking, queue = [], active = 0, stopping = False,
      pending = 0, closing = False, idlers = 0, submitted = [], started = [], completed = []\<rparr>"

definition becomes :: "thread \<Rightarrow> thread \<Rightarrow> tpool \<Rightarrow> tpool" where
  "becomes x y p = p\<lparr>threads := threads p - {#x#} + {#y#}\<rparr>"

definition awaken_all :: "tpool \<Rightarrow> tpool" where
  "awaken_all p = p\<lparr>threads := image_mset (\<lambda>x. if x = Asleep then Looking else x) (threads p)\<rparr>"

definition enqueue :: "nat \<Rightarrow> tpool \<Rightarrow> tpool" where
  "enqueue j p = p\<lparr>queue := queue p @ [j], submitted := submitted p @ [j]\<rparr>"

definition notify_one :: "tpool \<Rightarrow> tpool" where
  "notify_one p = (if Asleep \<in># threads p then becomes Asleep Looking p else p)"

text \<open>What \<^verbatim>\<open>wait_idle\<close> waits for; a thread that brings it about wakes all who wait.\<close>

definition idle :: "tpool \<Rightarrow> bool" where
  "idle p \<longleftrightarrow> queue p = [] \<and> active p = 0"

definition notify_idle :: "tpool \<Rightarrow> tpool" where
  "notify_idle p = (if idle p then p\<lparr>idlers := 0\<rparr> else p)"

inductive tstep :: "tpool \<Rightarrow> tpool \<Rightarrow> bool" where
  sleep: "\<lbrakk>Looking \<in># threads p; queue p = []; \<not> stopping p\<rbrakk> \<Longrightarrow> tstep p (becomes Looking Asleep p)"
| spurious: "Asleep \<in># threads p \<Longrightarrow> tstep p (becomes Asleep Looking p)"
| take_job: "\<lbrakk>Looking \<in># threads p; queue p = j # js\<rbrakk> \<Longrightarrow>
    tstep p (becomes Looking (Running j) (p\<lparr>queue := js, active := active p + 1, started := started p @ [j]\<rparr>))"
| return: "\<lbrakk>Looking \<in># threads p; queue p = []; stopping p\<rbrakk> \<Longrightarrow> tstep p (becomes Looking Returned p)"
| complete: "Running j \<in># threads p \<Longrightarrow>
    tstep p (notify_idle (becomes (Running j) Looking (p\<lparr>active := active p - 1, completed := completed p @ [j]\<rparr>)))"
| submit: "\<not> stopping p \<or> (\<exists>i. Running i \<in># threads p) \<Longrightarrow>
    tstep p (enqueue j (p\<lparr>pending := pending p + 1\<rparr>))"
| submit_notify: "0 < pending p \<Longrightarrow> tstep p (notify_one (p\<lparr>pending := pending p - 1\<rparr>))"
| wait: "\<lbrakk>\<not> idle p; \<not> stopping p\<rbrakk> \<Longrightarrow> tstep p (p\<lparr>idlers := idlers p + 1\<rparr>)"
| spurious_idler: "0 < idlers p \<Longrightarrow> tstep p (p\<lparr>idlers := idlers p - 1\<rparr>)"
| stop: "\<lbrakk>\<not> stopping p; idlers p = 0\<rbrakk> \<Longrightarrow> tstep p (p\<lparr>stopping := True, closing := True\<rparr>)"
| stop_notify: "closing p \<Longrightarrow> tstep p (awaken_all (p\<lparr>closing := False\<rparr>))"

inductive_cases tstep_elim: "tstep p q"

inductive treachable :: "nat \<Rightarrow> tpool \<Rightarrow> bool" for n where
  at_start: "treachable n (new_tpool n)"
| one_step: "treachable n p \<Longrightarrow> tstep p q \<Longrightarrow> treachable n q"

section \<open>The invariant\<close>

fun running_job :: "thread \<Rightarrow> nat multiset" where
  "running_job (Running j) = {#j#}"
| "running_job _ = {#}"

definition running :: "tpool \<Rightarrow> nat multiset" where
  "running p = \<Sum>\<^sub># (image_mset running_job (threads p))"

definition awake :: "thread \<Rightarrow> bool" where
  "awake x \<longleftrightarrow> x \<noteq> Asleep \<and> x \<noteq> Returned"

text \<open>
  Jobs are neither lost nor doubled; \<^verbatim>\<open>active_\<close> counts the running ones; a thread returns only after the
  destructor has begun, and not all of them while there is work; no thread sleeps once the destructor has
  woken them all; with work in the queue some thread is awake or about to be woken; and nobody sleeps in \<^verbatim>\<open>wait_idle\<close> while the pool is idle.
\<close>

definition pool_ok :: "nat \<Rightarrow> tpool \<Rightarrow> bool" where
  "pool_ok n p \<longleftrightarrow>
     submitted p = started p @ queue p \<and>
     mset (started p) = running p + mset (completed p) \<and>
     active p = size (running p) \<and>
     size (threads p) = (if n = 0 then 1 else n) \<and>
     (Returned \<in># threads p \<longrightarrow> stopping p) \<and>
     (stopping p \<longrightarrow> closing p \<or> Asleep \<notin># threads p) \<and>
     (closing p \<longrightarrow> stopping p) \<and>
     (queue p \<noteq> [] \<longrightarrow> (\<exists>x. x \<in># threads p \<and> x \<noteq> Returned)) \<and>
     (queue p \<noteq> [] \<longrightarrow> (\<exists>x. x \<in># threads p \<and> awake x) \<or> 0 < pending p) \<and>
     (idle p \<longrightarrow> idlers p = 0)"

lemma becomes_sel [simp]:
  "queue (becomes x y p) = queue p" "active (becomes x y p) = active p" "stopping (becomes x y p) = stopping p"
  "submitted (becomes x y p) = submitted p" "started (becomes x y p) = started p"
  "completed (becomes x y p) = completed p" "pending (becomes x y p) = pending p"
  "closing (becomes x y p) = closing p" "idlers (becomes x y p) = idlers p" "idle (becomes x y p) = idle p"
  by (simp_all add: becomes_def idle_def)

lemma threads_becomes: "threads (becomes x y p) = threads p - {#x#} + {#y#}"
  by (simp add: becomes_def)

lemma running_becomes: "x \<in># threads p \<Longrightarrow> running (becomes x y p) + running_job x = running p + running_job y"
proof -
  assume "x \<in># threads p"
  then obtain ts where "threads p = add_mset x ts" by (metis mset_add)
  then show ?thesis by (simp add: running_def threads_becomes)
qed

lemma size_becomes: "x \<in># threads p \<Longrightarrow> size (threads (becomes x y p)) = size (threads p)"
  by (metis threads_becomes insert_DiffM2 size_add_mset size_union size_single add_mset_add_single)

lemma in_becomes: "z \<in># threads (becomes x y p) \<Longrightarrow> z = y \<or> z \<in># threads p"
  by (auto simp: threads_becomes dest: in_diffD)

lemma running_awaken [simp]: "running (awaken_all p) = running p"
  unfolding running_def awaken_all_def by (auto simp: image_mset.compositionality o_def intro!: arg_cong [of _ _ "\<lambda>f. \<Sum>\<^sub># (image_mset f (threads p))"])

lemma running_update [simp]:
  "running (p\<lparr>queue := js, active := m, started := ss\<rparr>) = running p"
  "running (p\<lparr>active := m, completed := ss\<rparr>) = running p"
  "running (p\<lparr>stopping := b\<rparr>) = running p" "running (p\<lparr>closing := b'\<rparr>) = running p"
  "running (p\<lparr>pending := m\<rparr>) = running p" "running (p\<lparr>idlers := m\<rparr>) = running p"
  "running (enqueue j p) = running p"
  by (simp_all add: running_def enqueue_def)

lemma notify_idle_sel [simp]:
  "threads (notify_idle p) = threads p" "queue (notify_idle p) = queue p" "active (notify_idle p) = active p"
  "stopping (notify_idle p) = stopping p" "submitted (notify_idle p) = submitted p"
  "started (notify_idle p) = started p" "completed (notify_idle p) = completed p"
  "pending (notify_idle p) = pending p" "closing (notify_idle p) = closing p" "idle (notify_idle p) = idle p"
  "running (notify_idle p) = running p" "idle p \<Longrightarrow> idlers (notify_idle p) = 0"
  by (simp_all add: notify_idle_def idle_def running_def)

text \<open>Changing one thread from \<open>x\<close> to \<open>y\<close>.\<close>

lemma becomes_facts:
  assumes "x \<in># threads p"
  shows "running (becomes x y p) + running_job x = running p + running_job y"
    and "size (threads (becomes x y p)) = size (threads p)"
    and "z \<in># threads (becomes x y p) \<Longrightarrow> z = y \<or> z \<in># threads p"
    and "y \<in># threads (becomes x y p)"
  using running_becomes [OF assms] size_becomes [OF assms] in_becomes [of z x y p] by (auto simp: threads_becomes)

lemma pool_ok_becomes:
  assumes ok: "pool_ok n p" and x: "x \<in># threads p" and "running_job x = {#}" "running_job y = {#}"
    and "y = Asleep \<longrightarrow> \<not> stopping p \<and> queue p = []" and "y = Returned \<longrightarrow> stopping p \<and> queue p = []"
  shows "pool_ok n (becomes x y p)"
proof -
  note f = becomes_facts [OF x, where y = y]
  have "running (becomes x y p) = running p" using f(1) assms(3,4) by simp
  moreover have "Returned \<in># threads (becomes x y p) \<longrightarrow> stopping p"
    "stopping p \<longrightarrow> closing p \<or> Asleep \<notin># threads (becomes x y p)"
    using f(3) [of Returned] f(3) [of Asleep] ok assms(5,6) by (auto simp: pool_ok_def)
  moreover have "queue p \<noteq> [] \<longrightarrow> (\<exists>z. z \<in># threads (becomes x y p) \<and> awake z)"
    using f(4) assms(5,6) by (auto simp: awake_def)
  moreover from this have "queue p \<noteq> [] \<longrightarrow> (\<exists>z. z \<in># threads (becomes x y p) \<and> z \<noteq> Returned)"
    by (auto simp: awake_def)
  ultimately show ?thesis using ok f(2) unfolding pool_ok_def by simp
qed

lemma ok_inhabited: "pool_ok n p \<Longrightarrow> \<exists>x. x \<in># threads p"
  by (auto simp: pool_ok_def multiset_nonemptyE split: if_splits)

lemma step_pool_ok:
  assumes "tstep p q" "pool_ok n p"
  shows "pool_ok n q"
  using assms(1)
proof cases
  case sleep
  with pool_ok_becomes [OF assms(2), of Looking Asleep] show ?thesis by simp
next
  case spurious
  with pool_ok_becomes [OF assms(2), of Asleep Looking] show ?thesis by simp
next
  case return
  with pool_ok_becomes [OF assms(2), of Looking Returned] show ?thesis by simp
next
  case (take_job j js)
  let ?p = "p\<lparr>queue := js, active := active p + 1, started := started p @ [j]\<rparr>"
  have l: "Looking \<in># threads ?p" using take_job by simp
  note f = becomes_facts [OF l, where y = "Running j"]
  have r: "running q = add_mset j (running p)" using f(1) take_job(1) by simp
  have "Returned \<in># threads q \<longrightarrow> stopping p" "stopping p \<longrightarrow> closing p \<or> Asleep \<notin># threads q"
    using f(3) [of Returned] f(3) [of Asleep] take_job(1) assms(2) by (auto simp: pool_ok_def)
  moreover have "Running j \<in># threads q" using f(4) take_job(1) by simp
  then have "\<exists>x. x \<in># threads q \<and> awake x" "\<exists>x. x \<in># threads q \<and> x \<noteq> Returned" by (auto simp: awake_def)
  moreover have "\<not> idle q" using take_job(1) by (simp add: idle_def becomes_def)
  ultimately show ?thesis
    using assms(2) f(2) r take_job unfolding pool_ok_def by simp
next
  case (complete j)
  let ?p = "p\<lparr>active := active p - 1, completed := completed p @ [j]\<rparr>"
  have l: "Running j \<in># threads ?p" using complete by simp
  note f = becomes_facts [OF l, where y = Looking]
  have r: "add_mset j (running q) = running p" using f(1) complete(1) by simp
  have same: "queue q = queue p" "submitted q = submitted p" "started q = started p" "stopping q = stopping p"
    "pending q = pending p" "closing q = closing p"
    "active q = active p - 1" "completed q = completed p @ [j]" using complete(1) by simp_all
  have "mset (started q) = running q + mset (completed q)"
    using assms(2) by (simp add: pool_ok_def same flip: r)
  moreover have "active q = size (running q)" using assms(2) by (simp add: pool_ok_def same flip: r)
  moreover have "size (threads q) = size (threads p)" using f(2) complete(1) by simp
  moreover have "Returned \<in># threads q \<longrightarrow> stopping p" "stopping p \<longrightarrow> closing p \<or> Asleep \<notin># threads q"
    using f(3) [of Returned] f(3) [of Asleep] complete(1) assms(2) by (auto simp: pool_ok_def)
  moreover have "Looking \<in># threads q" using f(4) complete(1) by simp
  then have "\<exists>x. x \<in># threads q \<and> awake x" "\<exists>x. x \<in># threads q \<and> x \<noteq> Returned" by (auto simp: awake_def)
  moreover have "idle q \<longrightarrow> idlers q = 0" using complete(1) by simp
  ultimately show ?thesis
    using assms(2) same(1-6) unfolding pool_ok_def by simp
next
  case (submit j)
  have same: "running q = running p" using submit(1) by simp
  have "threads q = threads p" using submit(1) by (simp add: enqueue_def)
  have "\<exists>x. x \<in># threads p \<and> x \<noteq> Returned"
    using submit(2) assms(2) ok_inhabited [OF assms(2)] by (auto simp: pool_ok_def)
  with submit same \<open>threads q = threads p\<close> show ?thesis
    using assms(2) unfolding pool_ok_def by (auto simp: enqueue_def idle_def)
next
  case submit_notify
  let ?p = "p\<lparr>pending := pending p - 1\<rparr>"
  note f = becomes_facts [where x = Asleep and p = ?p and y = Looking]
  have kept: "running q = running p" "size (threads q) = size (threads p)"
    using submit_notify(1) f by (auto simp: notify_one_def)
  have from_p: "x \<in># threads q \<Longrightarrow> x = Looking \<or> x \<in># threads p" for x
    using submit_notify(1) f(3) [of x] by (auto simp: notify_one_def split: if_splits)
  have "\<exists>x. x \<in># threads q \<and> awake x" if "\<exists>x. x \<in># threads p \<and> x \<noteq> Returned"
    using that submit_notify(1) f(4) by (force simp: notify_one_def awake_def)
  moreover from this have "\<exists>x. x \<in># threads q \<and> x \<noteq> Returned" if "\<exists>x. x \<in># threads p \<and> x \<noteq> Returned"
    using that by (auto simp: awake_def)
  moreover have "queue q = queue p" "submitted q = submitted p" "started q = started p" "stopping q = stopping p"
    "active q = active p" "completed q = completed p" "closing q = closing p" "idlers q = idlers p" "idle q = idle p"
    using submit_notify(1) by (simp_all add: notify_one_def idle_def)
  ultimately show ?thesis
    using kept assms(2) from_p [of Returned] from_p [of Asleep] unfolding pool_ok_def by auto
next
  case wait
  with assms(2) show ?thesis unfolding pool_ok_def by (auto simp: idle_def)
next
  case spurious_idler
  with assms(2) show ?thesis unfolding pool_ok_def by (auto simp: idle_def)
next
  case stop
  then have "running q = running p" by simp
  with assms(2) stop show ?thesis unfolding pool_ok_def by (auto simp: idle_def)
next
  case stop_notify
  have woken: "(if x = Asleep then Looking else x) \<in># threads q" if "x \<in># threads p" for x
    using that stop_notify(1) by (auto simp: awaken_all_def)
  have "size (threads q) = size (threads p)" "Asleep \<notin># threads q"
    "Returned \<in># threads q \<longleftrightarrow> Returned \<in># threads p"
    using stop_notify(1) by (auto simp: awaken_all_def split: if_splits)
  moreover have "running q = running p" using stop_notify(1) by simp
  moreover have "queue q = queue p" "submitted q = submitted p" "started q = started p" "stopping q = stopping p"
    "active q = active p" "completed q = completed p" "pending q = pending p" "\<not> closing q"
    "idlers q = idlers p" "idle q = idle p"
    using stop_notify(1) by (simp_all add: awaken_all_def idle_def)
  moreover have some_awake: "\<exists>x. x \<in># threads q \<and> awake x" if "\<exists>x. x \<in># threads p \<and> x \<noteq> Returned"
  proof -
    from that obtain x where "x \<in># threads p" "x \<noteq> Returned" by blast
    with woken [of x] show ?thesis by (auto simp: awake_def split: if_splits)
  qed
  moreover have "\<exists>x. x \<in># threads q \<and> x \<noteq> Returned" if "\<exists>x. x \<in># threads p \<and> x \<noteq> Returned"
    using some_awake [OF that] by (auto simp: awake_def)
  ultimately show ?thesis using assms(2) stop_notify(2) unfolding pool_ok_def by auto
qed

lemma new_tpool_ok: "pool_ok n (new_tpool n)"
  by (auto simp: pool_ok_def new_tpool_def running_def)

lemma treachable_ok: "treachable n p \<Longrightarrow> pool_ok n p"
  by (induction rule: treachable.induct) (auto intro: new_tpool_ok step_pool_ok)

section \<open>After the destructor has set the flag\<close>

fun thread_effort :: "thread \<Rightarrow> nat" where
  "thread_effort Looking = 1"
| "thread_effort (Running j) = 2"
| "thread_effort Asleep = 2"
| "thread_effort Returned = 0"

definition effort_left :: "tpool \<Rightarrow> nat" where
  "effort_left p = 3 * length (queue p) + idlers p + pending p + (if closing p then 1 else 0) + \<Sum>\<^sub># (image_mset thread_effort (threads p))"

lemma effort_becomes:
  assumes "x \<in># threads p"
  shows "effort_left (becomes x y p) + thread_effort x = effort_left p + thread_effort y"
proof -
  from assms obtain ts where "threads p = add_mset x ts" by (metis mset_add)
  then show ?thesis by (simp add: effort_left_def threads_becomes)
qed

lemma stopping_step:
  assumes "tstep p q" "pool_ok n p" "stopping p"
  shows "stopping q \<and> (submitted q = submitted p \<longrightarrow> effort_left q < effort_left p)"
  using assms(1)
proof cases
  case (take_job j js)
  let ?p = "p\<lparr>queue := js, active := active p + 1, started := started p @ [j]\<rparr>"
  have "effort_left ?p + 3 = effort_left p" using take_job by (simp add: effort_left_def)
  with take_job effort_becomes [of Looking ?p "Running j"] assms(3) show ?thesis by simp
next
  case return
  with effort_becomes [of Looking p Returned] assms(3) show ?thesis by simp
next
  case (complete j)
  let ?p = "p\<lparr>active := active p - 1, completed := completed p @ [j]\<rparr>"
  have "effort_left ?p = effort_left p" by (simp add: effort_left_def)
  moreover have "effort_left (notify_idle r) \<le> effort_left r" for r
    by (simp add: notify_idle_def effort_left_def)
  then have "effort_left q \<le> effort_left (becomes (Running j) Looking ?p)" using complete(1) by simp
  ultimately show ?thesis
    using complete effort_becomes [of "Running j" ?p Looking] assms(3) by simp
next
  case spurious
  with effort_becomes [of Asleep p Looking] assms(3) show ?thesis by simp
next
  case stop_notify
  have le: "sum_mset (image_mset thread_effort (image_mset (\<lambda>x. if x = Asleep then Looking else x) T)) \<le>
    sum_mset (image_mset thread_effort T)" for T
    by (induction T) auto
  from stop_notify assms(3) le [of "threads p"] show ?thesis
    by (simp add: awaken_all_def effort_left_def less_Suc_eq_le)
next
  case spurious_idler
  with assms(3) show ?thesis by (simp add: effort_left_def)
next
  case (submit j)
  then show ?thesis using assms(3) by (simp add: enqueue_def)
next
  case submit_notify
  have "effort_left (notify_one r) \<le> effort_left r" for r
    using effort_becomes [of Asleep r Looking] by (auto simp: notify_one_def)
  moreover have "effort_left (p\<lparr>pending := pending p - 1\<rparr>) < effort_left p" "stopping (notify_one r) = stopping r" for r
    using submit_notify by (simp_all add: effort_left_def notify_one_def)
  ultimately have "effort_left q < effort_left p" "stopping q = stopping p"
    unfolding submit_notify(1) by (blast intro: le_less_trans, simp)
  then show ?thesis using assms(3) by simp
qed (use assms(2,3) in \<open>auto simp: pool_ok_def\<close>)

lemma stopping_run:
  assumes "pool_ok n (f 0)" "stopping (f 0)" "\<And>i. tstep (f i) (f (Suc i))"
    "\<And>i. submitted (f i) = submitted (f 0)"
  shows False
proof -
  have inv: "pool_ok n (f i) \<and> stopping (f i) \<and> effort_left (f i) + i \<le> effort_left (f 0)" for i
  proof (induction i)
    case (Suc i)
    with stopping_step [OF assms(3) [of i]] step_pool_ok [OF assms(3) [of i]] assms(4) [of i] assms(4) [of "Suc i"]
    show ?case by fastforce
  qed (use assms in simp)
  from inv [of "Suc (effort_left (f 0))"] show False by simp
qed

lemma awake_steps:
  assumes "x \<in># threads p" "awake x"
  shows "(\<exists>j. x = Running j) \<or> queue p \<noteq> [] \<or> stopping p \<Longrightarrow> \<exists>q. tstep p q"
proof (cases x)
  case Looking
  assume "(\<exists>j. x = Running j) \<or> queue p \<noteq> [] \<or> stopping p"
  with assms Looking show ?thesis by (cases "queue p") (auto intro: take_job return)
next
  case (Running j)
  with assms show ?thesis by (blast intro: complete)
qed (use assms in \<open>auto simp: awake_def\<close>)

text \<open>One job on one thread, and the end.\<close>

definition done_pool :: tpool where
  "done_pool =
     \<lparr>threads = {#Returned#}, queue = [], active = 0, stopping = True, pending = 0, closing = False, idlers = 0,
      submitted = [7], started = [7], completed = [7]\<rparr>"

lemma reach_done: "treachable 1 done_pool"
proof -
  let ?S = "\<lambda>x q a b pe cl su st co. \<lparr>threads = {#x#}, queue = q, active = a, stopping = b, pending = pe,
    closing = cl, idlers = 0, submitted = su, started = st, completed = co\<rparr>"
  have "treachable 1 (?S Looking [] 0 False 0 False [] [] [])"
    using at_start [of 1] by (simp add: new_tpool_def)
  then have "treachable 1 (?S Looking [7] 0 False 1 False [7] [] [])"
    using one_step submit [of "?S Looking [] 0 False 0 False [] [] []" 7] by (fastforce simp: enqueue_def)
  then have "treachable 1 (?S Looking [7] 0 False 0 False [7] [] [])"
    using one_step submit_notify [of "?S Looking [7] 0 False 1 False [7] [] []"] by (fastforce simp: notify_one_def)
  then have "treachable 1 (?S (Running 7) [] 1 False 0 False [7] [7] [])"
    using one_step take_job [of "?S Looking [7] 0 False 0 False [7] [] []" 7 "[]"] by (fastforce simp: becomes_def)
  then have "treachable 1 (?S Looking [] 0 False 0 False [7] [7] [7])"
    using one_step complete [of 7 "?S (Running 7) [] 1 False 0 False [7] [7] []"]
    by (fastforce simp: becomes_def notify_idle_def idle_def)
  then have "treachable 1 (?S Looking [] 0 True 0 True [7] [7] [7])"
    using one_step stop [of "?S Looking [] 0 False 0 False [7] [7] [7]"] by fastforce
  then have "treachable 1 (?S Looking [] 0 True 0 False [7] [7] [7])"
    using one_step stop_notify [of "?S Looking [] 0 True 0 True [7] [7] [7]"] by (fastforce simp: awaken_all_def)
  then show ?thesis
    using one_step return [of "?S Looking [] 0 True 0 False [7] [7] [7]"] by (fastforce simp: becomes_def done_pool_def)
qed

section \<open>Properties\<close>

text \<open>
  C26: no job is lost, doubled or reordered, in any interleaving: the jobs taken so far and the queue are
  the jobs submitted, in order; those taken are running or completed; when \<^verbatim>\<open>wait_idle\<close>'s condition holds,
  and when all threads have returned (which is what the destructor joins on), all submitted jobs are
  completed, each exactly once.
\<close>

theorem thread_pool_jobs:
  assumes "treachable n p"
  shows "submitted p = started p @ queue p \<and> mset (started p) = running p + mset (completed p) \<and>
    (idle p \<longrightarrow> mset (completed p) = mset (submitted p)) \<and>
    (threads p = replicate_mset m Returned \<longrightarrow> mset (completed p) = mset (submitted p))"
proof -
  have ok: "pool_ok n p" using assms by (rule treachable_ok)
  then have idle_done: "mset (completed p) = mset (submitted p)" if "queue p = []" "running p = {#}"
    using that by (auto simp: pool_ok_def)
  have "running p = {#} \<and> queue p = []" if returned: "threads p = replicate_mset m Returned"
  proof -
    have "x = Returned" if "x \<in># threads p" for x using that returned by (simp split: if_splits)
    then have "queue p = []" using ok by (auto simp: pool_ok_def)
    moreover have "running p = {#}" unfolding running_def returned by (induction m) auto
    ultimately show ?thesis by simp
  qed
  moreover have "idle p \<Longrightarrow> queue p = [] \<and> running p = {#}" using ok by (simp add: idle_def pool_ok_def)
  ultimately show ?thesis using ok idle_done unfolding pool_ok_def by blast
qed

theorem thread_pool_jobs_witness:
  "submitted done_pool = started done_pool @ queue done_pool \<and> mset (completed done_pool) = mset (submitted done_pool)"
  using thread_pool_jobs [OF reach_done, of 1] by (simp add: done_pool_def idle_def)



end
