(* ===== verification/Spsc_Queue.thy ===== *)
theory Spsc_Queue
  imports Main "HOL-Library.Word"
begin

text \<open>
  \<^verbatim>\<open>tasks/spsc-queue/reference.hpp\<close>: a bounded queue for one producer and one consumer.

  The counters are 64-bit words that wrap around; a slot of the storage holds an object or not.
  The producer and the consumer run at the same time: each of \<^verbatim>\<open>try_push\<close> and \<^verbatim>\<open>try_pop\<close> is three
  steps (look at the counters, use the slot, publish the counter), and the steps of the two sides
  interleave in any way.  Constructing an object in a slot that holds one, or taking from a slot
  that holds none, would be a race; the storage records it as \<open>Broken\<close>.
\<close>

section \<open>The queue\<close>

datatype 'a slot = Free | Holds 'a | Broken

datatype 'a producer = Ready | Writing 'a | Publishing 'a
datatype 'a consumer = Idle | Reading | Releasing 'a

record 'a spsc =
  size_limit :: nat
  storage :: "nat \<Rightarrow> 'a slot"
  head_count :: "64 word"
  tail_count :: "64 word"
  producer :: "'a producer"
  consumer :: "'a consumer"
  pushed :: "'a list"
  popped :: "'a list"

definition new_spsc :: "nat \<Rightarrow> 'a spsc" where
  "new_spsc n =
     \<lparr>size_limit = n, storage = (\<lambda>i. Free), head_count = 0, tail_count = 0, producer = Ready, consumer = Idle,
      pushed = [], popped = []\<rparr>"

definition slot_of :: "nat \<Rightarrow> 64 word \<Rightarrow> nat" where
  "slot_of n c = unat c mod n"

definition construct :: "'a \<Rightarrow> 'a slot \<Rightarrow> 'a slot" where
  "construct v x = (case x of Free \<Rightarrow> Holds v | _ \<Rightarrow> Broken)"

definition is_full :: "'a spsc \<Rightarrow> bool" where
  "is_full q \<longleftrightarrow> tail_count q - head_count q = of_nat (size_limit q)"

definition is_empty :: "'a spsc \<Rightarrow> bool" where
  "is_empty q \<longleftrightarrow> head_count q = tail_count q"

text \<open>The steps of the producer; \<open>push_look\<close> gives the answer \<^verbatim>\<open>false\<close> when the queue is full.\<close>

definition push_look :: "'a \<Rightarrow> 'a spsc \<Rightarrow> bool \<times> 'a spsc" where
  "push_look v q = (if is_full q then (False, q) else (True, q\<lparr>producer := Writing v\<rparr>))"

definition push_write :: "'a \<Rightarrow> 'a spsc \<Rightarrow> 'a spsc" where
  "push_write v q =
     (let i = slot_of (size_limit q) (tail_count q)
      in q\<lparr>storage := (storage q)(i := construct v (storage q i)), producer := Publishing v\<rparr>)"

definition push_publish :: "'a \<Rightarrow> 'a spsc \<Rightarrow> 'a spsc" where
  "push_publish v q = q\<lparr>tail_count := tail_count q + 1, producer := Ready, pushed := pushed q @ [v]\<rparr>"

definition pop_look :: "'a spsc \<Rightarrow> bool \<times> 'a spsc" where
  "pop_look q = (if is_empty q then (False, q) else (True, q\<lparr>consumer := Reading\<rparr>))"

definition pop_read :: "'a spsc \<Rightarrow> 'a spsc option" where
  "pop_read q =
     (let i = slot_of (size_limit q) (head_count q) in
      case storage q i of
        Holds v \<Rightarrow> Some (q\<lparr>storage := (storage q)(i := Free), consumer := Releasing v\<rparr>)
      | _ \<Rightarrow> None)"

definition pop_release :: "'a \<Rightarrow> 'a spsc \<Rightarrow> 'a spsc" where
  "pop_release v q = q\<lparr>head_count := head_count q + 1, consumer := Idle, popped := popped q @ [v]\<rparr>"

inductive qstep :: "'a spsc \<Rightarrow> 'a spsc \<Rightarrow> bool" where
  p_look: "\<lbrakk>producer q = Ready; push_look v q = (b, q')\<rbrakk> \<Longrightarrow> qstep q q'"
| p_write: "producer q = Writing v \<Longrightarrow> qstep q (push_write v q)"
| p_publish: "producer q = Publishing v \<Longrightarrow> qstep q (push_publish v q)"
| c_look: "\<lbrakk>consumer q = Idle; pop_look q = (b, q')\<rbrakk> \<Longrightarrow> qstep q q'"
| c_read: "\<lbrakk>consumer q = Reading; pop_read q = Some q'\<rbrakk> \<Longrightarrow> qstep q q'"
| c_release: "consumer q = Releasing v \<Longrightarrow> qstep q (pop_release v q)"

inductive qreachable :: "nat \<Rightarrow> 'a spsc \<Rightarrow> bool" for n where
  at_start: "qreachable n (new_spsc n)"
| one_step: "qreachable n q \<Longrightarrow> qstep q q' \<Longrightarrow> qreachable n q'"

text \<open>The calls as a whole, when the other side does not move.\<close>

definition try_push :: "'a \<Rightarrow> 'a spsc \<Rightarrow> bool \<times> 'a spsc" where
  "try_push v q = (case push_look v q of (False, q) \<Rightarrow> (False, q) | (True, q) \<Rightarrow> (True, push_publish v (push_write v q)))"

definition try_pop :: "'a spsc \<Rightarrow> ('a option \<times> 'a spsc) option" where
  "try_pop q =
     (case pop_look q of
        (False, q) \<Rightarrow> Some (None, q)
      | (True, q) \<Rightarrow>
          map_option (\<lambda>q. case consumer q of Releasing v \<Rightarrow> (Some v, pop_release v q) | _ \<Rightarrow> (None, q)) (pop_read q))"

text \<open>\<^verbatim>\<open>size_approx\<close> may be called by any thread: it loads the head in the state \<open>q\<close> and the tail in a later one.\<close>

definition size_approx :: "'a spsc \<Rightarrow> 'a spsc \<Rightarrow> 64 word" where
  "size_approx q q' = tail_count q' - head_count q"

section \<open>The invariant\<close>

text \<open>
  The objects are numbered in the order in which they are pushed.  Those from \<open>lo\<close> (inclusive) to \<open>hi\<close>
  (exclusive) are in the storage: the producer may have constructed one that is not published, and
  the consumer may have taken one that is not released.
\<close>

definition written :: "'a spsc \<Rightarrow> 'a list" where
  "written q = pushed q @ (case producer q of Publishing v \<Rightarrow> [v] | _ \<Rightarrow> [])"

definition lo :: "'a spsc \<Rightarrow> nat" where
  "lo q = length (popped q) + (case consumer q of Releasing v \<Rightarrow> 1 | _ \<Rightarrow> 0)"

definition in_storage :: "nat \<Rightarrow> nat \<Rightarrow> nat \<Rightarrow> 'a list \<Rightarrow> (nat \<Rightarrow> 'a slot) \<Rightarrow> bool" where
  "in_storage n a b xs st \<longleftrightarrow>
     (\<forall>k. a \<le> k \<and> k < b \<longrightarrow> st (k mod n) = Holds (xs ! k)) \<and>
     (\<forall>i < n. (\<forall>k. a \<le> k \<and> k < b \<longrightarrow> k mod n \<noteq> i) \<longrightarrow> st i = Free)"

definition counters_ok :: "'a spsc \<Rightarrow> bool" where
  "counters_ok q \<longleftrightarrow>
     head_count q = of_nat (length (popped q)) \<and> tail_count q = of_nat (length (pushed q)) \<and>
     length (pushed q) + (if producer q = Ready then 0 else 1) \<le> length (popped q) + size_limit q \<and>
     length (popped q) + (if consumer q = Idle then 0 else 1) \<le> length (pushed q)"

definition spsc_ok :: "nat \<Rightarrow> 'a spsc \<Rightarrow> bool" where
  "spsc_ok n q \<longleftrightarrow>
     size_limit q = n \<and> counters_ok q \<and>
     popped q @ (case consumer q of Releasing v \<Rightarrow> [v] | _ \<Rightarrow> []) = take (lo q) (pushed q) \<and>
     in_storage n (lo q) (length (written q)) (written q) (storage q)"

text \<open>The counters do not wrap around, or the capacity divides their range.\<close>

definition wraps_well :: "nat \<Rightarrow> 'a spsc \<Rightarrow> bool" where
  "wraps_well n q \<longleftrightarrow> n dvd 2 ^ 64 \<or> length (pushed q) < 2 ^ 64"

lemma mod_differ: "k < m \<Longrightarrow> m - k < n \<Longrightarrow> k mod n \<noteq> m mod n" for k m n :: nat
  by (metis dvd_imp_le less_or_eq_imp_le mod_eq_dvd_iff_nat not_less zero_less_diff)

lemma slot_of_nat: "n dvd 2 ^ 64 \<or> k < 2 ^ 64 \<Longrightarrow> slot_of n (of_nat k) = k mod n"
  by (auto simp: slot_of_def unat_of_nat mod_mod_cancel)

lemma of_nat_same:
  assumes "a \<le> b" "b - a < 2 ^ 64" "(of_nat a :: 64 word) = of_nat b"
  shows "a = b"
proof -
  have "(of_nat (b - a) :: 64 word) = 0" using assms by (simp add: of_nat_diff)
  then have "unat (of_nat (b - a) :: 64 word) = 0" by simp
  then have "(b - a) mod 2 ^ 64 = 0" by (simp add: unat_of_nat)
  then show ?thesis using assms by simp
qed

lemma is_full_iff:
  assumes "counters_ok q" "size_limit q < 2 ^ 64" "producer q = Ready"
  shows "is_full q \<longleftrightarrow> length (pushed q) = length (popped q) + size_limit q"
proof -
  have le: "length (popped q) \<le> length (pushed q)" "length (pushed q) \<le> length (popped q) + size_limit q"
    using assms by (auto simp: counters_ok_def split: if_splits)
  then have diff: "tail_count q - head_count q = of_nat (length (pushed q) - length (popped q))"
    using assms(1) by (simp add: counters_ok_def of_nat_diff)
  have "is_full q \<longleftrightarrow> (of_nat (length (pushed q) - length (popped q)) :: 64 word) = of_nat (size_limit q)"
    unfolding is_full_def diff ..
  also have "\<dots> \<longleftrightarrow> length (pushed q) - length (popped q) = size_limit q"
  proof
    assume "(of_nat (length (pushed q) - length (popped q)) :: 64 word) = of_nat (size_limit q)"
    then show "length (pushed q) - length (popped q) = size_limit q"
      using le assms(2) by (intro of_nat_same) simp_all
  qed simp
  finally show ?thesis using le by auto
qed

lemma is_empty_iff:
  assumes "counters_ok q" "size_limit q < 2 ^ 64"
  shows "is_empty q \<longleftrightarrow> length (popped q) = length (pushed q)"
proof -
  have "length (popped q) \<le> length (pushed q)" "length (pushed q) \<le> length (popped q) + size_limit q"
    using assms by (auto simp: counters_ok_def split: if_splits)
  then show ?thesis
    using assms of_nat_same [of "length (popped q)" "length (pushed q)"]
    by (auto simp: is_empty_def counters_ok_def)
qed

text \<open>Constructing the next object, and taking the first.\<close>

lemma in_storage_write:
  assumes "in_storage n a b xs st" "length xs = b" "b - a < n" "a \<le> b"
  shows "st (b mod n) = Free" "in_storage n a (Suc b) (xs @ [v]) (st(b mod n := Holds v))"
proof -
  have other: "k mod n \<noteq> b mod n" if "a \<le> k" "k < b" for k
    using mod_differ [of k b n] that assms(3) by simp
  have "b mod n < n" using assms(3) by simp
  with other assms(1) show "st (b mod n) = Free" by (auto simp: in_storage_def)
  show "in_storage n a (Suc b) (xs @ [v]) (st(b mod n := Holds v))"
    unfolding in_storage_def
  proof (intro conjI allI impI)
    fix k
    assume "a \<le> k \<and> k < Suc b"
    then show "(st(b mod n := Holds v)) (k mod n) = Holds ((xs @ [v]) ! k)"
      using assms(1,2) other [of k] by (cases "k = b") (auto simp: in_storage_def nth_append)
  next
    fix i
    assume i: "i < n" and free: "\<forall>k. a \<le> k \<and> k < Suc b \<longrightarrow> k mod n \<noteq> i"
    then have "i \<noteq> b mod n" "st i = Free" using assms(1,4) by (auto simp: in_storage_def)
    then show "(st(b mod n := Holds v)) i = Free" by simp
  qed
qed

lemma in_storage_read:
  assumes "in_storage n a b xs st" "a < b" "b - a \<le> n"
  shows "st (a mod n) = Holds (xs ! a)" "in_storage n (Suc a) b xs (st(a mod n := Free))"
proof -
  have other: "k mod n \<noteq> a mod n" if "Suc a \<le> k" "k < b" for k
  proof -
    have "k - a < n" using that assms(3) by linarith
    then show ?thesis using mod_differ [of a k n] that by simp
  qed
  show "st (a mod n) = Holds (xs ! a)" using assms(1,2) by (simp add: in_storage_def)
  show "in_storage n (Suc a) b xs (st(a mod n := Free))"
    unfolding in_storage_def
  proof (intro conjI allI impI)
    fix k
    assume "Suc a \<le> k \<and> k < b"
    then show "(st(a mod n := Free)) (k mod n) = Holds (xs ! k)"
      using assms(1) other [of k] by (auto simp: in_storage_def)
  next
    fix i
    assume i: "i < n" and free: "\<forall>k. Suc a \<le> k \<and> k < b \<longrightarrow> k mod n \<noteq> i"
    then have "i = a mod n \<or> (\<forall>k. a \<le> k \<and> k < b \<longrightarrow> k mod n \<noteq> i)" by (metis le_neq_implies_less Suc_leI)
    then show "(st(a mod n := Free)) i = Free" using assms(1) i by (auto simp: in_storage_def)
  qed
qed

lemma new_spsc_ok: "spsc_ok n (new_spsc n)"
  by (simp add: spsc_ok_def counters_ok_def new_spsc_def lo_def written_def in_storage_def)

section \<open>The steps\<close>

lemma spsc_okD:
  assumes "spsc_ok n q"
  shows "size_limit q = n" "counters_ok q"
    "popped q @ (case consumer q of Releasing v \<Rightarrow> [v] | _ \<Rightarrow> []) = take (lo q) (pushed q)"
    "in_storage n (lo q) (length (written q)) (written q) (storage q)"
  using assms by (simp_all add: spsc_ok_def)

lemma push_look_ok:
  assumes "spsc_ok n q" "n < 2 ^ 64" "producer q = Ready" "push_look v q = (b, q')"
  shows "spsc_ok n q'"
proof (cases b)
  case True
  with assms(4) have q': "q' = q\<lparr>producer := Writing v\<rparr>" "\<not> is_full q"
    by (auto simp: push_look_def split: if_splits)
  then have "length (pushed q) \<noteq> length (popped q) + n"
    using is_full_iff [of q] spsc_okD(1,2) [OF assms(1)] assms(2,3) by simp
  then have "counters_ok q'" using spsc_okD(1,2) [OF assms(1)] assms(3) by (auto simp: q' counters_ok_def)
  moreover have "lo q' = lo q" "written q' = written q" using assms(3) by (simp_all add: q' lo_def written_def)
  ultimately show ?thesis using spsc_okD [OF assms(1)] by (simp add: spsc_ok_def q')
qed (use assms in \<open>auto simp: push_look_def split: if_splits\<close>)

lemma push_write_ok:
  assumes "spsc_ok n q" "wraps_well n q" "producer q = Writing v"
  shows "spsc_ok n (push_write v q)" "storage q (slot_of n (tail_count q)) = Free"
proof -
  note ok = spsc_okD [OF assms(1)]
  let ?p = "length (pushed q)"
  have slot: "slot_of n (tail_count q) = ?p mod n"
    using ok(2) assms(2) slot_of_nat [of n ?p] by (simp add: counters_ok_def wraps_well_def)
  have w: "written q = pushed q" using assms(3) by (simp add: written_def)
  have "?p - lo q < n" "lo q \<le> ?p"
    using ok(1,2) assms(3) by (auto simp: counters_ok_def lo_def split: consumer.splits)
  note free_slot = in_storage_write(1) [OF ok(4) [unfolded w] refl this]
    and wr = in_storage_write(2) [OF ok(4) [unfolded w] refl this, of v]
  show free: "storage q (slot_of n (tail_count q)) = Free" using free_slot slot by simp
  have "counters_ok (push_write v q)" "lo (push_write v q) = lo q" "written (push_write v q) = pushed q @ [v]"
    using ok(2) assms(3) by (simp_all add: counters_ok_def push_write_def Let_def lo_def written_def)
  then show "spsc_ok n (push_write v q)"
    using ok wr free slot by (simp add: spsc_ok_def push_write_def Let_def construct_def)
qed

lemma push_publish_ok:
  assumes "spsc_ok n q" "producer q = Publishing v"
  shows "spsc_ok n (push_publish v q)"
proof -
  note ok = spsc_okD [OF assms(1)]
  have le: "lo q \<le> length (pushed q)"
    using ok(2) by (auto simp: counters_ok_def lo_def split: consumer.splits)
  have "counters_ok (push_publish v q)" "lo (push_publish v q) = lo q" "written (push_publish v q) = written q"
    using ok(2) assms(2) by (auto simp: counters_ok_def push_publish_def lo_def written_def)
  with ok le show ?thesis by (simp add: spsc_ok_def push_publish_def)
qed

lemma pop_look_ok:
  assumes "spsc_ok n q" "n < 2 ^ 64" "consumer q = Idle" "pop_look q = (b, q')"
  shows "spsc_ok n q'"
proof (cases b)
  case True
  with assms(4) have q': "q' = q\<lparr>consumer := Reading\<rparr>" "\<not> is_empty q"
    by (auto simp: pop_look_def split: if_splits)
  then have "length (popped q) \<noteq> length (pushed q)"
    using is_empty_iff [of q] spsc_okD(1,2) [OF assms(1)] assms(2) by simp
  then have "counters_ok q'" using spsc_okD(1,2) [OF assms(1)] assms(3) by (auto simp: q' counters_ok_def)
  moreover have "lo q' = lo q" "written q' = written q" using assms(3) by (simp_all add: q' lo_def written_def)
  ultimately show ?thesis using spsc_okD [OF assms(1)] assms(3) by (simp add: spsc_ok_def q')
qed (use assms in \<open>auto simp: pop_look_def split: if_splits\<close>)

lemma pop_read_ok:
  assumes "spsc_ok n q" "wraps_well n q" "consumer q = Reading"
  shows "\<exists>q'. pop_read q = Some q' \<and> spsc_ok n q' \<and> consumer q' = Releasing (pushed q ! length (popped q)) \<and>
    pushed q' = pushed q"
proof -
  note ok = spsc_okD [OF assms(1)]
  let ?c = "length (popped q)"
  have c: "?c < length (pushed q)" "lo q = ?c" "head_count q = of_nat ?c"
    using ok(2) assms(3) by (auto simp: counters_ok_def lo_def)
  have slot: "slot_of n (head_count q) = ?c mod n"
    using c assms(2) slot_of_nat [of n ?c] by (auto simp: wraps_well_def)
  have "length (written q) - lo q \<le> n" "lo q < length (written q)"
    using ok(1,2) c by (auto simp: counters_ok_def written_def split: producer.splits)
  note rd = in_storage_read [OF ok(4) this(2,1)]
  let ?v = "pushed q ! ?c"
  have v: "written q ! ?c = ?v" using c by (simp add: written_def nth_append)
  let ?q = "q\<lparr>storage := (storage q)(?c mod n := Free), consumer := Releasing ?v\<rparr>"
  have "pop_read q = Some ?q" using rd(1) slot c v ok(1) by (simp add: pop_read_def Let_def)
  moreover have "counters_ok ?q" "lo ?q = Suc (lo q)" "written ?q = written q"
    using ok(2) assms(3) c by (simp_all add: counters_ok_def lo_def written_def)
  moreover have "popped q @ [?v] = take (Suc (lo q)) (pushed q)"
    using ok(3) assms(3) c by (simp add: take_Suc_conv_app_nth)
  ultimately show ?thesis using ok rd(2) c by (auto simp: spsc_ok_def)
qed

lemma pop_release_ok:
  assumes "spsc_ok n q" "consumer q = Releasing v"
  shows "spsc_ok n (pop_release v q)"
proof -
  note ok = spsc_okD [OF assms(1)]
  have "counters_ok (pop_release v q)" "lo (pop_release v q) = lo q" "written (pop_release v q) = written q"
    using ok(2) assms(2) by (auto simp: counters_ok_def pop_release_def lo_def written_def)
  with ok assms(2) show ?thesis by (simp add: spsc_ok_def pop_release_def)
qed

lemma qstep_ok:
  assumes "qstep q q'" "spsc_ok n q" "n < 2 ^ 64" "wraps_well n q"
  shows "spsc_ok n q'"
  using assms(1)
proof cases
  case (p_look v b)
  then show ?thesis by (rule push_look_ok [OF assms(2,3)])
next
  case (p_write v)
  from push_write_ok(1) [OF assms(2,4) this(2)] this(1) show ?thesis by simp
next
  case (p_publish v)
  from push_publish_ok [OF assms(2) this(2)] this(1) show ?thesis by simp
next
  case (c_look b)
  then show ?thesis by (rule pop_look_ok [OF assms(2,3)])
next
  case c_read
  with pop_read_ok [OF assms(2,4)] show ?thesis by auto
next
  case (c_release v)
  from pop_release_ok [OF assms(2) this(2)] this(1) show ?thesis by simp
qed

lemma qstep_pushed: "qstep q q' \<Longrightarrow> length (pushed q) \<le> length (pushed q')"
  by (induction rule: qstep.induct)
    (auto simp: push_look_def push_write_def push_publish_def pop_look_def pop_read_def pop_release_def Let_def
      split: if_splits slot.splits)

lemma qreachable_ok: "qreachable n q \<Longrightarrow> n < 2 ^ 64 \<Longrightarrow> wraps_well n q \<Longrightarrow> spsc_ok n q"
proof (induction rule: qreachable.induct)
  case (one_step q q')
  then have "wraps_well n q" using qstep_pushed [OF one_step.hyps(2)] by (auto simp: wraps_well_def)
  with one_step qstep_ok show ?case by blast
qed (rule new_spsc_ok)

lemma qreachable_later:
  assumes "qstep\<^sup>*\<^sup>* q q'" "qreachable n q"
  shows "qreachable n q' \<and> length (pushed q) \<le> length (pushed q')"
  using assms
proof (induction rule: rtranclp_induct)
  case (step r r')
  then show ?case using one_step [of n r r'] qstep_pushed [of r r'] by auto
qed simp

text \<open>A queue of capacity 4 with one object.\<close>

definition one_object :: "nat spsc" where
  "one_object = push_publish 7 (push_write 7 ((new_spsc 4)\<lparr>producer := Writing 7\<rparr>))"

lemma reach_one_object: "qreachable 4 one_object"
proof -
  have "qstep (new_spsc 4 :: nat spsc) ((new_spsc 4)\<lparr>producer := Writing 7\<rparr>)"
    by (rule p_look [of _ 7 True]) (simp_all add: new_spsc_def push_look_def is_full_def)
  from one_step [OF at_start this] have "qreachable 4 ((new_spsc 4)\<lparr>producer := Writing (7 :: nat)\<rparr>)" .
  from one_step [OF this p_write [of _ 7]]
  have "qreachable 4 (push_write 7 ((new_spsc 4)\<lparr>producer := Writing (7 :: nat)\<rparr>))" by simp
  from one_step [OF this p_publish [of _ 7]] show ?thesis by (simp add: one_object_def push_write_def Let_def)
qed

section \<open>Properties\<close>



text \<open>
  Why the capacity has to divide the range of the counters.  The storage of a queue of capacity 3
  gives the same slot to two consecutive values of the counter when it wraps around, so that two objects
  of the queue would share it.
\<close>

theorem spsc_wrap_collides:
  "slot_of 3 (- 1) = slot_of 3 (- 1 + 1) \<and> (- 1 :: 64 word) \<noteq> - 1 + 1"
  by (simp add: slot_of_def unsigned_minus_1_eq_mask mask_eq_exp_minus_1)

end
