(* ===== verification/Token_Bucket.thy ===== *)
theory Token_Bucket
  imports Double
begin

text \<open>
  The reference solution of the token bucket task (\<^verbatim>\<open>tasks/token-bucket/reference.hpp\<close>), with its
  arithmetic on doubles.  Its clock is a parameter: an operation is given the time point the clock
  shows in it (nanoseconds).  The lock makes every operation one step, so a run is a list of events.
\<close>

section \<open>The bucket\<close>

record bucket =
  tb_rate :: double
  tb_burst :: double
  tb_tokens :: double
  tb_last :: int

definition new_bucket :: "double \<Rightarrow> double \<Rightarrow> int \<Rightarrow> bucket" where
  "new_bucket rate burst now = \<lparr>tb_rate = rate, tb_burst = burst, tb_tokens = burst, tb_last = now\<rparr>"

text \<open>\<^verbatim>\<open>std::chrono::duration<double>\<close> of a number of nanoseconds.\<close>

definition seconds_of :: "int \<Rightarrow> double" where
  "seconds_of ns = d_div (double_of_int ns) (double_of_int (10 ^ 9))"

definition refill :: "int \<Rightarrow> bucket \<Rightarrow> bucket" where
  "refill now b =
     (if now \<le> tb_last b then b
      else b\<lparr>tb_tokens :=
               d_min (tb_burst b) (d_add (tb_tokens b) (d_mul (seconds_of (now - tb_last b)) (tb_rate b))),
             tb_last := now\<rparr>)"

definition try_acquire :: "int \<Rightarrow> double \<Rightarrow> bucket \<Rightarrow> bool \<times> bucket" where
  "try_acquire now n b =
     (let b = refill now b in
      if d_less (tb_tokens b) n then (False, b) else (True, b\<lparr>tb_tokens := d_sub (tb_tokens b) n\<rparr>))"

definition available :: "int \<Rightarrow> bucket \<Rightarrow> double \<times> bucket" where
  "available now b = (let b = refill now b in (tb_tokens b, b))"

definition max_nanoseconds :: int where
  "max_nanoseconds = 2 ^ 63 - 1"

text \<open>\<^const>\<open>None\<close> where the number of nanoseconds does not fit and the conversion is undefined.\<close>

definition time_until_available :: "int \<Rightarrow> double \<Rightarrow> bucket \<Rightarrow> int option \<times> bucket" where
  "time_until_available now n b =
     (let b = refill now b in
      (if d_le n (tb_tokens b) then Some 0
       else if d_less (tb_burst b) n \<or> d_le (tb_rate b) (double_of_int 0) then Some max_nanoseconds
       else d_to_i64 (d_ceil (d_mul (d_div (d_sub n (tb_tokens b)) (tb_rate b)) (double_of_int (10 ^ 9)))),
       b))"

section \<open>Runs\<close>

datatype bucket_event = Acquire int double | Look int | Ask int double

fun bucket_step :: "bucket_event \<Rightarrow> bucket \<Rightarrow> bucket" where
  "bucket_step (Acquire now n) b = snd (try_acquire now n b)"
| "bucket_step (Look now) b = snd (available now b)"
| "bucket_step (Ask now n) b = snd (time_until_available now n b)"

definition run_bucket :: "bucket_event list \<Rightarrow> bucket \<Rightarrow> bucket" where
  "run_bucket es b = fold bucket_step es b"

text \<open>How many requests of a list a bucket grants, one after the other at times of their own.\<close>

fun grants :: "(int \<times> double) list \<Rightarrow> bucket \<Rightarrow> nat" where
  "grants [] b = 0"
| "grants ((now, n) # rs) b =
     (let (granted, b') = try_acquire now n b in (if granted then 1 else 0) + grants rs b')"

section \<open>Amounts\<close>

text \<open>A rate, a number of tokens: finite and not negative.\<close>

fun amount :: "double \<Rightarrow> bool" where
  "amount (Fin s q) \<longleftrightarrow> \<not> s \<and> representable q \<and> q < pow2 1024"
| "amount _ \<longleftrightarrow> False"

fun sensible :: "bucket_event \<Rightarrow> bool" where
  "sensible (Acquire now n) \<longleftrightarrow> amount n"
| "sensible (Look now) \<longleftrightarrow> True"
| "sensible (Ask now n) \<longleftrightarrow> amount n"

definition bucket_ok :: "bucket \<Rightarrow> bool" where
  "bucket_ok b \<longleftrightarrow> amount (tb_rate b) \<and> amount (tb_burst b) \<and> amount (tb_tokens b) \<and> d_le (tb_tokens b) (tb_burst b)"

lemma amountE:
  assumes "amount d"
  obtains q where "d = Fin False q" "0 \<le> q" "representable q" "q < pow2 1024"
  using assms by (cases d) (auto dest: representable_nonneg)

lemma d_le_amount: "d_le (Fin False p) (Fin False q) \<longleftrightarrow> p \<le> q"
  by (auto simp: d_le_def signed_val_def)

lemma amount_mk_double: "mk_double False q = Inf False \<or> amount (mk_double False q)"
  by (auto simp: mk_double_def not_le)

lemma d_add_amount:
  assumes "representable t" "0 \<le> t" "t < pow2 1024" "0 \<le> q"
  shows "d_add (Fin False t) (Fin False q) = mk_double False (t + q)"
  using assms by (auto simp: signed_val_def double_of_rat_def mk_double_exact add_nonneg_eq_0_iff Let_def)

lemma d_sub_amount:
  assumes "0 \<le> q" "q \<le> t"
  shows "d_sub (Fin False t) (Fin False q) = mk_double False (t - q)"
  using assms pow2_pos [of 1024]
  by (auto simp: d_sub_def signed_val_def double_of_rat_def mk_double_def Let_def simp del: pow2_pos)

lemma round_mag_add_ge: "representable t \<Longrightarrow> 0 \<le> q \<Longrightarrow> t \<le> round_mag (t + q)"
  using round_mag_mono [of t "t + q"] by (simp add: round_mag_representable)

lemma round_mag_sub_le: "representable t \<Longrightarrow> 0 \<le> q \<Longrightarrow> round_mag (t - q) \<le> t"
  using round_mag_mono [of "t - q" t] by (simp add: round_mag_representable)

text \<open>A gain of \<open>p\<close> tokens, capped: never less than before and never more than the burst.\<close>

lemma capped_gain:
  assumes "amount t" "amount b" "d_le t b" "p = Inf False \<or> amount p"
  shows "amount (d_min b (d_add t p)) \<and> d_le t (d_min b (d_add t p)) \<and> d_le (d_min b (d_add t p)) b"
proof -
  obtain x y where x: "t = Fin False x" "0 \<le> x" "representable x" "x < pow2 1024"
    and y: "b = Fin False y" "0 \<le> y" "representable y" "y < pow2 1024"
    using assms(1,2) by (auto elim!: amountE)
  have le: "x \<le> y" using assms(3) x y by (simp add: d_le_amount)
  show ?thesis
  proof (cases "amount p")
    case False
    then have "p = Inf False" using assms(4) by simp
    with x y le show ?thesis by (simp add: d_min_def d_le_amount)
  next
    case True
    then obtain z where z: "p = Fin False z" "0 \<le> z" by (auto elim!: amountE)
    have "d_add t p = mk_double False (x + z)"
      unfolding x(1) z(1) using x(2-4) z(2) by (intro d_add_amount)
    moreover have "x \<le> round_mag (x + z)" using x z by (simp add: round_mag_add_ge)
    ultimately show ?thesis
      using x y le by (auto simp: mk_double_def d_min_def d_le_amount signed_val_def)
  qed
qed


lemma amount_nat: "n < 2 ^ 53 \<Longrightarrow> amount (Fin False (of_nat n))"
  using mk_double_nat [of n False] amount_mk_double [of "of_nat n"] by simp

text \<open>Elapsed times below \<open>2^63\<close> nanoseconds are finite numbers of seconds.\<close>

lemma mk_double_upto:
  assumes "q \<le> 2 ^ 63"
  shows "mk_double s q = Fin s (round_mag q)" "round_mag q \<le> 2 ^ 63"
proof -
  have rep: "representable (2 ^ 63)"
    unfolding representable_def by (intro exI [of _ 1] exI [of _ 63]) (simp add: pow2_def)
  show le: "round_mag q \<le> 2 ^ 63" using round_mag_mono [OF assms] unfolding round_mag_representable [OF rep] .
  have "(2 :: rat) ^ 63 < pow2 1024" using pow2_less_iff [of 63 1024] by (simp add: pow2_def)
  with le show "mk_double s q = Fin s (round_mag q)" by (simp add: mk_double_def)
qed

lemma seconds_of_finite:
  assumes "0 < ns" "ns < 2 ^ 63"
  shows "\<exists>q. seconds_of ns = Fin False q \<and> 0 \<le> q"
proof -
  have "(of_int ns :: rat) \<le> of_int (2 ^ 63)" using assms(2) by (simp only: of_int_le_iff)
  then have ns: "(of_int ns :: rat) \<le> 2 ^ 63" by simp
  have n: "double_of_int ns = Fin False (round_mag (of_int ns))" "round_mag (of_int ns) \<le> 2 ^ 63"
    using mk_double_upto [OF ns] assms(1) by (simp_all add: double_of_int_def double_of_rat_def)
  have d: "double_of_int (10 ^ 9) = Fin False (10 ^ 9)" using double_of_int_nat [of "10 ^ 9"] by simp
  have "round_mag (of_int ns) / 10 ^ 9 \<le> 2 ^ 63" using n(2) by simp
  from mk_double_upto(1) [OF this] have "seconds_of ns = Fin False (round_mag (round_mag (of_int ns) / 10 ^ 9))"
    unfolding seconds_of_def n(1) d by simp
  then show ?thesis by simp
qed

lemma gain_amount:
  assumes "0 < ns" "ns < 2 ^ 63" "amount r"
  shows "d_mul (seconds_of ns) r = Inf False \<or> amount (d_mul (seconds_of ns) r)"
proof -
  obtain q y where "seconds_of ns = Fin False q" "r = Fin False y"
    using seconds_of_finite [OF assms(1,2)] assms(3) by (auto elim!: amountE)
  then show ?thesis using amount_mk_double by simp
qed

text \<open>Time points whose differences fit the clock's 64 bits.\<close>

definition clock_time :: "int \<Rightarrow> bool" where
  "clock_time t \<longleftrightarrow> - (2 ^ 62) \<le> t \<and> t < 2 ^ 62"

fun time_of :: "bucket_event \<Rightarrow> int" where
  "time_of (Acquire now n) = now"
| "time_of (Look now) = now"
| "time_of (Ask now n) = now"

text \<open>What a refill keeps and what it never does: remove tokens or exceed the burst.\<close>

lemma refill_ok:
  assumes "bucket_ok b" "clock_time now" "clock_time (tb_last b)"
  shows "bucket_ok (refill now b)" "d_le (tb_tokens b) (tb_tokens (refill now b))"
    "tb_burst (refill now b) = tb_burst b" "tb_rate (refill now b) = tb_rate b" "clock_time (tb_last (refill now b))"
proof -
  let ?p = "d_mul (seconds_of (now - tb_last b)) (tb_rate b)"
  have "d_le t t" if "amount t" for t using that by (auto elim!: amountE simp: d_le_amount)
  moreover have "?p = Inf False \<or> amount ?p" if "\<not> now \<le> tb_last b"
    using gain_amount [of "now - tb_last b" "tb_rate b"] that assms by (auto simp: clock_time_def bucket_ok_def)
  ultimately show "bucket_ok (refill now b)" "d_le (tb_tokens b) (tb_tokens (refill now b))"
    using assms(1) capped_gain [of "tb_tokens b" "tb_burst b" ?p] by (auto simp: refill_def bucket_ok_def)
qed (use assms in \<open>simp_all add: refill_def\<close>)

text \<open>Taking an amount that is there.\<close>

lemma take_ok:
  assumes "bucket_ok b" "amount n" "\<not> d_less (tb_tokens b) n"
  shows "bucket_ok (b\<lparr>tb_tokens := d_sub (tb_tokens b) n\<rparr>)"
proof -
  obtain x y q where x: "tb_tokens b = Fin False x" "0 \<le> x" "representable x" "x < pow2 1024"
    and y: "tb_burst b = Fin False y" and q: "n = Fin False q" "0 \<le> q"
    using assms(1,2) by (auto simp: bucket_ok_def elim!: amountE)
  have "q \<le> x" using assms(3) x q by (simp add: signed_val_def)
  then have "d_sub (tb_tokens b) n = mk_double False (x - q)" unfolding x(1) q(1) by (intro d_sub_amount q(2))
  moreover have "round_mag (x - q) \<le> x" using x(3) q(2) by (rule round_mag_sub_le)
  moreover from this have "round_mag (x - q) < pow2 1024" using x(4) by simp
  ultimately show ?thesis
    using assms(1) x y by (auto simp: bucket_ok_def mk_double_def d_le_amount)
qed

lemma bucket_step_ok:
  assumes "bucket_ok b" "sensible e" "clock_time (time_of e)" "clock_time (tb_last b)"
  shows "bucket_ok (bucket_step e b)" "clock_time (tb_last (bucket_step e b))"
    "tb_burst (bucket_step e b) = tb_burst b" "tb_rate (bucket_step e b) = tb_rate b"
  using assms refill_ok [OF assms(1,3,4)] take_ok
  by (cases e; auto simp: try_acquire_def available_def time_until_available_def Let_def)+

lemma run_bucket_ok:
  assumes "list_all sensible es" "list_all (\<lambda>e. clock_time (time_of e)) es" "bucket_ok b" "clock_time (tb_last b)"
  shows "bucket_ok (run_bucket es b) \<and> clock_time (tb_last (run_bucket es b)) \<and>
    tb_burst (run_bucket es b) = tb_burst b \<and> tb_rate (run_bucket es b) = tb_rate b"
  using assms
proof (induction es arbitrary: b)
  case (Cons e es)
  then show ?case using bucket_step_ok [of b e] by (simp add: run_bucket_def)
qed (simp add: run_bucket_def)

lemma new_bucket_ok: "amount rate \<Longrightarrow> amount burst \<Longrightarrow> bucket_ok (new_bucket rate burst now)"
  by (auto simp: new_bucket_def bucket_ok_def d_le_amount elim!: amountE)


section \<open>Requests that are never granted\<close>

lemma not_granted: "fst (try_acquire now n b) \<longleftrightarrow> \<not> d_less (tb_tokens (refill now b)) n"
  by (simp add: try_acquire_def Let_def)

lemma amount_zero: "amount r \<Longrightarrow> d_le r (double_of_int 0) \<longleftrightarrow> r = Fin False 0"
  using double_of_int_nat [of 0] by (auto simp: d_le_amount elim!: amountE)

lemma refill_dry:
  assumes "bucket_ok b" "clock_time now" "clock_time (tb_last b)" "tb_rate b = Fin False 0"
  shows "tb_tokens (refill now b) = tb_tokens b"
proof (cases "now \<le> tb_last b")
  case False
  obtain x y where x: "tb_tokens b = Fin False x" "0 \<le> x" "representable x" "x < pow2 1024"
    and y: "tb_burst b = Fin False y" "x \<le> y"
    using assms(1) by (auto simp: bucket_ok_def d_le_amount elim!: amountE)
  obtain q where q: "seconds_of (now - tb_last b) = Fin False q"
    using seconds_of_finite [of "now - tb_last b"] False assms(2,3) by (auto simp: clock_time_def)
  have zero: "mk_double False 0 = Fin False 0" using mk_double_nat [of 0 False] by simp
  have "d_add (Fin False x) (Fin False 0) = Fin False x"
    unfolding d_add_amount [OF x(3,2,4) order_refl] using x by (simp add: mk_double_exact)
  then show ?thesis
    using False x y by (simp add: refill_def q assms(4) zero d_min_def signed_val_def del: d_add.simps)
qed (simp add: refill_def)

lemma take_less:
  assumes "bucket_ok b" "amount n" "\<not> d_less (tb_tokens b) n"
  shows "d_le (d_sub (tb_tokens b) n) (tb_tokens b)"
proof -
  obtain x q where x: "tb_tokens b = Fin False x" "0 \<le> x" "representable x" "x < pow2 1024"
    and q: "n = Fin False q" "0 \<le> q"
    using assms(1,2) by (auto simp: bucket_ok_def elim!: amountE)
  have "q \<le> x" using assms(3) x q by (simp add: signed_val_def)
  then have "d_sub (tb_tokens b) n = mk_double False (x - q)" unfolding x(1) q(1) by (intro d_sub_amount q(2))
  moreover have "round_mag (x - q) \<le> x" using x(3) q(2) by (rule round_mag_sub_le)
  ultimately show ?thesis using x by (auto simp: mk_double_def d_le_amount)
qed

lemma d_le_trans:
  assumes "amount a" "amount b" "amount c" "d_le a b" "d_le b c"
  shows "d_le a c"
  using assms by (auto simp: d_le_amount elim!: amountE)

lemma dry_step:
  assumes "bucket_ok b" "sensible e" "clock_time (time_of e)" "clock_time (tb_last b)" "tb_rate b = Fin False 0"
  shows "d_le (tb_tokens (bucket_step e b)) (tb_tokens b)"
proof -
  have same: "tb_tokens (refill (time_of e) b) = tb_tokens b" using assms by (simp add: refill_dry)
  have "d_le (tb_tokens b) (tb_tokens b)" using assms(1) by (auto simp: bucket_ok_def d_le_amount elim!: amountE)
  with same show ?thesis
    using take_less [OF refill_ok(1) [OF assms(1,3,4)]] assms(2)
    by (cases e) (auto simp: try_acquire_def available_def time_until_available_def Let_def)
qed

lemma dry_run:
  assumes "list_all sensible es" "list_all (\<lambda>e. clock_time (time_of e)) es" "bucket_ok b" "clock_time (tb_last b)"
    and "tb_rate b = Fin False 0"
  shows "d_le (tb_tokens (run_bucket es b)) (tb_tokens b)"
  using assms
proof (induction es arbitrary: b)
  case Nil
  then show ?case by (auto simp: run_bucket_def bucket_ok_def d_le_amount elim!: amountE)
next
  case (Cons e es)
  let ?b = "bucket_step e b"
  have e: "sensible e" "clock_time (time_of e)" using Cons.prems by simp_all
  note ok = bucket_step_ok [OF Cons.prems(3) e Cons.prems(4)]
  have "d_le (tb_tokens (run_bucket es ?b)) (tb_tokens ?b)" using Cons ok by simp
  moreover have "d_le (tb_tokens ?b) (tb_tokens b)" using Cons.prems e by (intro dry_step)
  moreover have "bucket_ok (run_bucket es ?b)" using Cons.prems ok run_bucket_ok [of es ?b] by simp
  ultimately show ?case
    using Cons.prems(3) ok d_le_trans by (simp add: run_bucket_def bucket_ok_def) blast
qed

lemma never_granted:
  assumes "bucket_ok b" "amount n" "clock_time (tb_last b)" "d_less (tb_tokens b) n"
    and "d_less (tb_burst b) n \<or> d_le (tb_rate b) (double_of_int 0)"
    and "list_all sensible es" "list_all (\<lambda>e. clock_time (time_of e)) es" "clock_time now"
  shows "\<not> fst (try_acquire now n (run_bucket es b))"
proof -
  let ?b = "run_bucket es b"
  have run: "bucket_ok ?b" "clock_time (tb_last ?b)" "tb_burst ?b = tb_burst b" "tb_rate ?b = tb_rate b"
    using run_bucket_ok [OF assms(6,7,1,3)] by simp_all
  note ref = refill_ok [OF run(1) assms(8) run(2)]
  have below: "d_less x n" if "d_le x y" "d_less y n" "amount x" "amount y" for x y
    using that assms(2) by (auto simp: d_le_amount signed_val_def elim!: amountE)
  show ?thesis
  proof (cases "d_less (tb_burst b) n")
    case True
    then show ?thesis using ref run below [of _ "tb_burst b"] by (auto simp: not_granted bucket_ok_def)
  next
    case False
    with assms(1,5) have dry: "tb_rate b = Fin False 0" by (simp add: bucket_ok_def amount_zero)
    have "tb_tokens (refill now ?b) = tb_tokens ?b" using run assms(8) dry by (simp add: refill_dry)
    moreover have "d_le (tb_tokens ?b) (tb_tokens b)" using dry_run [OF assms(6,7,1,3) dry] .
    ultimately show ?thesis using run(1) assms(1,4) below by (auto simp: not_granted bucket_ok_def)
  qed
qed

section \<open>Whole tokens\<close>

lemma acquire_one:
  assumes "now \<le> tb_last b" "tb_tokens b = double_of_int (int k)" "k < 2 ^ 53"
  shows "try_acquire now (double_of_int 1) b =
    (if k = 0 then (False, b) else (True, b\<lparr>tb_tokens := double_of_int (int (k - 1))\<rparr>))"
proof (cases k)
  case 0
  then show ?thesis
    using assms double_of_int_nat [of 0] double_of_int_nat [of 1]
    by (simp add: try_acquire_def refill_def signed_val_def)
next
  case (Suc m)
  have tokens: "tb_tokens b = Fin False (1 + of_nat m)" "double_of_int 1 = Fin False 1"
    using assms(2,3) Suc double_of_int_nat [of k] double_of_int_nat [of 1] by simp_all
  have "d_sub (Fin False (1 + of_nat m)) (Fin False 1) = mk_double False (of_nat m)"
    using d_sub_amount [of 1 "1 + of_nat m"] by simp
  also have "\<dots> = double_of_int (int m)" using assms(3) Suc by (simp add: mk_double_nat double_of_int_nat)
  finally show ?thesis using assms(1) Suc by (simp add: try_acquire_def refill_def tokens signed_val_def)
qed

lemma grants_whole:
  assumes "list_all (\<lambda>(t, n). t \<le> tb_last b \<and> n = double_of_int 1) rs" "tb_tokens b = double_of_int (int k)" "k < 2 ^ 53"
  shows "grants rs b = min k (length rs)"
  using assms
proof (induction rs arbitrary: b k)
  case (Cons r rs)
  then obtain t where r: "r = (t, double_of_int 1)" "t \<le> tb_last b" by (cases r) auto
  show ?case
  proof (cases k)
    case 0
    then have "try_acquire t (double_of_int 1) b = (False, b)" using acquire_one [OF r(2) Cons.prems(2,3)] by simp
    then show ?thesis using Cons.IH [of b 0] Cons.prems r 0 by simp
  next
    case (Suc m)
    have step: "try_acquire t (double_of_int 1) b = (True, b\<lparr>tb_tokens := double_of_int (int m)\<rparr>)"
      using acquire_one [OF r(2) Cons.prems(2,3)] Suc by simp
    have "grants rs (b\<lparr>tb_tokens := double_of_int (int m)\<rparr>) = min m (length rs)"
      by (rule Cons.IH) (use Cons.prems Suc in simp_all)
    with step Suc r(1) show ?thesis by simp
  qed
qed simp


section \<open>A wait that is too short\<close>

text \<open>Rounding a number that is no tie between two grid points.\<close>

lemma round_mag_at:
  assumes "pow2 (e + 52) \<le> q" "q < pow2 (e + 53)" "- 1074 \<le> e" "\<bar>q / pow2 e - of_int m\<bar> < 1 / 2"
  shows "round_mag q = of_int m * pow2 e"
proof -
  have q: "0 < q" using assms(1) pow2_pos [of "e + 52"] by linarith
  have "ilog2 q = e + 52" using assms(1,2) by (intro ilog2_eq) (simp_all add: add.assoc)
  then have g: "grid_exp q = e" using assms(3) by (simp add: grid_exp_def)
  let ?x = "q / pow2 e"
  have "\<lfloor>?x\<rfloor> = m \<or> \<lfloor>?x\<rfloor> = m - 1" using assms(4) by linarith
  then have "round_even ?x = m"
  proof
    assume f: "\<lfloor>?x\<rfloor> = m"
    then have "?x - of_int m < 1 / 2" using assms(4) by linarith
    then show ?thesis unfolding round_even_def f Let_def by simp
  next
    assume f: "\<lfloor>?x\<rfloor> = m - 1"
    have "of_int (m - 1) = of_int m - (1 :: rat)" by simp
    then have "1 / 2 < ?x - of_int (m - 1)" using assms(4) by linarith
    then show ?thesis unfolding round_even_def f Let_def by simp
  qed
  then show ?thesis by (simp add: round_mag_pos [OF q] g)
qed

lemma roundings:
  "round_mag (7 / 62500000) = 2115620184325601 / 18889465931478580854784"
  "round_mag (6346860552976803 / 18889465931478580854784) = 6346860552976803 / 18889465931478580854784"
  "round_mag (56668391447575189587549 / 18889465931478580854784) = 6755398684451007 / 2251799813685248"
  "round_mag (2251799561483669 / 2251799813685248) = 2251799561483669 / 2251799813685248"
  "round_mag (4398046018522791015625 / 4398046511104) = 999999888"
  "round_mag (62499993 / 62500000) = 9007198245934675 / 9007199254740992"
  "round_mag (27021594737804025 / 9007199254740992) = 3377699342225503 / 1125899906842624"
  "round_mag (56668397794435737516451 / 18889465931478580854784) = 6755399441055743 / 2251799813685248"
  using round_mag_at [of "- 76" "7 / 62500000" 8462480737302404]
    round_mag_at [of "- 74" "6346860552976803 / 18889465931478580854784" 6346860552976803]
    round_mag_at [of "- 51" "56668391447575189587549 / 18889465931478580854784" 6755398684451007]
    round_mag_at [of "- 53" "2251799561483669 / 2251799813685248" 9007198245934676]
    round_mag_at [of "- 23" "4398046018522791015625 / 4398046511104" 8388607060475904]
    round_mag_at [of "- 53" "62499993 / 62500000" 9007198245934675]
    round_mag_at [of "- 51" "27021594737804025 / 9007199254740992" 6755398684451006]
    round_mag_at [of "- 51" "56668397794435737516451 / 18889465931478580854784" 6755399441055743]
  by (simp_all add: pow2_def)

text \<open>
  A bucket of three tokens, three a second, that has been emptied.  After 112 nanoseconds it says that
  three tokens are there in 999999888 nanoseconds, when exactly one second has passed; but then the sum
  of the two rounded refills is less than three.
\<close>

lemma wait_too_short:
  defines "b \<equiv> snd (try_acquire 0 (Fin False 3) (new_bucket (Fin False 3) (Fin False 3) 0))"
  shows "fst (time_until_available 112 (Fin False 3) b) = Some 999999888"
    and "\<not> fst (try_acquire (112 + 999999888) (Fin False 3) (snd (time_until_available 112 (Fin False 3) b)))"
proof -
  have b: "b = \<lparr>tb_rate = Fin False 3, tb_burst = Fin False 3, tb_tokens = Fin False 0, tb_last = 0\<rparr>"
    by (simp add: b_def try_acquire_def refill_def new_bucket_def signed_val_def d_sub_def)
  have nano: "double_of_int (10 ^ 9) = Fin False (10 ^ 9)" using double_of_int_nat [of "10 ^ 9"] by simp
  have s: "seconds_of 112 = Fin False (2115620184325601 / 18889465931478580854784)"
      "seconds_of 999999888 = Fin False (9007198245934675 / 9007199254740992)"
    unfolding seconds_of_def nano using double_of_int_nat [of 112] double_of_int_nat [of 999999888]
    by (simp_all add: mk_double_upto roundings)
  have r: "refill 112 b = b\<lparr>tb_tokens := Fin False (6346860552976803 / 18889465931478580854784), tb_last := 112\<rparr>"
    unfolding refill_def b
    by (simp add: roundings s mk_double_upto signed_val_def double_of_rat_def d_min_def)
  show "fst (time_until_available 112 (Fin False 3) b) = Some 999999888"
    unfolding time_until_available_def Let_def r nano unfolding b
    using double_of_int_nat [of 0]
    by (simp add: roundings d_le_amount signed_val_def d_sub_def double_of_rat_def mk_double_upto)
  show "\<not> fst (try_acquire (112 + 999999888) (Fin False 3) (snd (time_until_available 112 (Fin False 3) b)))"
    unfolding time_until_available_def Let_def r unfolding b
    by (simp add: roundings try_acquire_def refill_def s mk_double_upto signed_val_def double_of_rat_def d_min_def)
qed

section \<open>Properties\<close>

text \<open>
  Whatever the rate, the burst and the operations (of finite amounts that are not negative), and
  however the clock moves, also backwards: the bucket holds between no and \<open>burst\<close> tokens, no operation
  ever makes that an infinity or a NaN, and looking at it at any time never takes tokens away.
\<close>

theorem token_bucket_bounds:
  assumes "amount rate" "amount burst" "list_all sensible es" "list_all (\<lambda>e. clock_time (time_of e)) es"
    and "clock_time start" "clock_time now"
  shows "let b = run_bucket es (new_bucket rate burst start)
    in d_le (double_of_int 0) (tb_tokens b) \<and> d_le (tb_tokens b) (fst (available now b)) \<and>
       d_le (fst (available now b)) burst \<and> d_isfinite (fst (available now b))"
proof -
  let ?b = "run_bucket es (new_bucket rate burst start)"
  have run: "bucket_ok ?b" "clock_time (tb_last ?b)" "tb_burst ?b = burst"
    using run_bucket_ok [OF assms(3,4) new_bucket_ok [OF assms(1,2)]] assms(5) by (simp_all add: new_bucket_def)
  have "d_le (double_of_int 0) (tb_tokens ?b)"
    using run(1) double_of_int_nat [of 0] by (auto simp: bucket_ok_def d_le_amount elim!: amountE)
  moreover have "d_isfinite d" if "amount d" for d using that by (cases d) simp_all
  ultimately show ?thesis
    using refill_ok [OF run(1) assms(6) run(2)] run(3) by (simp add: available_def Let_def bucket_ok_def)
qed

theorem token_bucket_bounds_witness:
  "d_le (fst (available 5 (run_bucket [Acquire 7 (Fin False (of_nat 1))]
     (new_bucket (Fin False (of_nat 2)) (Fin False (of_nat 3)) 0)))) (Fin False (of_nat 3))"
  using token_bucket_bounds [of "Fin False (of_nat 2)" "Fin False (of_nat 3)" "[Acquire 7 (Fin False (of_nat 1))]" 0 5]
    amount_nat [of 1] amount_nat [of 2] amount_nat [of 3]
  by (simp add: clock_time_def Let_def)



text \<open>
  The limit is exact.  A bucket of a whole number of tokens grants, as long as its clock does not
  move forward, exactly that many requests for one token (or all of them, if there are fewer).
\<close>

theorem token_bucket_limit:
  assumes "k < 2 ^ 53" "list_all (\<lambda>(t, n). t \<le> start \<and> n = double_of_int 1) rs"
  shows "grants rs (new_bucket rate (double_of_int (int k)) start) = min k (length rs)"
  by (rule grants_whole) (use assms in \<open>simp_all add: new_bucket_def\<close>)

theorem token_bucket_limit_witness:
  "grants (replicate 3 (0, double_of_int 1)) (new_bucket (Fin False 1) (double_of_int (int 2)) 0) = 2"
  using token_bucket_limit [of 2 0 "replicate 3 (0, double_of_int 1)" "Fin False 1"]
  by (simp add: numeral_3_eq_3)

end
