(* ===== verification/Semver.thy ===== *)
theory Semver
  imports Strtod "HOL-Library.Char_ord" "HOL-Library.List_Lexorder" "HOL-Library.Product_Lexorder"
begin

text \<open>
  \<^verbatim>\<open>tasks/semver-compare/reference.hpp\<close>: validation of semantic versions and their precedence.
  The code compares numbers as digit strings of any length; the specification compares natural
  numbers, in the order of a type class.
\<close>

section \<open>Parsing\<close>

definition ident_char :: "char \<Rightarrow> bool" where
  "ident_char c \<longleftrightarrow> is_digit c \<or> is_alpha c \<or> c = CHR ''-''"

definition all_digits :: "string \<Rightarrow> bool" where
  "all_digits s \<longleftrightarrow> s \<noteq> [] \<and> list_all is_digit s"

definition valid_number :: "string \<Rightarrow> bool" where
  "valid_number s \<longleftrightarrow> all_digits s \<and> (length s = 1 \<or> hd s \<noteq> CHR ''0'')"

definition valid_ident :: "string \<Rightarrow> bool" where
  "valid_ident s \<longleftrightarrow> s \<noteq> [] \<and> list_all ident_char s"

record version =
  core :: "string list"
  pre :: "string list"

text \<open>A text cut at the first occurrence of a separator: what is before it and, if there is one, after it.\<close>

definition cut_first :: "char \<Rightarrow> string \<Rightarrow> string \<times> string option" where
  "cut_first c s =
     (case find_char c s of None \<Rightarrow> (s, None) | Some i \<Rightarrow> (take i s, Some (drop (i + 1) s)))"

definition valid_pre_ident :: "string \<Rightarrow> bool" where
  "valid_pre_ident s \<longleftrightarrow> valid_ident s \<and> (all_digits s \<longrightarrow> valid_number s)"

definition parse_version :: "string \<Rightarrow> version option" where
  "parse_version s =
     (let (v, build) = cut_first (CHR ''+'') s in
      if (case build of Some b \<Rightarrow> \<not> list_all valid_ident (split_on (CHR ''.'') b) | None \<Rightarrow> False) then None
      else
        (let (v, tail) = cut_first (CHR ''-'') v;
             ids = (case tail of Some t \<Rightarrow> split_on (CHR ''.'') t | None \<Rightarrow> [])
         in if \<not> list_all valid_pre_ident ids then None
            else
              (let parts = split_on (CHR ''.'') v in
               if length parts \<noteq> 3 \<or> \<not> list_all valid_number parts then None
               else Some \<lparr>core = parts, pre = ids\<rparr>)))"

section \<open>Comparing\<close>

text \<open>\<^verbatim>\<open>a.compare(b)\<close>, reduced to its sign.\<close>

fun text_compare :: "string \<Rightarrow> string \<Rightarrow> int" where
  "text_compare [] [] = 0"
| "text_compare [] (y # ys) = - 1"
| "text_compare (x # xs) [] = 1"
| "text_compare (x # xs) (y # ys) =
     (if byte x < byte y then - 1 else if byte y < byte x then 1 else text_compare xs ys)"

definition compare_numbers :: "string \<Rightarrow> string \<Rightarrow> int" where
  "compare_numbers a b =
     (if length a \<noteq> length b then (if length a < length b then - 1 else 1) else text_compare a b)"

fun compare_cores :: "string list \<Rightarrow> string list \<Rightarrow> int" where
  "compare_cores (x # xs) (y # ys) =
     (let c = compare_numbers x y in if c \<noteq> 0 then c else compare_cores xs ys)"
| "compare_cores _ _ = 0"

definition compare_idents :: "string \<Rightarrow> string \<Rightarrow> int" where
  "compare_idents x y =
     (if all_digits x \<and> all_digits y then compare_numbers x y
      else if all_digits x then - 1
      else if all_digits y then 1
      else text_compare x y)"

text \<open>The loop over the common length, and what decides when it finds no difference.\<close>

fun compare_pre :: "string list \<Rightarrow> string list \<Rightarrow> int" where
  "compare_pre (x # xs) (y # ys) =
     (let c = compare_idents x y in if c \<noteq> 0 then c else compare_pre xs ys)"
| "compare_pre [] [] = 0"
| "compare_pre [] (y # ys) = - 1"
| "compare_pre (x # xs) [] = 1"

definition compare_versions :: "version \<Rightarrow> version \<Rightarrow> int" where
  "compare_versions v w =
     (let c = compare_cores (core v) (core w) in
      if c \<noteq> 0 then c
      else if pre v = [] \<or> pre w = [] then
        (if pre v = [] \<and> pre w = [] then 0 else if pre v = [] then 1 else - 1)
      else compare_pre (pre v) (pre w))"

definition compare_semver :: "string \<Rightarrow> string \<Rightarrow> int option" where
  "compare_semver a b =
     (case (parse_version a, parse_version b) of
        (Some v, Some w) \<Rightarrow> Some (compare_versions v w)
      | _ \<Rightarrow> None)"

section \<open>Precedence\<close>

text \<open>Identifiers of a pre-release: numbers come before words.\<close>

datatype pre_identifier = Number nat | Word string

instantiation pre_identifier :: linorder
begin

fun less_eq_pre_identifier :: "pre_identifier \<Rightarrow> pre_identifier \<Rightarrow> bool" where
  "less_eq_pre_identifier (Number m) (Number n) \<longleftrightarrow> m \<le> n"
| "less_eq_pre_identifier (Number m) (Word s) \<longleftrightarrow> True"
| "less_eq_pre_identifier (Word s) (Number n) \<longleftrightarrow> False"
| "less_eq_pre_identifier (Word s) (Word t) \<longleftrightarrow> s \<le> t"

definition less_pre_identifier :: "pre_identifier \<Rightarrow> pre_identifier \<Rightarrow> bool" where
  "less_pre_identifier x y \<longleftrightarrow> x \<le> y \<and> \<not> y \<le> x"

instance
proof
  fix x y z :: pre_identifier
  show "x < y \<longleftrightarrow> x \<le> y \<and> \<not> y \<le> x" by (simp add: less_pre_identifier_def)
  show "x \<le> x" by (cases x) simp_all
  show "x \<le> y \<Longrightarrow> y \<le> z \<Longrightarrow> x \<le> z" by (cases x; cases y; cases z) auto
  show "x \<le> y \<Longrightarrow> y \<le> x \<Longrightarrow> x = y" by (cases x; cases y) auto
  show "x \<le> y \<or> y \<le> x" by (cases x; cases y) auto
qed

end

definition identifier_of :: "string \<Rightarrow> pre_identifier" where
  "identifier_of s = (if all_digits s then Number (number_of s) else Word s)"

text \<open>
  The precedence of a version: its three numbers, then whether it is a release, then the identifiers
  of its pre-release; each compared in the lexicographic order, in which a shorter list is smaller.
\<close>

definition precedence :: "version \<Rightarrow> nat list \<times> bool \<times> pre_identifier list" where
  "precedence v = (map number_of (core v), pre v = [], map identifier_of (pre v))"

definition ordering :: "'a::linorder \<Rightarrow> 'a \<Rightarrow> int" where
  "ordering x y = (if x < y then - 1 else if y < x then 1 else 0)"

section \<open>Lemmas\<close>

lemma ordering_simps: "x < y \<Longrightarrow> ordering x y = - 1" "y < x \<Longrightarrow> ordering x y = 1" "ordering x x = 0"
  by (auto simp: ordering_def)

lemma ordering_zero: "ordering x y = 0 \<longleftrightarrow> x = y"
  by (auto simp: ordering_def)

lemma ordering_Cons: "ordering (x # xs) (y # ys) = (if ordering x y \<noteq> 0 then ordering x y else ordering xs ys)"
  by (auto simp: ordering_def)

lemma ordering_Pair: "ordering (a, b) (c, d) = (if ordering a c \<noteq> 0 then ordering a c else ordering b d)"
  by (auto simp: ordering_def)

lemma byte_less: "byte x < byte y \<longleftrightarrow> x < y"
  by (simp add: byte_def less_char_def)

lemma text_compare_ordering: "text_compare x y = ordering x y"
  by (induction x y rule: text_compare.induct) (auto simp: ordering_def byte_less)

lemma number_of_lower:
  assumes "valid_number s" "2 \<le> length s"
  shows "10 ^ (length s - 1) \<le> number_of s"
proof -
  obtain c t where s: "s = c # t" using assms(2) by (cases s) auto
  with assms have "is_digit c" "c \<noteq> CHR ''0''" by (auto simp: valid_number_def all_digits_def)
  moreover from this(2) have "byte c \<noteq> byte (CHR ''0'')" unfolding byte_def of_char_eq_iff .
  ultimately have "0 < digit_val c" by (simp add: is_digit_def digit_val_def byte_def)
  then have "1 * 10 ^ length t \<le> digit_val c * 10 ^ length t" by (intro mult_right_mono) simp_all
  moreover have "number_of s = digit_val c * 10 ^ length t + digits_value 10 digit_val t"
    by (simp add: s number_of_def digits_value_Cons)
  ultimately have "10 ^ length t \<le> number_of s" by linarith
  then show ?thesis by (simp add: s)
qed

lemma equal_length_numbers:
  assumes "length a = length b" "list_all is_digit a" "list_all is_digit b"
  shows "text_compare a b = ordering (number_of a) (number_of b)"
  using assms
proof (induction a b rule: list_induct2)
  case Nil
  then show ?case by (simp add: ordering_def)
next
  case (Cons x xs y ys)
  let ?w = "10 ^ length xs"
  have bounds: "number_of xs < ?w" "number_of ys < ?w"
    using number_of_upper [of xs] number_of_upper [of ys] Cons by simp_all
  have num: "number_of (x # xs) = digit_val x * ?w + number_of xs" "number_of (y # ys) = digit_val y * ?w + number_of ys"
    using Cons.hyps by (simp_all add: number_of_def digits_value_Cons)
  have less: "digit_val a < digit_val b \<Longrightarrow> digit_val a * ?w + m < digit_val b * ?w + n" if "m < ?w" for a b m n
  proof -
    assume "digit_val a < digit_val b"
    then have "(digit_val a + 1) * ?w \<le> digit_val b * ?w" by (intro mult_right_mono) simp_all
    with that show ?thesis by simp
  qed
  have digits: "digit_val x < digit_val y \<longleftrightarrow> byte x < byte y" "digit_val y < digit_val x \<longleftrightarrow> byte y < byte x"
    using Cons.prems by (auto simp: is_digit_def digit_val_def)
  consider "byte x < byte y" | "byte y < byte x" | "x = y" by (metis byte_less linorder_less_linear)
  then show ?case
  proof cases
    case 1
    with less [OF bounds(1), of x y] digits num show ?thesis by (simp add: ordering_simps)
  next
    case 2
    with less [OF bounds(2), of y x] digits num show ?thesis by (simp add: ordering_simps)
  next
    case 3
    with Cons num show ?thesis by (simp add: ordering_def)
  qed
qed

lemma compare_numbers_ordering:
  assumes "valid_number a" "valid_number b"
  shows "compare_numbers a b = ordering (number_of a) (number_of b)"
proof -
  have shorter: "number_of x < number_of y" if "valid_number x" "valid_number y" "length x < length y" for x y
  proof -
    have "x \<noteq> []" using that(1) by (simp add: valid_number_def all_digits_def)
    then have "2 \<le> length y" using that(3) by (cases x) simp_all
    with that(2) have "10 ^ (length y - 1) \<le> number_of y" by (rule number_of_lower)
    moreover have "number_of x < 10 ^ length x"
      using that(1) by (intro number_of_upper) (simp add: valid_number_def all_digits_def)
    moreover have "(10 :: nat) ^ length x \<le> 10 ^ (length y - 1)" using that(3) by (intro power_increasing) simp_all
    ultimately show ?thesis by linarith
  qed
  have "list_all is_digit a" "list_all is_digit b"
    using assms by (simp_all add: valid_number_def all_digits_def)
  with shorter [OF assms] shorter [OF assms(2,1)] equal_length_numbers [of a b] show ?thesis
    by (auto simp: compare_numbers_def ordering_simps)
qed

lemma compare_idents_ordering:
  assumes "valid_pre_ident x" "valid_pre_ident y"
  shows "compare_idents x y = ordering (identifier_of x) (identifier_of y)"
proof -
  have num: "all_digits x \<Longrightarrow> all_digits y \<Longrightarrow> compare_numbers x y = ordering (number_of x) (number_of y)"
    using assms compare_numbers_ordering by (simp add: valid_pre_ident_def)
  have kinds: "ordering (Number m) (Number n) = ordering m n" "ordering (Number m) (Word t) = - 1"
    "ordering (Word u) (Number n) = 1" "ordering (Word u) (Word t) = ordering u t" for m n t u
    by (auto simp: ordering_def less_pre_identifier_def)
  show ?thesis
    by (cases "all_digits x"; cases "all_digits y")
      (simp_all only: compare_idents_def identifier_of_def num kinds text_compare_ordering simp_thms if_True if_False)
qed

lemma compare_cores_ordering:
  "length xs = length ys \<Longrightarrow> list_all valid_number xs \<Longrightarrow> list_all valid_number ys \<Longrightarrow>
   compare_cores xs ys = ordering (map number_of xs) (map number_of ys)"
  by (induction xs ys rule: list_induct2)
    (simp_all add: compare_numbers_ordering ordering_Cons Let_def ordering_simps)

lemma compare_pre_ordering:
  "list_all valid_pre_ident xs \<Longrightarrow> list_all valid_pre_ident ys \<Longrightarrow>
   compare_pre xs ys = ordering (map identifier_of xs) (map identifier_of ys)"
proof (induction xs ys rule: compare_pre.induct)
  case (1 x xs y ys)
  then show ?case by (simp add: compare_idents_ordering ordering_Cons Let_def)
qed (simp_all add: ordering_def)

definition valid_version :: "version \<Rightarrow> bool" where
  "valid_version v \<longleftrightarrow> length (core v) = 3 \<and> list_all valid_number (core v) \<and> list_all valid_pre_ident (pre v)"

lemma parse_version_valid: "parse_version s = Some v \<Longrightarrow> valid_version v"
  by (auto simp: parse_version_def valid_version_def Let_def split: prod.splits if_splits)

lemma compare_versions_ordering:
  assumes "valid_version v" "valid_version w"
  shows "compare_versions v w = ordering (precedence v) (precedence w)"
proof -
  have cores: "compare_cores (core v) (core w) = ordering (map number_of (core v)) (map number_of (core w))"
    using assms by (intro compare_cores_ordering) (simp_all add: valid_version_def)
  have pres: "compare_pre (pre v) (pre w) = ordering (map identifier_of (pre v)) (map identifier_of (pre w))"
    using assms by (intro compare_pre_ordering) (simp_all add: valid_version_def)
  show ?thesis
    unfolding compare_versions_def precedence_def Let_def ordering_Pair cores pres
    by (auto simp: ordering_def)
qed

section \<open>Properties\<close>

text \<open>
  C28: the comparison of two texts is the order of the precedences of the versions they hold, numbers of
  any length being compared as numbers, and it is undefined exactly when one of them is not a version.
  As the precedences are linearly ordered, the comparison is a total preorder: swapping the arguments
  changes the sign, and it is transitive.
\<close>

theorem semver_precedence:
  "compare_semver a b =
     (case (parse_version a, parse_version b) of
        (Some v, Some w) \<Rightarrow> Some (ordering (precedence v) (precedence w))
      | _ \<Rightarrow> None) \<and>
   compare_semver b a = map_option uminus (compare_semver a b) \<and>
   (compare_semver a b = Some x \<and> compare_semver b c = Some y \<and> x \<le> 0 \<and> y \<le> 0 \<longrightarrow>
     (\<exists>z. compare_semver a c = Some z \<and> z \<le> 0))"
proof -
  have eq: "compare_semver a b =
     (case (parse_version a, parse_version b) of
        (Some v, Some w) \<Rightarrow> Some (ordering (precedence v) (precedence w))
      | _ \<Rightarrow> None)" for a b
    using compare_versions_ordering parse_version_valid
    by (auto simp: compare_semver_def split: option.split)
  show ?thesis
    unfolding eq by (auto simp: ordering_def split: option.splits if_splits)
qed

theorem semver_precedence_witness:
  "\<exists>z. compare_semver ''1.2.9'' ''2.0.0'' = Some z \<and> z \<le> 0"
proof -
  have "compare_semver ''1.2.9'' ''1.2.10'' = Some (- 1)" "compare_semver ''1.2.10'' ''2.0.0'' = Some (- 1)"
    by code_simp+
  with semver_precedence [of "''1.2.9''" "''1.2.10''" "- 1" "''2.0.0''" "- 1"] show ?thesis by simp
qed

end
