(* ===== verification/Duration.thy ===== *)
theory Duration
  imports Strtod "HOL-Library.Word"
begin

text \<open>
  \<^verbatim>\<open>tasks/parse-duration/reference.hpp\<close>: Go-style durations.  The code adds up 64-bit and 128-bit
  unsigned integers; the specification is a grammar of pieces with the number of nanoseconds that
  each of them stands for.
\<close>

section \<open>The parser\<close>

definition duration_limit :: "64 word" where
  "duration_limit = push_bit 63 1"

text \<open>The digits before the point; whether there was one, the number, and the rest.\<close>

fun read_whole :: "bool \<Rightarrow> 128 word \<Rightarrow> string \<Rightarrow> (bool \<times> 128 word \<times> string) option" where
  "read_whole any_digit whole [] = Some (any_digit, whole, [])"
| "read_whole any_digit whole (c # cs) =
     (if is_digit c then
        (let whole = whole * 10 + of_nat (digit_val c)
         in if ucast duration_limit < whole then None else read_whole True whole cs)
      else Some (any_digit, whole, c # cs))"

fun read_frac :: "bool \<Rightarrow> 64 word \<Rightarrow> 64 word \<Rightarrow> string \<Rightarrow> bool \<times> 64 word \<times> 64 word \<times> string" where
  "read_frac any_digit fraction scale [] = (any_digit, fraction, scale, [])"
| "read_frac any_digit fraction scale (c # cs) =
     (if is_digit c then
        (if scale < 1000000000000000000 then read_frac True (fraction * 10 + of_nat (digit_val c)) (scale * 10) cs
         else read_frac True fraction scale cs)
      else (any_digit, fraction, scale, c # cs))"

definition read_fraction :: "bool \<Rightarrow> string \<Rightarrow> bool \<times> 64 word \<times> 64 word \<times> string" where
  "read_fraction any_digit s =
     (if s \<noteq> [] \<and> hd s = CHR ''.'' then read_frac any_digit 0 1 (tl s) else (any_digit, 0, 1, s))"

definition unit_char :: "char \<Rightarrow> bool" where
  "unit_char c \<longleftrightarrow> c \<noteq> CHR ''.'' \<and> \<not> is_digit c"

text \<open>The two ways of writing a \<open>\<mu>\<close> are given by their UTF-8 bytes.\<close>

definition unit_of :: "string \<Rightarrow> 64 word option" where
  "unit_of name =
     (if name = ''ns'' then Some 1
      else if name = ''us'' \<or> name = [CHR 0xC2, CHR 0xB5, CHR ''s''] \<or> name = [CHR 0xCE, CHR 0xBC, CHR ''s'']
      then Some 1000
      else if name = ''ms'' then Some 1000000
      else if name = ''s'' then Some 1000000000
      else if name = ''m'' then Some 60000000000
      else if name = ''h'' then Some 3600000000000
      else None)"

text \<open>One round of the loop: the nanoseconds to add, and the rest of the text.\<close>

definition next_piece :: "string \<Rightarrow> (128 word \<times> string) option" where
  "next_piece s =
     (case read_whole False 0 s of
        None \<Rightarrow> None
      | Some (any_digit, whole, s) \<Rightarrow>
          (let (any_digit, fraction, scale, s) = read_fraction any_digit s in
           if \<not> any_digit then None
           else
             (let name = takeWhile unit_char s in
              case unit_of name of
                None \<Rightarrow> None
              | Some unit \<Rightarrow>
                  Some (whole * ucast unit + (ucast fraction * ucast unit) div ucast scale, drop (length name) s))))"

lemma read_whole_rest: "read_whole a w s = Some (b, v, r) \<Longrightarrow> \<exists>ds. s = ds @ r \<and> (b \<longrightarrow> a \<or> ds \<noteq> [])"
proof (induction a w s rule: read_whole.induct)
  case (2 a w c cs)
  then show ?case
    by (cases "is_digit c") (auto simp: Let_def split: if_splits intro: exI [of _ "c # _"])
qed simp

lemma read_frac_rest: "read_frac a f sc s = (b, f', sc', r) \<Longrightarrow> \<exists>ds. s = ds @ r \<and> (b \<longrightarrow> a \<or> ds \<noteq> [])"
proof (induction a f sc s rule: read_frac.induct)
  case (2 a f sc c cs)
  show ?case
  proof (cases "is_digit c")
    case True
    with 2 obtain ds where "cs = ds @ r" by (cases "sc < 1000000000000000000") auto
    then show ?thesis by (intro exI [of _ "c # ds"]) simp
  qed (use 2 in auto)
qed simp

lemma next_piece_shorter:
  assumes "next_piece s = Some (n, r)"
  shows "length r < length s"
proof -
  obtain a w s1 b f sc s2 where "read_whole False 0 s = Some (a, w, s1)"
    and fraction: "read_fraction a s1 = (b, f, sc, s2)" "b" and r: "r = drop (length (takeWhile unit_char s2)) s2"
    using assms by (auto simp: next_piece_def Let_def split: option.splits prod.splits if_splits)
  then obtain ds where ds: "s = ds @ s1" "a \<longrightarrow> ds \<noteq> []" using read_whole_rest by blast
  have "length s2 \<le> length s1 \<and> (a \<or> length s2 < length s1)"
  proof (cases "s1 \<noteq> [] \<and> hd s1 = CHR ''.''")
    case True
    with fraction have "read_frac a 0 1 (tl s1) = (b, f, sc, s2)" by (simp add: read_fraction_def)
    then obtain es where "tl s1 = es @ s2" using read_frac_rest by blast
    then have "length s2 \<le> length (tl s1)" by simp
    with True show ?thesis by (cases s1) auto
  next
    case False
    with fraction show ?thesis by (auto simp: read_fraction_def split: if_splits)
  qed
  with ds have "length s2 < length s" by (cases ds) auto
  with r show ?thesis by simp
qed

function duration_loop :: "128 word \<Rightarrow> string \<Rightarrow> 128 word option" where
  "duration_loop acc s =
     (if s = [] then Some acc
      else
        (case next_piece s of
           None \<Rightarrow> None
         | Some (n, rest) \<Rightarrow>
             (let acc = acc + n in
              if ucast duration_limit < acc then None else duration_loop acc rest)))"
  by pat_completeness auto
termination
  by (relation "measure (\<lambda>(acc, s). length s)") (auto dest: next_piece_shorter)

declare duration_loop.simps [simp del]

definition parse_unsigned :: "bool \<Rightarrow> string \<Rightarrow> int option" where
  "parse_unsigned negative s =
     (if s = ''0'' then Some 0
      else if s = [] then None
      else
        (case duration_loop 0 s of
           None \<Rightarrow> None
         | Some acc \<Rightarrow>
             if \<not> negative \<and> acc = ucast duration_limit then None
             else if negative then
               (if acc = ucast duration_limit then Some (- (2 ^ 63)) else Some (sint (- (ucast acc :: 64 word))))
             else Some (sint (ucast acc :: 64 word))))"

definition parse_duration :: "string \<Rightarrow> int option" where
  "parse_duration s =
     (let signed = s \<noteq> [] \<and> (hd s = CHR ''+'' \<or> hd s = CHR ''-'')
      in parse_unsigned (signed \<and> hd s = CHR ''-'') (if signed then tl s else s))"

section \<open>Grammar\<close>

text \<open>A number, with the digits after the point if there is one, and its unit.\<close>

datatype piece = Piece (before_point: string) (after_point: "string option") (unit_name: string)

definition fraction_digits :: "piece \<Rightarrow> string" where
  "fraction_digits p = (case after_point p of Some fs \<Rightarrow> fs | None \<Rightarrow> [])"

definition show_piece :: "piece \<Rightarrow> string" where
  "show_piece p =
     before_point p @ (case after_point p of Some fs \<Rightarrow> CHR ''.'' # fs | None \<Rightarrow> []) @ unit_name p"

definition valid_piece :: "piece \<Rightarrow> bool" where
  "valid_piece p \<longleftrightarrow>
     list_all is_digit (before_point p) \<and> list_all is_digit (fraction_digits p) \<and>
     (before_point p \<noteq> [] \<or> fraction_digits p \<noteq> []) \<and> unit_of (unit_name p) \<noteq> None"

definition unit_ns :: "piece \<Rightarrow> nat" where
  "unit_ns p = unat (the (unit_of (unit_name p)))"

text \<open>Nanoseconds of a piece: only eighteen digits after the point count.\<close>

definition piece_ns :: "piece \<Rightarrow> nat" where
  "piece_ns p =
     number_of (before_point p) * unit_ns p +
     (let fs = take 18 (fraction_digits p) in number_of fs * unit_ns p div 10 ^ length fs)"

text \<open>The piece at the front of a text, and what follows it.\<close>

definition split_piece :: "string \<Rightarrow> (piece \<times> string) option" where
  "split_piece s =
     (let ds = takeWhile is_digit s;
          r = dropWhile is_digit s;
          point = (r \<noteq> [] \<and> hd r = CHR ''.'');
          fs = (if point then Some (takeWhile is_digit (tl r)) else None);
          r = (if point then dropWhile is_digit (tl r) else r);
          name = takeWhile unit_char r;
          p = Piece ds fs name
      in if valid_piece p then Some (p, drop (length name) r) else None)"

section \<open>Lemmas\<close>

lemma limit_unat: "unat duration_limit = 2 ^ 63" "unat (ucast duration_limit :: 128 word) = 2 ^ 63"
  by (simp_all add: duration_limit_def)

lemma below_limit: "ucast duration_limit < (w :: 128 word) \<longleftrightarrow> 2 ^ 63 < unat w"
  by (simp add: word_less_nat_alt limit_unat)

lemma unat_small: "n < 2 ^ LENGTH('a) \<Longrightarrow> unat (of_nat n :: 'a :: len word) = n"
  by (simp add: unat_of_nat)

lemma word_of_unat: "of_nat (unat w) = (w :: 'a :: len word)"
  by (simp add: of_nat_unat)

lemma push_digit:
  assumes "10 * unat w + d < 2 ^ LENGTH('a)"
  shows "unat (w * 10 + of_nat d :: 'a :: len word) = 10 * unat w + d"
proof -
  have "w * 10 + of_nat d = (of_nat (10 * unat w + d) :: 'a word)" by (simp add: mult.commute)
  with assms show ?thesis by (simp only: unat_small)
qed

lemma number_of_Cons: "number_of (c # ds) = digit_val c * 10 ^ length ds + number_of ds"
  by (simp add: number_of_def digits_value_Cons)

lemma number_of_Nil [simp]: "number_of [] = 0"
  by (simp add: number_of_def digits_value_def)

lemma read_whole_eq:
  "unat w \<le> 2 ^ 63 \<Longrightarrow>
   read_whole a w s =
     (let ds = takeWhile is_digit s; v = unat w * 10 ^ length ds + number_of ds
      in if v \<le> 2 ^ 63 then Some (a \<or> ds \<noteq> [], of_nat v, dropWhile is_digit s) else None)"
proof (induction a w s rule: read_whole.induct)
  case (2 a w c cs)
  show ?case
  proof (cases "is_digit c")
    case True
    let ?w = "w * 10 + of_nat (digit_val c)" and ?ds = "takeWhile is_digit cs"
    have w: "unat ?w = 10 * unat w + digit_val c"
      using 2(2) digit_val_le [OF True] by (intro push_digit) simp
    have v: "unat w * 10 ^ length (c # ?ds) + number_of (c # ?ds) = unat ?w * 10 ^ length ?ds + number_of ?ds"
      unfolding w by (simp add: number_of_Cons algebra_simps)
    show ?thesis
    proof (cases "2 ^ 63 < unat ?w")
      case large: True
      have "unat ?w * 1 \<le> unat ?w * 10 ^ length ?ds" by (intro mult_left_mono) simp_all
      with large v have "\<not> unat w * 10 ^ length (c # ?ds) + number_of (c # ?ds) \<le> 2 ^ 63" by linarith
      with True large show ?thesis by (simp add: below_limit Let_def)
    next
      case False
      with 2(1) [OF True refl] True v show ?thesis by (simp add: below_limit Let_def)
    qed
  qed (use 2 in simp)
qed simp

lemma read_frac_eq:
  "k \<le> 18 \<Longrightarrow> unat f < 10 ^ k \<Longrightarrow> unat sc = 10 ^ k \<Longrightarrow>
   read_frac a f sc s =
     (let ds = takeWhile is_digit s; es = take (18 - k) ds
      in (a \<or> ds \<noteq> [], of_nat (unat f * 10 ^ length es + number_of es), of_nat (10 ^ (k + length es)),
          dropWhile is_digit s))"
proof (induction a f sc s arbitrary: k rule: read_frac.induct)
  case (1 a f sc)
  then have "sc = of_nat (10 ^ k)" by (metis word_of_unat)
  then show ?case by simp
next
  case (2 a f sc c cs)
  have sc: "sc = of_nat (10 ^ k)" using 2(5) by (metis word_of_unat)
  have less: "sc < 1000000000000000000 \<longleftrightarrow> k < 18"
    using 2(5) power_strict_increasing_iff [of "10 :: nat" k 18] by (simp add: word_less_nat_alt)
  show ?case
  proof (cases "is_digit c")
    case digit: True
    show ?thesis
    proof (cases "k < 18")
      case True
      have d: "digit_val c \<le> 9" using digit by (rule digit_val_le)
      have f: "10 * unat f + digit_val c < 10 ^ Suc k" using 2(4) d by simp
      have "(10 :: nat) ^ Suc k \<le> 10 ^ 18" using True by (intro power_increasing) simp_all
      with f have small: "10 * unat f + digit_val c < 2 ^ LENGTH(64)" "10 * unat sc + 0 < 2 ^ LENGTH(64)"
        using 2(5) by simp_all
      have uf: "unat (f * 10 + of_nat (digit_val c)) = 10 * unat f + digit_val c"
        using small(1) by (rule push_digit)
      have "unat (sc * 10) = 10 ^ Suc k" using push_digit [OF small(2)] 2(5) by simp
      with 2(1) [OF digit _ _ _ this] uf f True less
      have "read_frac a f sc (c # cs) =
        (let ds = takeWhile is_digit cs; es = take (18 - Suc k) ds
         in (True, of_nat ((10 * unat f + digit_val c) * 10 ^ length es + number_of es),
             of_nat (10 ^ (Suc k + length es)), dropWhile is_digit cs))"
        using digit by (simp add: Let_def)
      moreover have "18 - k = Suc (18 - Suc k)" using True by simp
      ultimately show ?thesis using digit by (simp add: Let_def number_of_Cons algebra_simps)
    next
      case False
      with 2(2) [OF digit _ 2(3-5)] 2(3) less digit sc show ?thesis by (simp add: Let_def)
    qed
  qed (use sc in simp)
qed

lemma read_fraction_eq:
  "read_fraction a s =
     (let point = (s \<noteq> [] \<and> hd s = CHR ''.'');
          ds = (if point then takeWhile is_digit (tl s) else []);
          es = take 18 ds
      in (a \<or> ds \<noteq> [], of_nat (number_of es), of_nat (10 ^ length es),
          if point then dropWhile is_digit (tl s) else s))"
  using read_frac_eq [of 0 0 1 a "tl s"] by (simp add: read_fraction_def Let_def)

lemma unit_of_bounds: "unit_of name = Some u \<Longrightarrow> 1 \<le> unat u \<and> unat u \<le> 3600000000000"
  by (auto simp: unit_of_def split: if_splits)

lemma fraction_less: "number_of (take 18 ds) < 10 ^ 18" if "list_all is_digit ds"
proof -
  have "number_of (take 18 ds) < 10 ^ length (take 18 ds)"
    using that by (intro number_of_upper) (auto simp: list_all_iff dest: in_set_takeD)
  also have "\<dots> \<le> (10 :: nat) ^ 18" by (intro power_increasing) simp_all
  finally show ?thesis .
qed

lemma ucast_nat: "ucast (x :: 64 word) = (of_nat (unat x) :: 128 word)"
  by (simp add: of_nat_unat)

lemma piece_sum:
  fixes u :: "64 word"
  assumes "W \<le> 2 ^ 63" "F < 10 ^ 18" "m \<le> 18" "unat u \<le> 3600000000000"
  shows "of_nat W * ucast u + (ucast (of_nat F :: 64 word) * ucast u) div ucast (of_nat (10 ^ m) :: 64 word) =
    (of_nat (W * unat u + F * unat u div 10 ^ m) :: 128 word)"
proof -
  have "(10 :: nat) ^ m \<le> 10 ^ 18" using assms(3) by (intro power_increasing) simp_all
  then have small: "unat (of_nat F :: 64 word) = F" "unat (of_nat (10 ^ m) :: 64 word) = 10 ^ m"
    using assms(2) by (intro unat_small; simp)+
  have "F * unat u \<le> 10 ^ 18 * 3600000000000" using assms by (intro mult_mono) simp_all
  then have "F * unat u < 2 ^ LENGTH(128)" "(10 :: nat) ^ m < 2 ^ LENGTH(128)"
    using \<open>(10 :: nat) ^ m \<le> 10 ^ 18\<close> by simp_all
  then have q: "unat (of_nat (F * unat u) :: 128 word) = F * unat u" "unat (of_nat (10 ^ m) :: 128 word) = 10 ^ m"
    by (simp_all only: unat_small)
  have "(ucast (of_nat F :: 64 word) * ucast u) div ucast (of_nat (10 ^ m) :: 64 word) =
    (of_nat (F * unat u) div of_nat (10 ^ m) :: 128 word)"
    by (simp only: ucast_nat small of_nat_mult)
  also have "\<dots> = of_nat (F * unat u div 10 ^ m)" by (simp only: word_arith_nat_div q)
  finally have part: "(ucast (of_nat F :: 64 word) * ucast u) div ucast (of_nat (10 ^ m) :: 64 word) =
    (of_nat (F * unat u div 10 ^ m) :: 128 word)" .
  show ?thesis unfolding part by (simp only: ucast_nat of_nat_add of_nat_mult)
qed

lemma digits_takeWhile: "list_all is_digit (takeWhile is_digit s)"
  by (auto simp: list_all_iff dest: set_takeWhileD)

lemma next_piece_eq:
  "next_piece s =
     (case split_piece s of
        None \<Rightarrow> None
      | Some (p, r) \<Rightarrow> if number_of (before_point p) \<le> 2 ^ 63 then Some (of_nat (piece_ns p), r) else None)"
proof -
  let ?ds = "takeWhile is_digit s" and ?r = "dropWhile is_digit s"
  let ?point = "?r \<noteq> [] \<and> hd ?r = CHR ''.''"
  let ?fs = "if ?point then takeWhile is_digit (tl ?r) else []"
  let ?q = "if ?point then dropWhile is_digit (tl ?r) else ?r"
  let ?name = "takeWhile unit_char ?q"
  let ?p = "Piece ?ds (if ?point then Some ?fs else None) ?name"
  have fs: "fraction_digits ?p = ?fs" by (simp add: fraction_digits_def)
  have digits: "list_all is_digit ?ds" "list_all is_digit ?fs" by (simp_all add: digits_takeWhile)
  have split: "split_piece s = (if valid_piece ?p then Some (?p, drop (length ?name) ?q) else None)"
    by (simp add: split_piece_def Let_def)
  have whole: "read_whole False 0 s =
    (if number_of ?ds \<le> 2 ^ 63 then Some (?ds \<noteq> [], of_nat (number_of ?ds), ?r) else None)"
    by (simp add: read_whole_eq Let_def)
  show ?thesis
  proof (cases "number_of ?ds \<le> 2 ^ 63 \<and> (?ds \<noteq> [] \<or> ?fs \<noteq> [])")
    case False
    then show ?thesis
      unfolding split next_piece_def whole valid_piece_def fs by (simp add: read_fraction_eq Let_def)
  next
    case True
    show ?thesis
    proof (cases "unit_of ?name")
      case None
      with True show ?thesis
        unfolding split next_piece_def whole valid_piece_def fs by (simp add: read_fraction_eq Let_def)
    next
      case (Some u)
      have "piece_ns ?p = number_of ?ds * unat u + number_of (take 18 ?fs) * unat u div 10 ^ length (take 18 ?fs)"
        using Some by (simp only: piece_ns_def fs unit_ns_def Let_def piece.sel option.sel)
      moreover note piece_sum [of "number_of ?ds" "number_of (take 18 ?fs)" "length (take 18 ?fs)" u]
      ultimately show ?thesis
        using True Some digits fraction_less [OF digits(2)] unit_of_bounds [OF Some]
        unfolding split next_piece_def whole valid_piece_def fs read_fraction_eq
        by (simp add: Let_def)
    qed
  qed
qed

lemma unit_chars: "unit_of name = Some u \<Longrightarrow> name \<noteq> [] \<and> list_all unit_char name"
  by (auto simp: unit_of_def unit_char_def is_digit_def byte_def split: if_splits)

lemma split_piece_SomeD:
  assumes "split_piece s = Some (p, r)"
  shows "s = show_piece p @ r \<and> valid_piece p"
proof -
  let ?r = "dropWhile is_digit s"
  have s: "s = takeWhile is_digit s @ ?r" by simp
  have point: "?r = CHR ''.'' # takeWhile is_digit (tl ?r) @ dropWhile is_digit (tl ?r)"
    if "?r \<noteq> []" "hd ?r = CHR ''.''"
    using that by (cases ?r) simp_all
  have name: "takeWhile unit_char q @ drop (length (takeWhile unit_char q)) q = q" for q
    by (metis dropWhile_eq_drop takeWhile_dropWhile_id)
  show ?thesis
  proof (cases "?r \<noteq> [] \<and> hd ?r = CHR ''.''")
    case True
    let ?q = "dropWhile is_digit (tl ?r)"
    have p: "p = Piece (takeWhile is_digit s) (Some (takeWhile is_digit (tl ?r))) (takeWhile unit_char ?q)"
      "r = drop (length (takeWhile unit_char ?q)) ?q" "valid_piece p"
      using assms True by (simp_all add: split_piece_def Let_def split: if_splits)
    have "show_piece p @ r = takeWhile is_digit s @ (CHR ''.'' # takeWhile is_digit (tl ?r) @ ?q)"
      by (simp add: p(1,2) show_piece_def name)
    also have "\<dots> = takeWhile is_digit s @ ?r" unfolding point [OF conjunct1 [OF True] conjunct2 [OF True], symmetric] by (rule refl)
    also have "\<dots> = s" by simp
    finally show ?thesis using p(3) by simp
  next
    case False
    with assms name [of ?r] s show ?thesis
      by (auto simp: split_piece_def Let_def show_piece_def split: if_splits)
  qed
qed

lemma takeWhile_end: "list_all P xs \<Longrightarrow> ys = [] \<or> \<not> P (hd ys) \<Longrightarrow> takeWhile P (xs @ ys) = xs \<and> dropWhile P (xs @ ys) = ys"
  by (induction xs) (auto simp: takeWhile_eq_Nil_iff dropWhile_eq_self_iff)

lemma unit_front:
  assumes "unit_of name = Some u"
  shows "hd (name @ r) \<noteq> CHR ''.'' \<and> \<not> is_digit (hd (name @ r))"
  using unit_chars [OF assms] by (cases name) (auto simp: unit_char_def)

lemma not_digit_point: "\<not> is_digit (CHR ''.'')"
  by (simp add: is_digit_def byte_def)

lemma split_piece_show:
  assumes "valid_piece p" "r = [] \<or> \<not> unit_char (hd r)"
  shows "split_piece (show_piece p @ r) = Some (p, r)"
proof -
  obtain ds fo name where p: "p = Piece ds fo name" by (cases p)
  with assms(1) obtain u where u: "unit_of name = Some u" by (auto simp: valid_piece_def)
  have ds: "list_all is_digit ds" using assms(1) p by (simp add: valid_piece_def)
  have name: "takeWhile unit_char (name @ r) = name" "drop (length name) (name @ r) = r"
    using takeWhile_end [of unit_char name r] unit_chars [OF u] assms(2) by simp_all
  show ?thesis
  proof (cases fo)
    case None
    with takeWhile_end [OF ds, of "name @ r"] unit_front [OF u, of r] name p assms(1) show ?thesis
      by (simp add: split_piece_def show_piece_def Let_def)
  next
    case (Some fs)
    have fs: "list_all is_digit fs" using assms(1) p Some by (simp add: valid_piece_def fraction_digits_def)
    with Some takeWhile_end [OF ds, of "CHR ''.'' # fs @ name @ r"] takeWhile_end [OF fs, of "name @ r"]
      unit_front [OF u, of r] name p assms(1) not_digit_point show ?thesis
      by (simp add: split_piece_def show_piece_def Let_def)
  qed
qed

lemma show_piece_front:
  assumes "valid_piece p"
  shows "show_piece p \<noteq> [] \<and> \<not> unit_char (hd (show_piece p @ r))"
proof (cases p)
  case (Piece ds fo name)
  with assms show ?thesis
    by (cases ds; cases fo) (auto simp: valid_piece_def show_piece_def fraction_digits_def unit_char_def)
qed

lemma texts_front: "list_all valid_piece ps \<Longrightarrow> ps \<noteq> [] \<Longrightarrow> \<not> unit_char (hd (concat (map show_piece ps)))"
  using show_piece_front [where r = "[]"] by (cases ps) auto

lemma piece_ns_bounds:
  assumes "valid_piece p"
  shows "number_of (before_point p) \<le> piece_ns p"
    and "number_of (before_point p) \<le> 2 ^ 63 \<Longrightarrow> piece_ns p < 2 ^ 127"
proof -
  obtain u where u: "unit_of (unit_name p) = Some u" using assms by (auto simp: valid_piece_def)
  then have unit: "unit_ns p = unat u" "1 \<le> unit_ns p" "unit_ns p \<le> 3600000000000"
    using unit_of_bounds by (auto simp: unit_ns_def)
  let ?w = "number_of (before_point p)" and ?f = "number_of (take 18 (fraction_digits p))"
  have "?w * 1 \<le> ?w * unit_ns p" using unit by (intro mult_left_mono) simp_all
  then have "?w \<le> ?w * unit_ns p" by (simp only: mult_1_right)
  then show "?w \<le> piece_ns p" unfolding piece_ns_def by (rule trans_le_add1)
  have "?f * unit_ns p div d \<le> 10 ^ 18 * 3600000000000" for d
  proof -
    have "?f < 10 ^ 18" using assms fraction_less by (simp add: valid_piece_def)
    then have "?f * unit_ns p \<le> 10 ^ 18 * 3600000000000" using unit by (intro mult_mono) simp_all
    then show ?thesis by (meson div_le_dividend order_trans)
  qed
  then have "piece_ns p \<le> ?w * unit_ns p + 10 ^ 18 * 3600000000000" by (simp add: piece_ns_def Let_def)
  moreover assume "?w \<le> 2 ^ 63"
  then have "?w * unit_ns p \<le> 2 ^ 63 * 3600000000000" using unit by (intro mult_mono) simp_all
  ultimately show "piece_ns p < 2 ^ 127" by simp
qed

text \<open>The loop adds up the pieces, and refuses a sum above the limit.\<close>

lemma duration_loop_pieces:
  "list_all valid_piece ps \<Longrightarrow> unat acc \<le> 2 ^ 63 \<Longrightarrow>
   duration_loop acc (concat (map show_piece ps)) =
     (let n = unat acc + sum_list (map piece_ns ps) in if n \<le> 2 ^ 63 then Some (of_nat n) else None)"
proof (induction ps arbitrary: acc)
  case Nil
  then show ?case by (simp add: duration_loop.simps word_of_unat)
next
  case (Cons p ps)
  let ?rest = "concat (map show_piece ps)"
  have p: "valid_piece p" "list_all valid_piece ps" using Cons.prems by simp_all
  have "split_piece (show_piece p @ ?rest) = Some (p, ?rest)"
    using p texts_front [of ps] by (intro split_piece_show) (cases ps; simp)+
  then have step: "duration_loop acc (show_piece p @ ?rest) =
    (if number_of (before_point p) \<le> 2 ^ 63
     then (if 2 ^ 63 < unat (acc + of_nat (piece_ns p)) then None
           else duration_loop (acc + of_nat (piece_ns p)) ?rest)
     else None)"
    using show_piece_front [OF p(1), of ?rest]
    by (simp add: duration_loop.simps [of acc "_ @ _"] next_piece_eq below_limit Let_def)
  show ?case
  proof (cases "number_of (before_point p) \<le> 2 ^ 63")
    case False
    with piece_ns_bounds(1) [OF p(1)] have "\<not> unat acc + sum_list (map piece_ns (p # ps)) \<le> 2 ^ 63" by simp
    with False show ?thesis by (simp add: step Let_def)
  next
    case True
    have "acc + of_nat (piece_ns p) = (of_nat (unat acc + piece_ns p) :: 128 word)"
      by (simp add: word_of_unat)
    moreover have "unat acc + piece_ns p < 2 ^ LENGTH(128)"
      using piece_ns_bounds(2) [OF p(1) True] Cons.prems(2) by simp
    ultimately have sum: "unat (acc + of_nat (piece_ns p)) = unat acc + piece_ns p"
      by (simp only: unat_small)
    show ?thesis
    proof (cases "unat acc + piece_ns p \<le> 2 ^ 63")
      case small: True
      with Cons.IH [OF p(2), of "acc + of_nat (piece_ns p)"] True show ?thesis
        by (simp add: step sum Let_def add.assoc)
    next
      case False
      with True show ?thesis by (simp add: step sum Let_def)
    qed
  qed
qed

lemma duration_loop_SomeD:
  "duration_loop acc s = Some n \<Longrightarrow> \<exists>ps. list_all valid_piece ps \<and> s = concat (map show_piece ps)"
proof (induction acc s rule: duration_loop.induct)
  case (1 acc s)
  show ?case
  proof (cases "s = []")
    case True
    then show ?thesis by (intro exI [of _ "[]"]) simp
  next
    case False
    with 1(2) obtain m r where r: "next_piece s = Some (m, r)" "\<not> ucast duration_limit < acc + m"
      "duration_loop (acc + m) r = Some n"
      by (auto simp: duration_loop.simps [of acc s] Let_def split: option.splits if_splits)
    from 1(1) [OF False r(1) refl refl r(2,3)] obtain ps where ps: "list_all valid_piece ps" "r = concat (map show_piece ps)"
      by blast
    from r(1) obtain p where "split_piece s = Some (p, r)"
      by (auto simp: next_piece_eq split: option.splits if_splits)
    with ps split_piece_SomeD show ?thesis by (intro exI [of _ "p # ps"]) auto
  qed
qed

section \<open>Meaning\<close>

text \<open>The texts that stand for a duration of \<open>n\<close> nanoseconds.\<close>

definition stands_for :: "string \<Rightarrow> int \<Rightarrow> bool" where
  "stands_for s n \<longleftrightarrow>
     (\<exists>sign t. s = sign @ t \<and> sign \<in> {[], ''+'', ''-''} \<and>
        (t = ''0'' \<and> n = 0 \<or>
         (\<exists>ps. ps \<noteq> [] \<and> list_all valid_piece ps \<and> t = concat (map show_piece ps) \<and>
            n = (if sign = ''-'' then - 1 else 1) * int (sum_list (map piece_ns ps)) \<and>
            - (2 ^ 63) \<le> n \<and> n < 2 ^ 63)))"

lemma word_total:
  assumes "n \<le> 2 ^ 63"
  shows "(of_nat n = (ucast duration_limit :: 128 word)) = (n = 2 ^ 63)"
    and "n < 2 ^ 63 \<Longrightarrow> sint (ucast (of_nat n :: 128 word) :: 64 word) = int n"
    and "n < 2 ^ 63 \<Longrightarrow> sint (- (ucast (of_nat n :: 128 word)) :: 64 word) = - int n"
proof -
  have "n < 2 ^ LENGTH(128)" using assms by simp
  then have u: "unat (of_nat n :: 128 word) = n" by (rule unat_small)
  show "(of_nat n = (ucast duration_limit :: 128 word)) = (n = 2 ^ 63)"
    using u limit_unat(2) by (metis word_of_unat)
  assume "n < 2 ^ 63"
  moreover have c: "(ucast (of_nat n :: 128 word) :: 64 word) = word_of_int (int n)"
    using u by (metis of_int_of_nat_eq of_nat_unat)
  moreover have "- word_of_int (int n) = (word_of_int (- int n) :: 64 word)" by simp
  ultimately show "sint (ucast (of_nat n :: 128 word) :: 64 word) = int n"
    "sint (- (ucast (of_nat n :: 128 word)) :: 64 word) = - int n"
    using to_i64_id [of "int n"] to_i64_id [of "- int n"] by (simp_all only: c to_i64_def) simp_all
qed

lemma parse_unsigned_eq:
  assumes "list_all valid_piece ps" "ps \<noteq> []"
  shows "parse_unsigned negative (concat (map show_piece ps)) =
    (let n = (if negative then - 1 else 1) * int (sum_list (map piece_ns ps))
     in if - (2 ^ 63) \<le> n \<and> n < 2 ^ 63 then Some n else None)"
proof -
  let ?t = "concat (map show_piece ps)" and ?n = "sum_list (map piece_ns ps)"
  obtain p qs where ps: "ps = p # qs" using assms(2) by (cases ps) auto
  obtain u where u: "unit_of (unit_name p) = Some u" using assms(1) ps by (auto simp: valid_piece_def)
  have "?t \<noteq> []" using show_piece_front [of p "[]"] assms(1) ps by simp
  moreover have "?t \<noteq> ''0''"
  proof
    assume "?t = ''0''"
    then have "unit_name p = [] \<or> hd (unit_name p) = CHR ''0''"
      using u by (auto simp: ps show_piece_def append_eq_Cons_conv split: option.splits)
    with unit_chars [OF u] show False
      by (cases "unit_name p") (auto simp: unit_char_def is_digit_def byte_def)
  qed
  ultimately have "parse_unsigned negative ?t =
    (if ?n \<le> 2 ^ 63
     then if \<not> negative \<and> ?n = 2 ^ 63 then None
          else if negative then (if ?n = 2 ^ 63 then Some (- (2 ^ 63)) else Some (- int ?n))
          else Some (int ?n)
     else None)"
    using word_total [of ?n] duration_loop_pieces [OF assms(1), of 0]
    by (auto simp: parse_unsigned_def Let_def)
  also have "\<dots> = (let n = (if negative then - 1 else 1) * int ?n
     in if - (2 ^ 63) \<le> n \<and> n < 2 ^ 63 then Some n else None)"
    by (auto simp: Let_def)
  finally show ?thesis .
qed

lemma parse_unsigned_SomeD:
  assumes "parse_unsigned negative s = Some n" "s \<noteq> ''0''"
  shows "\<exists>ps. list_all valid_piece ps \<and> ps \<noteq> [] \<and> s = concat (map show_piece ps)"
  using assms duration_loop_SomeD [of 0 s] by (fastforce simp: parse_unsigned_def split: if_splits option.splits)

lemma parse_duration_sign:
  assumes "sign \<in> {[], ''+'', ''-''}" "sign = [] \<Longrightarrow> t = [] \<or> hd t \<noteq> CHR ''+'' \<and> hd t \<noteq> CHR ''-''"
  shows "parse_duration (sign @ t) = parse_unsigned (sign = ''-'') t"
  using assms by (auto simp: parse_duration_def Let_def)

lemma sign_cases:
  obtains sign t where "s = sign @ t" "sign \<in> {[], ''+'', ''-''}"
    "sign = [] \<Longrightarrow> t = [] \<or> hd t \<noteq> CHR ''+'' \<and> hd t \<noteq> CHR ''-''"
proof (cases "s \<noteq> [] \<and> (hd s = CHR ''+'' \<or> hd s = CHR ''-'')")
  case True
  then show ?thesis using that [of "[hd s]" "tl s"] by auto
next
  case False
  then show ?thesis using that [of "[]" s] by auto
qed

lemma signs_unit_chars: "unit_char (CHR ''+'') \<and> unit_char (CHR ''-'')"
  by (simp add: unit_char_def is_digit_def byte_def)

text \<open>
  The number of nanoseconds that a piece stands for: the number times the unit, truncated.
\<close>

definition exact_ns :: "piece \<Rightarrow> nat" where
  "exact_ns p =
     (let fs = fraction_digits p
      in nat \<lfloor>(of_nat (number_of (before_point p)) + of_nat (number_of fs) / 10 ^ length fs) *
          of_nat (unit_ns p) :: rat\<rfloor>)"

lemma exact_ns_div:
  "exact_ns p =
     number_of (before_point p) * unit_ns p +
     number_of (fraction_digits p) * unit_ns p div 10 ^ length (fraction_digits p)"
proof -
  let ?W = "number_of (before_point p)" and ?F = "number_of (fraction_digits p)" and ?u = "unit_ns p"
  let ?d = "10 ^ length (fraction_digits p) :: nat"
  have "(of_nat ?W + of_nat ?F / 10 ^ length (fraction_digits p)) * of_nat ?u =
    (of_nat ((?W * ?u) * ?d + ?F * ?u) / of_nat ?d :: rat)"
    by (simp add: field_simps)
  then have "exact_ns p = nat \<lfloor>of_nat ((?W * ?u) * ?d + ?F * ?u) / of_nat ?d :: rat\<rfloor>"
    by (simp add: exact_ns_def Let_def)
  also have "\<dots> = ((?W * ?u) * ?d + ?F * ?u) div ?d"
    by (simp only: floor_divide_of_nat_eq nat_int)
  also have "\<dots> = ?W * ?u + ?F * ?u div ?d" by simp
  finally show ?thesis .
qed

lemma number_of_append: "number_of (ds @ es) = number_of ds * 10 ^ length es + number_of es"
  by (induction ds) (simp_all add: number_of_Cons algebra_simps power_add)

lemma truncated_fraction:
  assumes "list_all is_digit fs" "u * v = 10 ^ 18"
  shows "number_of (take 18 fs) * u div 10 ^ length (take 18 fs) = number_of fs * u div 10 ^ length fs"
proof (cases "length fs \<le> 18")
  case False
  let ?a = "take 18 fs" and ?b = "drop 18 fs"
  have "0 < u" using assms(2) by (cases u) simp_all
  have "(10 :: nat) ^ length fs = 10 ^ 18 * 10 ^ length ?b"
    unfolding power_add [symmetric] using False by simp
  also have "\<dots> = u * (10 ^ length ?b * v)" unfolding assms(2) [symmetric] by (simp only: mult.assoc mult.commute [of v])
  finally have len: "length ?a = 18" "(10 :: nat) ^ length fs = u * (10 ^ length ?b * v)"
    using False by simp_all
  have "number_of ?b < 10 ^ length ?b"
    using assms(1) by (intro number_of_upper) (auto simp: list_all_iff dest: in_set_dropD)
  moreover have "number_of fs = number_of ?a * 10 ^ length ?b + number_of ?b"
    using number_of_append [of ?a ?b] by simp
  ultimately have high: "number_of fs div 10 ^ length ?b = number_of ?a" by simp
  have "number_of fs * u div 10 ^ length fs = number_of fs div (10 ^ length ?b * v)"
    using \<open>0 < u\<close> by (simp add: len mult.commute [of _ u])
  also have "\<dots> = number_of ?a div v" unfolding div_mult2_eq high by (rule refl)
  also have "\<dots> = number_of ?a * u div 10 ^ length ?a"
    unfolding len(1) assms(2) [symmetric] using \<open>0 < u\<close> by (simp add: mult.commute [of _ u])
  finally show ?thesis by simp
qed simp

lemma unit_divides:
  assumes "valid_piece p" "unit_name p \<noteq> ''m''" "unit_name p \<noteq> ''h''"
  shows "\<exists>v. unit_ns p * v = 10 ^ 18"
proof -
  have "unit_ns p \<in> {1, 1000, 1000000, 1000000000}"
    using assms by (auto simp: valid_piece_def unit_ns_def unit_of_def split: if_splits)
  then have "unit_ns p dvd 10 ^ 18" by auto
  then show ?thesis by (metis dvdE)
qed

definition early_piece :: piece where
  "early_piece = Piece ''0'' (Some ''000000000000277777777777778'') ''h''"

lemmas piece_eval = valid_piece_def fraction_digits_def unit_ns_def unit_of_def number_of_def digits_value_def
  digit_val_def is_digit_def byte_def

lemma early_piece_lost: "parse_duration (show_piece early_piece) = Some 0 \<and> exact_ns early_piece = 1"
proof -
  have piece_ns_early: "piece_ns early_piece = 0" by (simp add: early_piece_def piece_ns_def piece_eval)
  have valid: "valid_piece early_piece" by (simp add: early_piece_def piece_eval)
  have "show_piece early_piece \<noteq> []" "hd (show_piece early_piece) = CHR ''0''"
    by (simp_all add: early_piece_def show_piece_def)
  then have "parse_duration ([] @ show_piece early_piece) = parse_unsigned False (concat (map show_piece [early_piece]))"
    by (subst parse_duration_sign) simp_all
  also have "\<dots> = Some 0"
    using valid piece_ns_early by (subst parse_unsigned_eq) (simp_all add: Let_def)
  finally show ?thesis by (simp add: early_piece_def exact_ns_div piece_eval)
qed

section \<open>Properties\<close>

text \<open>
  C29: the texts that are accepted are exactly those of the grammar, an optional sign and then \<open>0\<close> or
  one or more pieces, whose sum fits a signed 64-bit integer; and the result is that sum.  None of the
  64-bit and 128-bit operations on the way wraps around.
\<close>

theorem duration_grammar: "parse_duration s = Some n \<longleftrightarrow> stands_for s n"
proof
  obtain sign t where s: "s = sign @ t" "sign \<in> {[], ''+'', ''-''}"
    and parse: "parse_duration s = parse_unsigned (sign = ''-'') t"
    using sign_cases parse_duration_sign by metis
  assume some: "parse_duration s = Some n"
  show "stands_for s n"
  proof (cases "t = ''0''")
    case True
    with some parse have "n = 0" by (simp add: parse_unsigned_def)
    with s True show ?thesis unfolding stands_for_def by blast
  next
    case False
    with some parse obtain ps where ps: "list_all valid_piece ps" "ps \<noteq> []" "t = concat (map show_piece ps)"
      using parse_unsigned_SomeD by metis
    then have "n = (if sign = ''-'' then - 1 else 1) * int (sum_list (map piece_ns ps))" "- (2 ^ 63) \<le> n" "n < 2 ^ 63"
      using some parse parse_unsigned_eq [OF ps(1,2), of "sign = ''-''"] by (simp_all add: Let_def split: if_splits)
    with s ps show ?thesis unfolding stands_for_def by blast
  qed
next
  assume "stands_for s n"
  then obtain sign t where s: "s = sign @ t" "sign \<in> {[], ''+'', ''-''}"
    and t: "t = ''0'' \<and> n = 0 \<or> (\<exists>ps. ps \<noteq> [] \<and> list_all valid_piece ps \<and> t = concat (map show_piece ps) \<and>
      n = (if sign = ''-'' then - 1 else 1) * int (sum_list (map piece_ns ps)) \<and> - (2 ^ 63) \<le> n \<and> n < 2 ^ 63)"
    unfolding stands_for_def by blast
  have "hd t = CHR ''0'' \<or> \<not> unit_char (hd t)" using t texts_front by auto
  then have "hd t \<noteq> CHR ''+'' \<and> hd t \<noteq> CHR ''-''" using signs_unit_chars by auto
  then have "parse_duration s = parse_unsigned (sign = ''-'') t" using s parse_duration_sign by blast
  also have "\<dots> = Some n"
    using t
  proof
    assume "t = ''0'' \<and> n = 0"
    then show ?thesis by (simp add: parse_unsigned_def)
  next
    assume "\<exists>ps. ps \<noteq> [] \<and> list_all valid_piece ps \<and> t = concat (map show_piece ps) \<and>
      n = (if sign = ''-'' then - 1 else 1) * int (sum_list (map piece_ns ps)) \<and> - (2 ^ 63) \<le> n \<and> n < 2 ^ 63"
    then obtain ps where "ps \<noteq> []" "list_all valid_piece ps" "t = concat (map show_piece ps)"
      "n = (if sign = ''-'' then - 1 else 1) * int (sum_list (map piece_ns ps))" "- (2 ^ 63) \<le> n" "n < 2 ^ 63"
      by blast
    then show ?thesis by (simp only: parse_unsigned_eq Let_def simp_thms if_True)
  qed
  finally show "parse_duration s = Some n" .
qed



end
