(* ===== verification/Cli_Args.thy ===== *)
theory Cli_Args
  imports Strtod
begin

text \<open>
  \<^verbatim>\<open>apps/cli_args.cpp\<close>: the parser of command lines.  The multimap of option values is the list of its
  entries in the order of insertion, which is the order of entries with one key.
\<close>

section \<open>Parsing\<close>

record args_spec =
  value_options :: "string set"
  flag_options :: "string set"

record args =
  arg_values :: "(string \<times> string) list"
  arg_flags :: "string set"
  positional :: "string list"

definition no_args :: args where
  "no_args = \<lparr>arg_values = [], arg_flags = {}, positional = []\<rparr>"

definition push_positional :: "string \<Rightarrow> args \<Rightarrow> args" where
  "push_positional a x = x\<lparr>positional := positional x @ [a]\<rparr>"

definition push_value :: "string \<Rightarrow> string \<Rightarrow> args \<Rightarrow> args" where
  "push_value n v x = x\<lparr>arg_values := arg_values x @ [(n, v)]\<rparr>"

definition push_flag :: "string \<Rightarrow> args \<Rightarrow> args" where
  "push_flag n x = x\<lparr>arg_flags := insert n (arg_flags x)\<rparr>"

definition option_name :: "string \<Rightarrow> string \<times> string option" where
  "option_name s =
     (case find_char (CHR ''='') s of None \<Rightarrow> (s, None) | Some i \<Rightarrow> (take i s, Some (drop (i + 1) s)))"

text \<open>An error message, if there is one, and what has been stored until then.\<close>

fun parse_args :: "args_spec \<Rightarrow> bool \<Rightarrow> string list \<Rightarrow> args \<Rightarrow> string option \<times> args" where
  "parse_args spec options_done [] x = (None, x)"
| "parse_args spec options_done (a # as) x =
     (if options_done \<or> \<not> starts_with ''--'' a \<or> a = ''-'' then parse_args spec options_done as (push_positional a x)
      else if a = ''--'' then parse_args spec True as x
      else
        (let (name, inline_value) = option_name (drop 2 a) in
         if name \<in> flag_options spec then
           (if inline_value \<noteq> None then (Some (''option --'' @ name @ '' does not take a value''), x)
            else parse_args spec options_done as (push_flag name x))
         else if name \<in> value_options spec then
           (case inline_value of
              Some v \<Rightarrow> parse_args spec options_done as (push_value name v x)
            | None \<Rightarrow>
                (case as of
                   v # as' \<Rightarrow> parse_args spec options_done as' (push_value name v x)
                 | [] \<Rightarrow> (Some (''option --'' @ name @ '' requires a value''), x)))
         else (Some (''unknown option --'' @ name), x)))"

section \<open>Access\<close>

definition has_flag :: "args \<Rightarrow> string \<Rightarrow> bool" where
  "has_flag x n \<longleftrightarrow> n \<in> arg_flags x"

definition get_all :: "args \<Rightarrow> string \<Rightarrow> string list" where
  "get_all x n = map snd (filter (\<lambda>(m, v). m = n) (arg_values x))"

definition get_arg :: "args \<Rightarrow> string \<Rightarrow> string option" where
  "get_arg x n = (if get_all x n = [] then None else Some (last (get_all x n)))"

definition get_or :: "args \<Rightarrow> string \<Rightarrow> string \<Rightarrow> string" where
  "get_or x n fallback = (case get_arg x n of Some v \<Rightarrow> v | None \<Rightarrow> fallback)"

text \<open>The error, or the new value of the variable (which is left alone without the option).\<close>

definition get_int :: "args \<Rightarrow> string \<Rightarrow> int option \<Rightarrow> string + int option" where
  "get_int x n old =
     (case get_arg x n of
        None \<Rightarrow> Inr old
      | Some v \<Rightarrow>
          (case from_chars (- (2 ^ 31)) (2 ^ 31 - 1) v of
             Some (i, []) \<Rightarrow> Inr (Some i)
           | _ \<Rightarrow> Inl (''--'' @ n @ '' expects an integer, got '' @ [SQUOTE] @ v @ [SQUOTE])))"

text \<open>\<^verbatim>\<open>strtod\<close> on the text up to a NUL, which the arguments of a process do not have.\<close>

definition get_double :: "args \<Rightarrow> string \<Rightarrow> double option \<Rightarrow> string + double option" where
  "get_double x n old =
     (case get_arg x n of
        None \<Rightarrow> Inr old
      | Some v \<Rightarrow>
          (let (d, rest) = strtod v
           in if v = [] \<or> rest \<noteq> [] then Inl (''--'' @ n @ '' expects a number, got '' @ [SQUOTE] @ v @ [SQUOTE])
              else Inr (Some d)))"

section \<open>Grammar\<close>

datatype item = Flag string | Given string string | Inlined string string | Plain string

fun render_item :: "item \<Rightarrow> string list" where
  "render_item (Flag n) = [''--'' @ n]"
| "render_item (Given n v) = [''--'' @ n, v]"
| "render_item (Inlined n v) = [''--'' @ n @ CHR ''='' # v]"
| "render_item (Plain a) = [a]"

fun valid_item :: "args_spec \<Rightarrow> item \<Rightarrow> bool" where
  "valid_item spec (Flag n) \<longleftrightarrow> n \<noteq> [] \<and> CHR ''='' \<notin> set n \<and> n \<in> flag_options spec"
| "valid_item spec (Given n v) \<longleftrightarrow>
     n \<noteq> [] \<and> CHR ''='' \<notin> set n \<and> n \<in> value_options spec \<and> n \<notin> flag_options spec"
| "valid_item spec (Inlined n v) \<longleftrightarrow> CHR ''='' \<notin> set n \<and> n \<in> value_options spec \<and> n \<notin> flag_options spec"
| "valid_item spec (Plain a) \<longleftrightarrow> \<not> starts_with ''--'' a"

fun apply_item :: "item \<Rightarrow> args \<Rightarrow> args" where
  "apply_item (Flag n) = push_flag n"
| "apply_item (Given n v) = push_value n v"
| "apply_item (Inlined n v) = push_value n v"
| "apply_item (Plain a) = push_positional a"

lemma option_name_plain: "CHR ''='' \<notin> set n \<Longrightarrow> option_name n = (n, None)"
  by (simp add: option_name_def find_char_None)

lemma option_name_inlined: "CHR ''='' \<notin> set n \<Longrightarrow> option_name (n @ CHR ''='' # v) = (n, Some v)"
  by (simp add: option_name_def find_char_append)

lemma option_name_None: "option_name s = (n, None) \<Longrightarrow> s = n \<and> CHR ''='' \<notin> set n"
  by (auto simp: option_name_def find_char_None_iff split: option.splits)

lemma option_name_Some:
  assumes "option_name s = (n, Some v)"
  shows "s = n @ CHR ''='' # v \<and> CHR ''='' \<notin> set n"
proof -
  obtain i where i: "find_char (CHR ''='') s = Some i" "n = take i s" "v = drop (Suc i) s"
    using assms by (auto simp: option_name_def split: option.splits)
  with find_char_split [OF i(1)] find_char_SomeD [OF i(1)] show ?thesis by simp
qed

lemma dashes: "starts_with ''--'' a \<Longrightarrow> a = ''--'' @ drop 2 a"
  by (auto simp: starts_with_iff)

lemma parse_positional: "parse_args spec True as x = (None, fold push_positional as x)"
  by (induction as arbitrary: x) simp_all

lemma parse_item:
  assumes "valid_item spec i"
  shows "parse_args spec False (render_item i @ as) x = parse_args spec False as (apply_item i x)"
  using assms by (cases i) (auto simp: option_name_plain option_name_inlined)

lemma parse_items:
  "list_all (valid_item spec) items \<Longrightarrow>
   parse_args spec False (concat (map render_item items) @ as) x = parse_args spec False as (fold apply_item items x)"
  by (induction items arbitrary: x) (simp_all add: parse_item)

lemma parse_items_SomeD:
  "parse_args spec False as x = (None, y) \<Longrightarrow>
   \<exists>items rest. list_all (valid_item spec) items \<and> (rest = [] \<or> hd rest = ''--'') \<and>
     as = concat (map render_item items) @ rest \<and> y = fold push_positional (tl rest) (fold apply_item items x)"
proof (induction as arbitrary: x rule: length_induct)
  case (1 as)
  have prepend: ?case
    if "as = render_item i @ as'" "valid_item spec i" "parse_args spec False as' (apply_item i x) = (None, y)" for i as'
  proof -
    have "length as' < length as" using that(1) by (cases i) auto
    with 1 that(3) obtain items rest where
      "list_all (valid_item spec) items \<and> (rest = [] \<or> hd rest = ''--'') \<and>
       as' = concat (map render_item items) @ rest \<and>
       y = fold push_positional (tl rest) (fold apply_item items (apply_item i x))"
      by blast
    with that show ?thesis by (intro exI [of _ "i # items"] exI [of _ rest]) simp
  qed
  show ?case
  proof (cases as)
    case Nil
    with 1(2) show ?thesis by (intro exI [of _ "[]"]) simp
  next
    case (Cons a as')
    note run = 1(2) [unfolded Cons]
    consider "\<not> starts_with ''--'' a" | "a = ''--''" | "starts_with ''--'' a" "a \<noteq> ''--''" "a \<noteq> ''-''"
      by fastforce
    then show ?thesis
    proof cases
      case 1
      with run Cons show ?thesis by (intro prepend [of "Plain a" as']) simp_all
    next
      case 2
      with run Cons show ?thesis
        by (intro exI [of _ "[]"] exI [of _ as]) (simp add: parse_positional)
    next
      case 3
      obtain n iv where n: "option_name (drop 2 a) = (n, iv)" by fastforce
      show ?thesis
      proof (cases "n \<in> flag_options spec")
        case True
        with run 3 n have "iv = None" "parse_args spec False as' (push_flag n x) = (None, y)"
          by (auto split: if_splits)
        with 3 n True Cons dashes [of a] option_name_None [of "drop 2 a" n] show ?thesis
          by (intro prepend [of "Flag n" as']) auto
      next
        case not_flag: False
        with run 3 n have known: "n \<in> value_options spec" by (auto split: if_splits)
        show ?thesis
        proof (cases iv)
          case (Some v)
          with run 3 n known not_flag Cons dashes [of a] option_name_Some [of "drop 2 a" n v] show ?thesis
            by (intro prepend [of "Inlined n v" as']) auto
        next
          case None
          with run 3 n known not_flag obtain v as'' where as': "as' = v # as''"
            "parse_args spec False as'' (push_value n v x) = (None, y)"
            by (auto split: list.splits)
          with None 3 n known not_flag Cons dashes [of a] option_name_None [of "drop 2 a" n] show ?thesis
            by (intro prepend [of "Given n v" as'']) auto
        qed
      qed
    qed
  qed
qed

section \<open>Properties\<close>

text \<open>
  C22: the command lines that are accepted are exactly the sequences of known flags, known options
  with a value (in the next argument or after an equals sign) and plain arguments, up to a \<^verbatim>\<open>--\<close>, after
  which everything is plain; and what is stored is what they say, in order.
\<close>

theorem command_line_grammar:
  "parse_args spec False as x = (None, y) \<longleftrightarrow>
   (\<exists>items rest. list_all (valid_item spec) items \<and> (rest = [] \<or> hd rest = ''--'') \<and>
     as = concat (map render_item items) @ rest \<and> y = fold push_positional (tl rest) (fold apply_item items x))"
proof
  assume "parse_args spec False as x = (None, y)"
  then show "\<exists>items rest. list_all (valid_item spec) items \<and> (rest = [] \<or> hd rest = ''--'') \<and>
     as = concat (map render_item items) @ rest \<and> y = fold push_positional (tl rest) (fold apply_item items x)"
    by (rule parse_items_SomeD)
next
  assume "\<exists>items rest. list_all (valid_item spec) items \<and> (rest = [] \<or> hd rest = ''--'') \<and>
     as = concat (map render_item items) @ rest \<and> y = fold push_positional (tl rest) (fold apply_item items x)"
  then obtain items rest where valid: "list_all (valid_item spec) items" and rest: "rest = [] \<or> hd rest = ''--''"
    and as: "as = concat (map render_item items) @ rest"
    and y: "y = fold push_positional (tl rest) (fold apply_item items x)" by blast
  have "parse_args spec False rest z = (None, fold push_positional (tl rest) z)" for z
    using rest by (cases rest) (auto simp: parse_positional)
  then show "parse_args spec False as x = (None, y)" by (simp add: as y parse_items [OF valid])
qed

end
