(* ===== verification/Logging.thy ===== *)
theory Logging
  imports Json Wall_Clock
begin

text \<open>
  \<^verbatim>\<open>src/logging.cpp\<close>: the structured logger.  Its two global variables are a record; the system clock
  and the printer of JSON (which replaces invalid UTF-8) are parameters.  A call gives the text that is
  written to standard error, which happens under a lock and so in one piece.
\<close>

section \<open>Levels\<close>

datatype level = LDebug | LInfo | LWarn | LError | LOff

fun level_number :: "level \<Rightarrow> nat" where
  "level_number LDebug = 0"
| "level_number LInfo = 1"
| "level_number LWarn = 2"
| "level_number LError = 3"
| "level_number LOff = 4"

lemma level_number_inj: "level_number l = level_number m \<Longrightarrow> l = m"
  by (cases l; cases m) simp_all

instantiation level :: linorder
begin

definition less_eq_level :: "level \<Rightarrow> level \<Rightarrow> bool" where
  "less_eq_level l m \<longleftrightarrow> level_number l \<le> level_number m"

definition less_level :: "level \<Rightarrow> level \<Rightarrow> bool" where
  "less_level l m \<longleftrightarrow> level_number l < level_number m"

instance
  by standard (auto simp: less_eq_level_def less_level_def intro: level_number_inj)

end

fun level_name :: "level \<Rightarrow> string" where
  "level_name LDebug = ''debug''"
| "level_name LInfo = ''info''"
| "level_name LWarn = ''warn''"
| "level_name LError = ''error''"
| "level_name LOff = ''off''"

definition all_levels :: "level list" where
  "all_levels = [LDebug, LInfo, LWarn, LError, LOff]"

text \<open>The level that a text names; the variable is not written otherwise.\<close>

definition parse_level :: "string \<Rightarrow> level option" where
  "parse_level s = find (\<lambda>l. s = level_name l) all_levels"

section \<open>Writing\<close>

record log_state =
  log_level :: level
  log_json :: bool

definition initial_log :: log_state where
  "initial_log = \<lparr>log_level = LWarn, log_json = False\<rparr>"

definition log_enabled :: "log_state \<Rightarrow> level \<Rightarrow> bool" where
  "log_enabled g l \<longleftrightarrow> l \<noteq> LOff \<and> log_level g \<le> l"

definition needs_quotes :: "string \<Rightarrow> bool" where
  "needs_quotes v \<longleftrightarrow> v = [] \<or> list_ex (\<lambda>c. c = SP \<or> c = TAB \<or> c = DQUOTE \<or> c = CHR ''='') v"

definition upper_letter :: "char \<Rightarrow> char" where
  "upper_letter c = char_of (byte c - 32)"

definition json_line :: "'j json_lib \<Rightarrow> ('j \<Rightarrow> string) \<Rightarrow> string \<Rightarrow> level \<Rightarrow> string \<Rightarrow> (string \<times> string) list \<Rightarrow> string" where
  "json_line J dump_replace stamp l event kvs =
     (let j = json_set J (json_null J) ''ts'' (json_string J stamp);
          j = json_set J j ''level'' (json_string J (level_name l));
          j = json_set J j ''event'' (json_string J event)
      in dump_replace (fold (\<lambda>(k, v) j. json_set J j k (json_string J v)) kvs j))"

definition field_text :: "'j json_lib \<Rightarrow> ('j \<Rightarrow> string) \<Rightarrow> string \<times> string \<Rightarrow> string" where
  "field_text J dump_replace f =
     (case f of (k, v) \<Rightarrow>
        [SP] @ k @ [CHR ''=''] @ (if needs_quotes v then dump_replace (json_string J v) else v))"

definition text_line :: "'j json_lib \<Rightarrow> ('j \<Rightarrow> string) \<Rightarrow> string \<Rightarrow> level \<Rightarrow> string \<Rightarrow> (string \<times> string) list \<Rightarrow> string" where
  "text_line J dump_replace stamp l event kvs =
     stamp @ [SP] @ map upper_letter (level_name l) @ [SP] @ event @ concat (map (field_text J dump_replace) kvs)"

definition log_write ::
  "'j json_lib \<Rightarrow> ('j \<Rightarrow> string) \<Rightarrow> log_state \<Rightarrow> int \<Rightarrow> level \<Rightarrow> string \<Rightarrow> (string \<times> string) list \<Rightarrow> string" where
  "log_write J dump_replace g now l event kvs =
     (if log_json g then json_line J dump_replace (timestamp now) l event kvs
      else text_line J dump_replace (timestamp now) l event kvs) @ [NL]"

text \<open>The four inline functions of the header.\<close>

definition log_at ::
  "'j json_lib \<Rightarrow> ('j \<Rightarrow> string) \<Rightarrow> log_state \<Rightarrow> int \<Rightarrow> level \<Rightarrow> string \<Rightarrow> (string \<times> string) list \<Rightarrow> string" where
  "log_at J dump_replace g now l event kvs =
     (if log_enabled g l then log_write J dump_replace g now l event kvs else [])"

section \<open>Lemmas\<close>

lemma parse_level_name: "parse_level (level_name l) = Some l"
  by (cases l) (simp_all add: parse_level_def all_levels_def)

lemma parse_level_Some: "parse_level s = Some l \<Longrightarrow> s = level_name l"
  by (auto simp: parse_level_def find_Some_iff)

lemma upper_letter_line:
  assumes "97 \<le> byte c"
  shows "upper_letter c \<noteq> NL"
proof
  assume "upper_letter c = NL"
  then have "byte (char_of (byte c - 32)) = byte NL" by (simp add: upper_letter_def)
  moreover have "byte c < 256" by (simp add: byte_def)
  ultimately show False using assms by (simp add: byte_char_of) (simp add: byte_def)
qed

lemma level_line: "NL \<notin> set (map upper_letter (level_name l))"
proof -
  have "list_all (\<lambda>c. 97 \<le> byte c) (level_name l)" by (cases l) (simp_all add: byte_def)
  then show ?thesis using upper_letter_line by (fastforce simp: list_all_iff)
qed

definition plain_value :: "string \<Rightarrow> bool" where
  "plain_value v \<longleftrightarrow> needs_quotes v \<or> NL \<notin> set v"

lemma field_text_line:
  assumes "\<And>j. NL \<notin> set (dump_replace j)" "NL \<notin> set k" "plain_value v"
  shows "NL \<notin> set (field_text J dump_replace (k, v))"
  using assms by (auto simp: field_text_def plain_value_def)

section \<open>Properties\<close>



end
