(* ===== verification/Curl_Transport.thy ===== *)
theory Curl_Transport
  imports Transport "HOL-Library.Signed_Division"
begin

text \<open>
  \<^verbatim>\<open>src/curl_transport.cpp\<close>: the transport on libcurl.  The library is a parameter: a transfer is the
  sequence of its calls of the header and the body callback, each body with the response code that
  \<^verbatim>\<open>curl_easy_getinfo\<close> would give in it, and how it ends, which depends on whether a callback made it
  stop.
\<close>

section \<open>libcurl\<close>

record curl_settings =
  cs_url :: string
  cs_agent :: string
  cs_encoding :: string
  cs_headers :: "string list"
  cs_connect_ms :: int
  cs_low_speed :: "(int \<times> int) option"  \<comment> \<open>bytes per second, seconds\<close>
  cs_timeout_ms :: "int option"
  cs_post :: "string option"  \<comment> \<open>the body, or \<^verbatim>\<open>CURLOPT_HTTPGET\<close>\<close>
  cs_custom :: "string option"

datatype curl_event = HeaderLine string | BodyData int string

datatype curl_code = CurlOk | CurlTimedOut | CurlError

record curl_end =
  ce_code :: curl_code
  ce_buffer :: string  \<comment> \<open>the error buffer\<close>
  ce_strerror :: string
  ce_status :: int

record 'w curl =
  cu_handle :: "'w \<Rightarrow> bool \<times> 'w"
  cu_append :: "string list \<Rightarrow> string \<Rightarrow> 'w \<Rightarrow> bool \<times> 'w"
  cu_perform :: "curl_settings \<Rightarrow> 'w \<Rightarrow> curl_event list \<times> (bool \<Rightarrow> curl_end) \<times> 'w"

text \<open>
  What the documentation of \<^verbatim>\<open>CURLOPT_WRITEFUNCTION\<close> says: a body callback that does not take all its
  bytes makes the transfer fail; and the callback of a transfer with a body gets at least one byte.
\<close>

definition curl_ok :: "'w curl \<Rightarrow> bool" where
  "curl_ok C \<longleftrightarrow>
     (\<forall>st w. case cu_perform C st w of (events, ending, w') \<Rightarrow>
        ce_code (ending True) \<noteq> CurlOk \<and> (\<forall>status. BodyData status [] \<notin> set events))"

section \<open>The callbacks\<close>

record 's curl_context =
  cx_response :: http_response
  cx_aborted :: bool
  cx_state :: 's

definition success :: "int \<Rightarrow> bool" where
  "success status \<longleftrightarrow> 200 \<le> status \<and> status < 300"

text \<open>The number of bytes that the callback takes.\<close>

definition on_body ::
  "(string \<Rightarrow> 's \<Rightarrow> bool \<times> 's) option \<Rightarrow> int \<Rightarrow> string \<Rightarrow> 's curl_context \<Rightarrow> nat \<times> 's curl_context" where
  "on_body on_chunk status bytes ctx =
     (let keep_it = (length bytes, ctx\<lparr>cx_response := (cx_response ctx)
                       \<lparr>resp_body := resp_body (cx_response ctx) @ bytes\<rparr>\<rparr>)
      in case on_chunk of
           None \<Rightarrow> keep_it
         | Some f \<Rightarrow>
             if success status then
               (let (go_on, s) = f bytes (cx_state ctx); ctx = ctx\<lparr>cx_state := s\<rparr>
                in if go_on then (length bytes, ctx) else (0, ctx\<lparr>cx_aborted := True\<rparr>))
             else keep_it)"

definition trim_value :: "string \<Rightarrow> string" where
  "trim_value s =
     rev (dropWhile (\<lambda>c. c = CR \<or> c = NL \<or> c = SP) (rev (dropWhile (\<lambda>c. c = SP \<or> c = TAB) s)))"

definition on_header :: "string \<Rightarrow> http_headers \<Rightarrow> http_headers" where
  "on_header line hs =
     (if starts_with ''HTTP/'' line then (\<lambda>_. None)
      else
        (case find_char (CHR '':'') line of
           None \<Rightarrow> hs
         | Some i \<Rightarrow> hs(map to_lower (take i line) \<mapsto> trim_value (drop (i + 1) line))))"

text \<open>The callbacks of a transfer, up to the first that does not take all its bytes.\<close>

fun run_transfer ::
  "(string \<Rightarrow> 's \<Rightarrow> bool \<times> 's) option \<Rightarrow> curl_event list \<Rightarrow> 's curl_context \<Rightarrow> bool \<times> 's curl_context" where
  "run_transfer on_chunk [] ctx = (False, ctx)"
| "run_transfer on_chunk (HeaderLine l # es) ctx =
     run_transfer on_chunk es (ctx\<lparr>cx_response := (cx_response ctx)
       \<lparr>resp_headers := on_header l (resp_headers (cx_response ctx))\<rparr>\<rparr>)"
| "run_transfer on_chunk (BodyData status bytes # es) ctx =
     (let (n, ctx) = on_body on_chunk status bytes ctx
      in if n \<noteq> length bytes then (True, ctx) else run_transfer on_chunk es ctx)"

section \<open>A request\<close>

definition user_agent :: "string \<Rightarrow> string" where
  "user_agent version = ''gemini-cpp/'' @ version"

text \<open>
  Plain requests have a deadline, streaming ones a limit on the time without bytes; division of
  \<^verbatim>\<open>long\<close> rounds towards zero.
\<close>

definition settings_of :: "string \<Rightarrow> http_request \<Rightarrow> string list \<Rightarrow> bool \<Rightarrow> curl_settings" where
  "settings_of version req lines streaming =
     \<lparr>cs_url = req_url req, cs_agent = user_agent version, cs_encoding = [], cs_headers = lines,
      cs_connect_ms = 15000,
      cs_low_speed = (if streaming then Some (1, max 1 (req_timeout req sdiv 1000)) else None),
      cs_timeout_ms = (if streaming then None else Some (req_timeout req)),
      cs_post = (if req_method req = ''GET'' then None else Some (req_body req)),
      cs_custom =
        (if req_method req = ''GET'' \<or> req_method req = ''POST'' then None else Some (req_method req))\<rparr>"

fun append_headers ::
  "'w curl \<Rightarrow> (string \<times> string) list \<Rightarrow> string list \<Rightarrow> 'w \<Rightarrow> string list option \<times> 'w" where
  "append_headers C [] lines w = (Some lines, w)"
| "append_headers C ((name, value) # hs) lines w =
     (let line = name @ '': '' @ value; (ok, w) = cu_append C lines line w
      in if \<not> ok then (None, w) else append_headers C hs (lines @ [line]) w)"

definition transfer_result :: "bool \<Rightarrow> curl_end \<Rightarrow> http_response \<Rightarrow> error + http_response" where
  "transfer_result aborted e response =
     (if ce_code e \<noteq> CurlOk then
        Inl (if aborted then make_error KCancelled ''request cancelled by caller''
             else make_error (if ce_code e = CurlTimedOut then KTimeout else KTransport)
                    (''curl: '' @ (if ce_buffer e \<noteq> [] then ce_buffer e else ce_strerror e)))
      else Inr (response\<lparr>resp_status := to_i32 (ce_status e)\<rparr>))"

definition empty_http :: http_response where
  "empty_http = \<lparr>resp_status = 0, resp_headers = (\<lambda>_. None), resp_body = []\<rparr>"

definition perform ::
  "string \<Rightarrow> 'w curl \<Rightarrow> http_request \<Rightarrow> (string \<Rightarrow> 's \<Rightarrow> bool \<times> 's) option \<Rightarrow> 's \<Rightarrow> 'w \<Rightarrow>
   (error + http_response) \<times> 's \<times> 'w" where
  "perform version C req on_chunk s w =
     (let (ok, w) = cu_handle C w in
      if \<not> ok then (Inl (make_error KTransport ''curl_easy_init failed''), s, w)
      else
        (case append_headers C (req_headers req) [] w of
           (None, w) \<Rightarrow> (Inl (make_error KTransport ''curl_slist_append failed''), s, w)
         | (Some lines, w) \<Rightarrow>
             (let (events, ending, w) = cu_perform C (settings_of version req lines (on_chunk \<noteq> None)) w;
                  (stopped, ctx) =
                    run_transfer on_chunk events \<lparr>cx_response = empty_http, cx_aborted = False, cx_state = s\<rparr>
              in (transfer_result (cx_aborted ctx) (ending stopped) (cx_response ctx), cx_state ctx, w))))"

section \<open>The transport\<close>

text \<open>What a transfer without an abort amounts to.\<close>

definition chunk_of :: "curl_event \<Rightarrow> string option" where
  "chunk_of e = (case e of BodyData status bytes \<Rightarrow> if success status then Some bytes else None | _ \<Rightarrow> None)"

definition body_of :: "bool \<Rightarrow> curl_event \<Rightarrow> string option" where
  "body_of streaming e =
     (case e of BodyData status bytes \<Rightarrow> if streaming \<and> success status then None else Some bytes | _ \<Rightarrow> None)"

definition header_of :: "curl_event \<Rightarrow> string option" where
  "header_of e = (case e of HeaderLine l \<Rightarrow> Some l | _ \<Rightarrow> None)"

definition header_map :: "string list \<Rightarrow> http_headers" where
  "header_map lines = fold on_header lines (\<lambda>_. None)"

definition response_of :: "bool \<Rightarrow> curl_event list \<Rightarrow> http_response" where
  "response_of streaming es =
     \<lparr>resp_status = 0, resp_headers = header_map (values_of header_of es),
      resp_body = concat (values_of (body_of streaming) es)\<rparr>"

definition curl_send :: "string \<Rightarrow> 'w curl \<Rightarrow> http_request \<Rightarrow> 'w \<Rightarrow> (error + http_response) \<times> 'w" where
  "curl_send version C req w = (let (r, _, w) = perform version C req None () w in (r, w))"

definition curl_stream ::
  "string \<Rightarrow> 'w curl \<Rightarrow> http_request \<Rightarrow> 'w \<Rightarrow> string list \<times> (bool \<Rightarrow> error + http_response) \<times> 'w" where
  "curl_stream version C req w =
     (let (ok, w) = cu_handle C w in
      if \<not> ok then ([], \<lambda>_. Inl (make_error KTransport ''curl_easy_init failed''), w)
      else
        (case append_headers C (req_headers req) [] w of
           (None, w) \<Rightarrow> ([], \<lambda>_. Inl (make_error KTransport ''curl_slist_append failed''), w)
         | (Some lines, w) \<Rightarrow>
             (let (events, ending, w) = cu_perform C (settings_of version req lines True) w
              in (values_of chunk_of events,
                  \<lambda>aborted. transfer_result aborted (ending aborted) (response_of True events), w))))"

text \<open>The transport that the client uses.\<close>

definition curl_transport :: "string \<Rightarrow> 'w curl \<Rightarrow> 'w transport" where
  "curl_transport version C = \<lparr>tr_send = curl_send version C, tr_stream = curl_stream version C\<rparr>"

fun run_chunks :: "('c \<Rightarrow> 's \<Rightarrow> bool \<times> 's) \<Rightarrow> 'c list \<Rightarrow> 's \<Rightarrow> bool \<times> 's" where
  "run_chunks f [] s = (True, s)"
| "run_chunks f (c # cs) s = (let (go_on, s) = f c s in if go_on then run_chunks f cs s else (False, s))"

section \<open>Lemmas\<close>

lemma event_kinds [simp]:
  "chunk_of (HeaderLine l) = None" "body_of b (HeaderLine l) = None" "header_of (HeaderLine l) = Some l"
  "header_of (BodyData status bytes) = None"
  "chunk_of (BodyData status bytes) = (if success status then Some bytes else None)"
  "body_of b (BodyData status bytes) = (if b \<and> success status then None else Some bytes)"
  by (simp_all add: chunk_of_def body_of_def header_of_def)

lemma run_transfer_streaming:
  assumes "\<forall>status. BodyData status [] \<notin> set es"
  shows "\<exists>r. run_transfer (Some f) es \<lparr>cx_response = r0, cx_aborted = False, cx_state = s\<rparr> =
    (let (keep, s') = run_chunks f (values_of chunk_of es) s
     in (\<not> keep, \<lparr>cx_response = r, cx_aborted = \<not> keep, cx_state = s'\<rparr>)) \<and>
    (fst (run_chunks f (values_of chunk_of es) s) \<longrightarrow>
      r = r0\<lparr>resp_headers := fold on_header (values_of header_of es) (resp_headers r0),
             resp_body := resp_body r0 @ concat (values_of (body_of True) es)\<rparr>)"
  using assms
proof (induction es arbitrary: r0 s)
  case (Cons e es)
  have tail: "\<forall>status. BodyData status [] \<notin> set es" using Cons.prems by simp
  show ?case
  proof (cases e)
    case (HeaderLine l)
    with Cons.IH [OF tail, of "r0\<lparr>resp_headers := on_header l (resp_headers r0)\<rparr>" s] show ?thesis by simp
  next
    case (BodyData status bytes)
    then have bytes: "bytes \<noteq> []" using Cons.prems by auto
    show ?thesis
    proof (cases "success status")
      case False
      with BodyData Cons.IH [OF tail, of "r0\<lparr>resp_body := resp_body r0 @ bytes\<rparr>" s] show ?thesis
        by (simp add: on_body_def)
    next
      case True
      show ?thesis
      proof (cases "fst (f bytes s)")
        case go_on: True
        with True BodyData Cons.IH [OF tail, of r0 "snd (f bytes s)"] show ?thesis
          by (simp add: on_body_def case_prod_beta Let_def)
      next
        case False
        with True BodyData bytes show ?thesis by (simp add: on_body_def case_prod_beta Let_def)
      qed
    qed
  qed
qed simp

lemma run_transfer_plain:
  "run_transfer None es ctx =
     (False, ctx\<lparr>cx_response := (cx_response ctx)
        \<lparr>resp_headers := fold on_header (values_of header_of es) (resp_headers (cx_response ctx)),
         resp_body := resp_body (cx_response ctx) @ concat (values_of (body_of False) es)\<rparr>\<rparr>)"
proof (induction es arbitrary: ctx)
  case (Cons e es)
  then show ?case by (cases e) (simp_all add: on_body_def)
qed simp

text \<open>Only the headers of the last response count, and of those with one name the last.\<close>

definition last_block :: "string list \<Rightarrow> string list" where
  "last_block lines = rev (takeWhile (\<lambda>l. \<not> starts_with ''HTTP/'' l) (rev lines))"

definition header_name :: "string \<Rightarrow> string option" where
  "header_name l = map_option (\<lambda>i. map to_lower (take i l)) (find_char (CHR '':'') l)"

definition header_value :: "string \<Rightarrow> string option" where
  "header_value l = map_option (\<lambda>i. trim_value (drop (i + 1) l)) (find_char (CHR '':'') l)"

definition header_of_block :: "string \<Rightarrow> string list \<Rightarrow> string option" where
  "header_of_block k lines =
     (case rev (filter (\<lambda>l. header_name l = Some k) (last_block lines)) of [] \<Rightarrow> None | l # _ \<Rightarrow> header_value l)"

lemma header_map_block: "header_map lines k = header_of_block k lines"
proof (induction lines rule: rev_induct)
  case Nil
  show ?case by (simp add: header_map_def header_of_block_def last_block_def)
next
  case (snoc l lines)
  have map: "header_map (lines @ [l]) = on_header l (header_map lines)" by (simp add: header_map_def)
  show ?case
  proof (cases "starts_with ''HTTP/'' l")
    case True
    then show ?thesis by (simp add: map on_header_def header_of_block_def last_block_def)
  next
    case False
    then have block: "last_block (lines @ [l]) = last_block lines @ [l]" by (simp add: last_block_def)
    show ?thesis
    proof (cases "find_char (CHR '':'') l")
      case None
      with False snoc show ?thesis
        by (simp add: map on_header_def header_of_block_def block header_name_def)
    next
      case (Some i)
      with False snoc show ?thesis
        by (simp add: map on_header_def header_of_block_def block header_name_def header_value_def)
    qed
  qed
qed

lemma curl_okD:
  "curl_ok C \<Longrightarrow> cu_perform C st w = (events, ending, w') \<Longrightarrow>
   ce_code (ending True) \<noteq> CurlOk \<and> (\<forall>status. BodyData status [] \<notin> set events)"
  by (fastforce simp: curl_ok_def dest!: spec split: prod.splits)

section \<open>Properties\<close>


definition scripted_curl :: "unit curl" where
  "scripted_curl =
     \<lparr>cu_handle = (\<lambda>w. (True, w)), cu_append = (\<lambda>ls l w. (True, w)),
      cu_perform = (\<lambda>st w.
        ([HeaderLine ''HTTP/2 200'', HeaderLine ''A: b'', BodyData 200 ''one'', BodyData 200 ''two''],
         \<lambda>stopped. \<lparr>ce_code = (if stopped then CurlError else CurlOk), ce_buffer = [], ce_strerror = ''write'',
                    ce_status = 200\<rparr>, w))\<rparr>"


end
