(* ===== verification/Usage_Text.thy ===== *)
theory Usage_Text
  imports Prelude
begin

text \<open>The help text of \<^verbatim>\<open>apps/main.cpp\<close>, line by line; the version is set by the build.\<close>

definition usage_lines :: "string \<Rightarrow> string list" where
  "usage_lines version =
     [''gemini-cpp '' @ version @ '' - C++ client and coding-agent eval harness for Google Gemini'',
      [],
      ''Usage:'',
      ''  gemini-cpp ask [options] [PROMPT...]     one-shot prompt (reads stdin if PROMPT is empty or -)'',
      ''  gemini-cpp chat [options]                interactive multi-turn chat'',
      ''  gemini-cpp tokens [options] [PROMPT...]  count tokens for a prompt'',
      ''  gemini-cpp models                        list models available to your API key'',
      ''  gemini-cpp eval [options]                have Gemini solve C++ tasks; compile & test the results'',
      [],
      ''Common options:'',
      ''  --model NAME            model to use (default: $GEMINI_MODEL or gemini-2.5-flash)'',
      ''  --system TEXT           system instruction'',
      ''  --temperature X         sampling temperature'',
      ''  --max-tokens N          maximum output tokens'',
      ''  --thinking-budget N     thinking token budget (0 disables thinking where supported)'',
      ''  --log-level LEVEL       debug | info | warn | error | off   (default: warn)'',
      ''  --log-json              emit logs as JSON lines on stderr'',
      [],
      ''ask:'',
      ''  --no-stream             wait for the full response instead of streaming'',
      ''  --json                  ask for a JSON response (responseMimeType=application/json)'',
      ''  --usage                 print token usage to stderr'',
      [],
      ''chat:'',
      ''  --tools                 enable built-in tools (get_current_time, evaluate_expression)'',
      ''  In-chat commands: /reset  /usage  /history  /exit'',
      [],
      ''eval:'',
      ''  --tasks DIR             task directory (default: ./tasks)'',
      ''  --task ID               only run this task (repeatable)'',
      ''  --jobs N                tasks to evaluate in parallel (default: 1)'',
      ''  --repair N              feed failures back to the model up to N times (default: 0)'',
      ''  --sanitize              build tests with AddressSanitizer + UBSan'',
      ''  --reference             evaluate each task'' @ [SQUOTE] @ ''s reference.hpp instead of calling the model'',
      ''  --compiler PATH         C++ compiler (default: $CXX or c++)'',
      ''  --std FLAG              language standard flag (default: -std=c++20)'',
      ''  --work-dir DIR          where per-task build directories are created'',
      ''  --keep                  keep build directories for inspection'',
      ''  --report-json FILE      write the full JSON report (includes sources and logs)'',
      ''  --report-md FILE        write a Markdown summary'',
      ''  --min-pass RATIO        exit 0 if the final pass rate is >= RATIO (default: 1.0)'',
      [],
      ''Environment:'',
      ''  GEMINI_API_KEY          API key (https://aistudio.google.com/apikey); GOOGLE_API_KEY also works'',
      ''  GEMINI_MODEL            default model'',
      ''  GEMINI_BASE_URL         API base URL (default: https://generativelanguage.googleapis.com/v1beta)'']"

definition usage_text :: "string \<Rightarrow> string" where
  "usage_text version = concat (map (\<lambda>l. l @ [NL]) (usage_lines version))"

end
