(* ===== verification/Command_Line.thy ===== *)
theory Command_Line
  imports Cli_Args Logging Usage_Text Chat Parallel_Run
begin

text \<open>
  \<^verbatim>\<open>apps/main.cpp\<close>: the commands of the program.  The console, the environment variables, the file
  system and the machine are parameters.  A command gives how it ends, the state of the logger and that
  of the client; it is \<^const>\<open>None\<close> where it need not end.  A signal may set the flag of an interrupt at
  any time, so that flag is part of the world.
\<close>

section \<open>The outside\<close>

record 'w console =
  con_out :: "string \<Rightarrow> 'w \<Rightarrow> 'w"
  con_err :: "string \<Rightarrow> 'w \<Rightarrow> 'w"
  con_rest :: "'w \<Rightarrow> string \<times> 'w"  \<comment> \<open>all that is left on standard input\<close>
  con_line :: "'w \<Rightarrow> string option \<times> 'w"  \<comment> \<open>\<^verbatim>\<open>std::getline\<close>\<close>
  con_tty :: bool
  con_interrupted :: "'w \<Rightarrow> bool \<times> 'w"
  con_clear :: "'w \<Rightarrow> 'w"
  con_save :: "string \<Rightarrow> string \<Rightarrow> 'w \<Rightarrow> 'w"  \<comment> \<open>writes a file\<close>

text \<open>
  \<open>app_pretty\<close> is \<^verbatim>\<open>dump(2)\<close>, \<^const>\<open>None\<close> when it throws because a string is not valid UTF-8.
\<close>

record ('j, 'w) app =
  app_json :: "'j json_lib"
  app_pretty :: "'j \<Rightarrow> string option"
  app_env :: "'w environment"
  app_math :: math_lib
  app_wall :: "'w \<Rightarrow> int \<times> 'w"
  app_getenv :: "string \<Rightarrow> string option"
  app_files :: file_system
  app_console :: "'w console"
  app_version :: string

datatype ending = Exit int | Escaped failure

definition exit_ok :: int where "exit_ok = 0"
definition exit_failure :: int where "exit_failure = 1"
definition exit_usage :: int where "exit_usage = 2"

type_synonym 'w ended = "ending \<times> log_state \<times> 'w client_state"

definition say :: "('j, 'w) app \<Rightarrow> string \<Rightarrow> 'w client_state \<Rightarrow> 'w client_state" where
  "say A t s = s\<lparr>world := con_out (app_console A) t (world s)\<rparr>"

definition complain :: "('j, 'w) app \<Rightarrow> string \<Rightarrow> 'w client_state \<Rightarrow> 'w client_state" where
  "complain A t s = s\<lparr>world := con_err (app_console A) t (world s)\<rparr>"

section \<open>What the commands share\<close>

definition common_values :: "string set" where
  "common_values = {''model'', ''system'', ''temperature'', ''max-tokens'', ''thinking-budget'', ''log-level''}"

definition common_flags :: "string set" where
  "common_flags = {''log-json'', ''help''}"

definition make_spec :: "string set \<Rightarrow> string set \<Rightarrow> args_spec" where
  "make_spec vs fs = \<lparr>value_options = vs \<union> common_values, flag_options = fs \<union> common_flags\<rparr>"

definition usage_error :: "('j, 'w) app \<Rightarrow> string \<Rightarrow> log_state \<Rightarrow> 'w client_state \<Rightarrow> 'w ended" where
  "usage_error A m g s =
     (Exit exit_usage, g,
      complain A (''gemini-cpp: '' @ m @ [NL] @ ''Run '' @ [SQUOTE] @ ''gemini-cpp --help'' @ [SQUOTE] @
        '' for usage.'' @ [NL]) s)"

text \<open>An error ends the command with a message; an exception ends the program.\<close>

definition api_failure :: "('j, 'w) app \<Rightarrow> failure \<Rightarrow> log_state \<Rightarrow> 'w client_state \<Rightarrow> 'w ended" where
  "api_failure A f g s =
     (case f of
        Failed e \<Rightarrow> (Exit exit_failure, g, complain A (''gemini-cpp: '' @ describe e @ [NL]) s)
      | _ \<Rightarrow> (Escaped f, g, s))"

definition set_log_level :: "args \<Rightarrow> log_state \<Rightarrow> string + log_state" where
  "set_log_level x g =
     (case get_arg x ''log-level'' of
        None \<Rightarrow> Inr g
      | Some t \<Rightarrow>
          (case parse_level t of
             None \<Rightarrow> Inl (''invalid --log-level '' @ [SQUOTE] @ t @ [SQUOTE])
           | Some l \<Rightarrow> Inr (g\<lparr>log_level := l\<rparr>)))"

definition apply_common ::
  "args \<Rightarrow> 'j generation_config \<Rightarrow> log_state \<Rightarrow> (string + 'j generation_config) \<times> log_state" where
  "apply_common x c g =
     (case set_log_level x g of
        Inl m \<Rightarrow> (Inl m, g)
      | Inr g \<Rightarrow>
          (let g = g\<lparr>log_json := has_flag x ''log-json''\<rparr> in
           (case get_double x ''temperature'' (temperature c) of
              Inl m \<Rightarrow> Inl m
            | Inr t \<Rightarrow>
                (case get_int x ''max-tokens'' (max_output_tokens c) of
                   Inl m \<Rightarrow> Inl m
                 | Inr n \<Rightarrow>
                     (case get_int x ''thinking-budget'' (thinking_budget c) of
                        Inl m \<Rightarrow> Inl m
                      | Inr b \<Rightarrow> Inr (c\<lparr>temperature := t, max_output_tokens := n, thinking_budget := b\<rparr>))),
            g)))"

definition make_client :: "('j, 'w) app \<Rightarrow> args \<Rightarrow> client_options result" where
  "make_client A x =
     bind_result (from_env (app_getenv A))
       (\<lambda>opts. Inr (new_client (case get_arg x ''model'' of Some m \<Rightarrow> opts\<lparr>model := m\<rparr> | None \<Rightarrow> opts)))"

text \<open>The words with blanks between them; a blank also follows an empty first word only if text precedes it.\<close>

definition join_words :: "string list \<Rightarrow> string" where
  "join_words ws = foldl (\<lambda>p w. (if p \<noteq> [] then p @ [SP] else p) @ w) [] ws"

definition prompt_from :: "('j, 'w) app \<Rightarrow> args \<Rightarrow> 'w client_state \<Rightarrow> string \<times> 'w client_state" where
  "prompt_from A x s =
     (if positional x = [] \<or> positional x = [''-''] then
        (let (t, w) = con_rest (app_console A) (world s) in (t, s\<lparr>world := w\<rparr>))
      else (join_words (positional x), s))"

definition usage_line :: "usage_metadata \<Rightarrow> string" where
  "usage_line u =
     ''[tokens] prompt='' @ int_to_string (prompt_tokens u) @ '' output='' @ int_to_string (candidates_tokens u) @
     (if thoughts_tokens u \<noteq> 0 then '' thinking='' @ int_to_string (thoughts_tokens u) else []) @
     '' total='' @ int_to_string (total_tokens u) @ [NL]"

definition stdout_printer :: "('j, 'w) app \<Rightarrow> ('j, 'w) stream_callback" where
  "stdout_printer A r w =
     (let (stopped, w) = con_interrupted (app_console A) w in
      if stopped then (False, w)
      else
        (True, case candidates r of
                 [] \<Rightarrow> w
               | c # _ \<Rightarrow> con_out (app_console A) (content_text (cand_content c)) w))"

text \<open>
  The arguments of a command and what \<open>apply_common\<close> makes of them: every command starts like this.
\<close>

definition read_options ::
  "('j, 'w) app \<Rightarrow> args_spec \<Rightarrow> string list \<Rightarrow> log_state \<Rightarrow> (string + args \<times> 'j generation_config) \<times> log_state" where
  "read_options A spec as g =
     (case parse_args spec False as no_args of
        (Some m, x) \<Rightarrow> (Inl m, g)
      | (None, x) \<Rightarrow>
          (case apply_common x (plain_config (app_json A)) g of
             (Inl m, g) \<Rightarrow> (Inl m, g)
           | (Inr c, g) \<Rightarrow> (Inr (x, c), g)))"

definition one_message :: "string \<Rightarrow> args \<Rightarrow> 'j generation_config \<Rightarrow> 'j generate_request" where
  "one_message t x c =
     \<lparr>contents = [user_content t], system_instruction = map_option user_content (get_arg x ''system''),
      tools = [], config = c, safety_settings = []\<rparr>"

section \<open>ask\<close>

definition blank_text :: "string \<Rightarrow> bool" where
  "blank_text t \<longleftrightarrow> list_all (\<lambda>c. c = SP \<or> c = TAB \<or> c = CR \<or> c = NL) t"

definition ask_model ::
  "('j, 'w) app \<Rightarrow> args \<Rightarrow> client_options \<Rightarrow> 'j generate_request \<Rightarrow> 'w client_state \<Rightarrow>
   'j generate_response result \<times> 'w client_state" where
  "ask_model A x opts request s =
     (if has_flag x ''no-stream'' then
        (case generate (app_json A) (app_env A) opts request s of
           (Inr r, s) \<Rightarrow> (Inr r, say A (response_text r) s)
         | (Inl f, s) \<Rightarrow> (Inl f, s))
      else
        (let (r, _, s) = stream (app_json A) (app_env A) opts request (Some (stdout_printer A)) s in (r, s)))"

definition ask_notes ::
  "('j, 'w) app \<Rightarrow> args \<Rightarrow> 'j generate_response \<Rightarrow> 'w client_state \<Rightarrow> 'w client_state" where
  "ask_notes A x r s =
     (let (stopped, w) = con_interrupted (app_console A) (world s);
          s = s\<lparr>world := w\<rparr>;
          s = (if stopped then complain A (''[interrupted]'' @ [NL]) s else s);
          s = (if response_finish_reason r = ''MAX_TOKENS''
               then complain A (''[truncated: hit max output tokens]'' @ [NL]) s else s)
      in if has_flag x ''usage'' then complain A (usage_line (usage r)) s else s)"

definition cmd_ask :: "('j, 'w) app \<Rightarrow> string list \<Rightarrow> log_state \<Rightarrow> 'w client_state \<Rightarrow> 'w ended" where
  "cmd_ask A as g s =
     (case read_options A (make_spec {} {''no-stream'', ''json'', ''usage''}) as g of
        (Inl m, g) \<Rightarrow> usage_error A m g s
      | (Inr (x, c), g) \<Rightarrow>
          (let c = (if has_flag x ''json'' then c\<lparr>response_mime_type := Some ''application/json''\<rparr> else c);
               (t, s) = prompt_from A x s
           in if blank_text t then usage_error A ''empty prompt'' g s
              else
                (case make_client A x of
                   Inl f \<Rightarrow> api_failure A f g s
                 | Inr opts \<Rightarrow>
                     (case ask_model A x opts (one_message t x c) s of
                        (Inl (Failed e), s) \<Rightarrow> api_failure A (Failed e) g (say A [NL] s)
                      | (Inl f, s) \<Rightarrow> (Escaped f, g, s)
                      | (Inr r, s) \<Rightarrow> (Exit exit_ok, g, ask_notes A x r (say A [NL] s))))))"

section \<open>tokens and models\<close>

definition cmd_tokens :: "('j, 'w) app \<Rightarrow> string list \<Rightarrow> log_state \<Rightarrow> 'w client_state \<Rightarrow> 'w ended" where
  "cmd_tokens A as g s =
     (case read_options A (make_spec {} {}) as g of
        (Inl m, g) \<Rightarrow> usage_error A m g s
      | (Inr (x, c), g) \<Rightarrow>
          (let (t, s) = prompt_from A x s in
           case make_client A x of
             Inl f \<Rightarrow> api_failure A f g s
           | Inr opts \<Rightarrow>
               (case count_tokens (app_json A) (app_env A) opts (one_message t x (plain_config (app_json A))) s of
                  (Inl f, s) \<Rightarrow> api_failure A f g s
                | (Inr n, s) \<Rightarrow> (Exit exit_ok, g, say A (int_to_string n @ [NL]) s))))"

definition pad_right :: "nat \<Rightarrow> string \<Rightarrow> string" where
  "pad_right n t = t @ replicate (n - length t) SP"

definition model_line :: "model_info \<Rightarrow> string" where
  "model_line m =
     pad_right 40 (if starts_with ''models/'' (mi_name m) then drop 7 (mi_name m) else mi_name m) @ '' in='' @
     pad_right 8 (int_to_string (mi_input_token_limit m)) @ '' out='' @
     pad_right 7 (int_to_string (mi_output_token_limit m)) @ '' '' @ mi_display_name m @ [NL]"

definition shown_model :: "args \<Rightarrow> model_info \<Rightarrow> bool" where
  "shown_model x m \<longleftrightarrow> ''generateContent'' \<in> set (mi_supported_methods m) \<or> has_flag x ''all''"

definition cmd_models :: "('j, 'w) app \<Rightarrow> string list \<Rightarrow> log_state \<Rightarrow> 'w client_state \<Rightarrow> 'w ended option" where
  "cmd_models A as g s =
     (case read_options A (make_spec {} {''all''}) as g of
        (Inl m, g) \<Rightarrow> Some (usage_error A m g s)
      | (Inr (x, c), g) \<Rightarrow>
          (case make_client A x of
             Inl f \<Rightarrow> Some (api_failure A f g s)
           | Inr opts \<Rightarrow>
               map_option
                 (\<lambda>(r, s). case r of
                    Inl f \<Rightarrow> api_failure A f g s
                  | Inr ms \<Rightarrow> (Exit exit_ok, g, fold (\<lambda>m. say A (model_line m)) (filter (shown_model x) ms) s))
                 (list_models (app_json A) (app_env A) opts s)))"

section \<open>chat\<close>

definition ESC :: char where "ESC = CHR 0x1B"

text \<open>The observer of the tool calls: what it prints with \<^verbatim>\<open>dump()\<close> is written piece by piece, so an
  exception leaves the line unfinished.\<close>

definition show_tool_call ::
  "('j, 'w) app \<Rightarrow> 'j function_call \<Rightarrow> 'j function_response \<Rightarrow> 'w \<Rightarrow> string option \<times> 'w" where
  "show_tool_call A call r w =
     (let w = con_err (app_console A) (''  '' @ [ESC] @ ''[2m-> '' @ fc_name call @ ''('') w in
      case json_dump (app_json A) (fc_args call) of
        None \<Rightarrow> (Some ''type_error.316'', w)
      | Some args \<Rightarrow>
          (let w = con_err (app_console A) (args @ '') = '') w in
           case json_dump (app_json A) (fr_response r) of
             None \<Rightarrow> (Some ''type_error.316'', w)
           | Some body \<Rightarrow> (None, con_err (app_console A) (body @ [ESC] @ ''[0m'' @ [NL]) w)))"

definition chat_of ::
  "('j, 'w) app \<Rightarrow> args \<Rightarrow> 'j generation_config \<Rightarrow> client_options \<Rightarrow> ('j, 'w) chat_setting" where
  "chat_of A x c opts =
     \<lparr>chat_json = app_json A, chat_env = app_env A, chat_client = opts,
      chat_opts = \<lparr>chat_system = get_arg x ''system'', chat_config = c, max_tool_rounds = 8\<rparr>,
      chat_registry =
        (if has_flag x ''tools'' then Some (register_defaults (app_json A) (app_math A) (app_wall A) []) else None),
      observer = Some (show_tool_call A)\<rparr>"

definition history_line :: "'j content \<Rightarrow> string" where
  "history_line m =
     role_to_string (role m) @ '': '' @ content_text m @
     (if content_text m = [] then ''<tool data>'' else []) @ [NL]"

definition start_reply :: "('j, 'w) app \<Rightarrow> 'w client_state \<Rightarrow> 'w client_state" where
  "start_reply A s =
     (let s = s\<lparr>world := con_clear (app_console A) (world s)\<rparr>
      in if con_tty (app_console A) then complain A ([ESC] @ ''[1mgemini>'' @ [ESC] @ ''[0m '') s else s)"

text \<open>One line of the user: the loop goes on with a session, or it is left.\<close>

definition chat_line ::
  "('j, 'w) app \<Rightarrow> ('j, 'w) chat_setting \<Rightarrow> string \<Rightarrow> 'j chat_session \<Rightarrow> 'w client_state \<Rightarrow>
   (ending + 'j chat_session) \<times> 'w client_state" where
  "chat_line A S l c s =
     (if list_all (\<lambda>x. x = SP \<or> x = TAB) l then (Inr c, s)
      else if l = ''/exit'' \<or> l = ''/quit'' then (Inl (Exit exit_ok), s)
      else if l = ''/reset'' then (Inr (reset_session c), complain A (''[history cleared]'' @ [NL]) s)
      else if l = ''/usage'' then (Inr c, complain A (usage_line (total_usage c)) s)
      else if l = ''/history'' then (Inr c, fold (\<lambda>m. complain A (history_line m)) (history c) s)
      else
        (let (reply, c, s) = send S (Some (stdout_printer A)) l c (start_reply A s)
         in case reply of
              Inr r \<Rightarrow> (Inr c, say A [NL] s)
            | Inl (Failed e) \<Rightarrow>
                (Inr c, complain A
                   (if code e = KCancelled then ''[cancelled]'' @ [NL] else ''error: '' @ describe e @ [NL])
                   (say A [NL] s))
            | Inl f \<Rightarrow> (Inl (Escaped f), s)))"

definition read_line :: "('j, 'w) app \<Rightarrow> 'w client_state \<Rightarrow> string option \<times> 'w client_state" where
  "read_line A s =
     (let s = (if con_tty (app_console A) then complain A ([ESC] @ ''[1myou>'' @ [ESC] @ ''[0m '') s else s);
          (l, w) = con_line (app_console A) (world s)
      in (l, s\<lparr>world := w\<rparr>))"

partial_function (option) chat_loop ::
  "('j, 'w) app \<Rightarrow> ('j, 'w) chat_setting \<Rightarrow> 'j chat_session \<Rightarrow> 'w client_state \<Rightarrow> (ending \<times> 'w client_state) option"
where
  "chat_loop A S c s =
     (case read_line A s of
        (None, s) \<Rightarrow> Some (Exit exit_ok, s)
      | (Some l, s) \<Rightarrow>
          (case chat_line A S l c s of
             (Inl e, s) \<Rightarrow> Some (e, s)
           | (Inr c, s) \<Rightarrow> chat_loop A S c s))"

definition greeting :: "args \<Rightarrow> client_options \<Rightarrow> string" where
  "greeting x opts =
     ''gemini-cpp chat with '' @ model opts @ (if has_flag x ''tools'' then '' (tools enabled)'' else []) @
     ''. Ctrl-C cancels a reply, Ctrl-D or /exit quits.'' @ [NL]"

definition cmd_chat :: "('j, 'w) app \<Rightarrow> string list \<Rightarrow> log_state \<Rightarrow> 'w client_state \<Rightarrow> 'w ended option" where
  "cmd_chat A as g s =
     (case read_options A (make_spec {} {''tools''}) as g of
        (Inl m, g) \<Rightarrow> Some (usage_error A m g s)
      | (Inr (x, c), g) \<Rightarrow>
          (case make_client A x of
             Inl f \<Rightarrow> Some (api_failure A f g s)
           | Inr opts \<Rightarrow>
               (let s = (if con_tty (app_console A) then complain A (greeting x opts) s else s)
                in map_option (\<lambda>(e, s). (e, g, s)) (chat_loop A (chat_of A x c opts) new_session s))))"

section \<open>eval\<close>

definition eval_spec :: args_spec where
  "eval_spec =
     make_spec {''tasks'', ''task'', ''jobs'', ''repair'', ''compiler'', ''std'', ''work-dir'', ''report-json'',
                ''report-md'', ''min-pass''} {''sanitize'', ''reference'', ''keep''}"

text \<open>The numbers: parallel jobs, repair rounds and the pass rate that is asked for.\<close>

definition eval_numbers :: "args \<Rightarrow> string + int option \<times> int option \<times> double option" where
  "eval_numbers x =
     (case get_int x ''jobs'' None of
        Inl m \<Rightarrow> Inl m
      | Inr j \<Rightarrow>
          (case get_int x ''repair'' None of
             Inl m \<Rightarrow> Inl m
           | Inr k \<Rightarrow>
               (case get_double x ''min-pass'' None of
                  Inl m \<Rightarrow> Inl m
                | Inr d \<Rightarrow> Inr (j, k, d))))"

definition or_else :: "'a option \<Rightarrow> 'a \<Rightarrow> 'a" where
  "or_else x d = (case x of Some v \<Rightarrow> v | None \<Rightarrow> d)"

definition eval_options ::
  "('j, 'w) app \<Rightarrow> args \<Rightarrow> 'j generation_config \<Rightarrow> int option \<Rightarrow> int option \<Rightarrow> 'j runner_options" where
  "eval_options A x c j k =
     \<lparr>compiler = get_or x ''compiler'' (env_or (app_getenv A) ''CXX'' ''c++''),
      std_flag = get_or x ''std'' ''-std=c++20'', extra_flags = [], sanitize = has_flag x ''sanitize'',
      repair_rounds = or_else k 0, jobs = or_else j 1, work_root = or_else (get_arg x ''work-dir'') [],
      keep_workdirs = has_flag x ''keep'', use_reference = has_flag x ''reference'', compile_timeout = 120000,
      startup_grace = 60000, max_log_bytes = 6000, generation = c\<rparr>"

definition select_tasks :: "args \<Rightarrow> task list \<Rightarrow> task list" where
  "select_tasks x ts =
     (let only = get_all x ''task'' in if only = [] then ts else filter (\<lambda>t. task_id t \<in> set only) ts)"

text \<open>What the runner is started with.\<close>

record ('j, 'w) eval_run =
  er_args :: args
  er_options :: "'j runner_options"
  er_tasks :: "task list"
  er_model :: "('j, 'w) model_access option"
  er_min_pass :: "double option"

definition eval_client :: "('j, 'w) app \<Rightarrow> args \<Rightarrow> 'j runner_options \<Rightarrow> ('j, 'w) model_access option result" where
  "eval_client A x opts =
     (if use_reference opts then Inr None
      else bind_result (make_client A x)
             (\<lambda>c. Inr (Some \<lparr>ma_json = app_json A, ma_env = app_env A, ma_client = c\<rparr>)))"

definition eval_banner :: "('j, 'w) eval_run \<Rightarrow> string" where
  "eval_banner E =
     ''Evaluating '' @ nat_to_string (length (er_tasks E)) @ '' task(s) with '' @
     (case er_model E of None \<Rightarrow> ''reference solutions'' | Some M \<Rightarrow> model (ma_client M)) @
     '' (jobs='' @ int_to_string (jobs (er_options E)) @ '', repair='' @
     int_to_string (repair_rounds (er_options E)) @ (if sanitize (er_options E) then '', sanitizers'' else []) @
     '')'' @ [NL]"

definition eval_setup ::
  "('j, 'w) app \<Rightarrow> string list \<Rightarrow> log_state \<Rightarrow> 'w client_state \<Rightarrow>
   'w ended + ('j, 'w) eval_run \<times> log_state \<times> 'w client_state" where
  "eval_setup A as g s =
     (case read_options A eval_spec as g of
        (Inl m, g) \<Rightarrow> Inl (usage_error A m g s)
      | (Inr (x, c), g) \<Rightarrow>
          (case eval_numbers x of
             Inl m \<Rightarrow> Inl (usage_error A m g s)
           | Inr (j, k, min_pass) \<Rightarrow>
               (let opts = eval_options A x c j k in
                case load_tasks (app_json A) (app_files A) (get_or x ''tasks'' ''tasks'') of
                  Inl f \<Rightarrow> Inl (api_failure A f g s)
                | Inr ts \<Rightarrow>
                    (let ts = select_tasks x ts in
                     if ts = [] then Inl (usage_error A ''no tasks selected'' g s)
                     else
                       (case eval_client A x opts of
                          Inl f \<Rightarrow> Inl (api_failure A f g s)
                        | Inr M \<Rightarrow>
                            (let E = \<lparr>er_args = x, er_options = opts, er_tasks = ts, er_model = M,
                                      er_min_pass = min_pass\<rparr>
                             in Inr (E, g, complain A (eval_banner E) s)))))))"

text \<open>The lines of a text as \<^verbatim>\<open>std::getline\<close> gives them.\<close>

definition get_lines :: "string \<Rightarrow> string list" where
  "get_lines t = (let ls = split_on NL t in if last ls = [] then butlast ls else ls)"

text \<open>The callback of the runner, for the task that is the \<open>n\<close>-th to be done.\<close>

definition progress_text :: "nat \<Rightarrow> nat \<Rightarrow> task_result \<Rightarrow> string" where
  "progress_text n all_of r =
     ''['' @ nat_to_string n @ ''/'' @ nat_to_string all_of @ ''] '' @ tr_task r @ '': '' @
     [ESC] @ (if passed r then ''[32m'' else ''[31m'') @ outcome_to_string (tr_outcome r) @ [ESC] @ ''[0m'' @
     '' ('' @ nat_to_string (length (attempts_of r)) @ '' attempt'' @
     (if length (attempts_of r) = 1 then [] else ''s'') @ '')'' @ [NL] @
     (if \<not> passed r \<and> attempts_of r \<noteq> [] then
        concat (map (\<lambda>l. ''      '' @ l @ [NL]) (take 6 (get_lines (at_detail (last (attempts_of r))))))
      else [])"

definition exit_code_of :: "'j report \<Rightarrow> double option \<Rightarrow> int" where
  "exit_code_of rep min_pass =
     (let rate = d_div (double_of_int (int (passed_count rep))) (double_of_int (int (length (results rep))))
      in if d_le (or_else min_pass (double_of_int 1)) (d_add rate (double_of_rat (1 / 10 ^ 9)))
         then exit_ok else exit_failure)"

definition word_to_string :: "64 word \<Rightarrow> string" where
  "word_to_string w = nat_to_string (unat w)"

definition metrics_line :: "metrics \<Rightarrow> string" where
  "metrics_line m =
     ''[api] requests='' @ word_to_string (requests m) @ '' attempts='' @ word_to_string (attempts m) @
     '' retries='' @ word_to_string (retries m) @ '' failures='' @ word_to_string (failures m) @
     '' latency_ms='' @ word_to_string (latency_total m) @ [NL]"

definition save_file :: "('j, 'w) app \<Rightarrow> string \<Rightarrow> string \<Rightarrow> 'w client_state \<Rightarrow> 'w client_state" where
  "save_file A path t s = s\<lparr>world := con_save (app_console A) path t (world s)\<rparr>"

text \<open>The file is opened before the report is printed, and stays empty if that throws.\<close>

definition write_json_report ::
  "('j, 'w) app \<Rightarrow> ('j, 'w) eval_run \<Rightarrow> 'j report \<Rightarrow> 'w client_state \<Rightarrow> bool \<times> 'w client_state" where
  "write_json_report A E rep s =
     (case get_arg (er_args E) ''report-json'' of
        None \<Rightarrow> (True, s)
      | Some path \<Rightarrow>
          (case app_pretty A (report_to_json (app_json A) rep) of
             None \<Rightarrow> (False, save_file A path [] s)
           | Some t \<Rightarrow> (True, save_file A path (t @ [NL]) s)))"

text \<open>What follows the run: the report on standard output and in files, the counters, the exit code.\<close>

definition eval_finish ::
  "('j, 'w) app \<Rightarrow> ('j, 'w) eval_run \<Rightarrow> 'j report \<Rightarrow> log_state \<Rightarrow> 'w client_state \<Rightarrow> 'w ended" where
  "eval_finish A E rep g s =
     (let s = say A (report_to_markdown rep) s;
          s = (case get_arg (er_args E) ''report-md'' of
                 None \<Rightarrow> s
               | Some path \<Rightarrow> save_file A path (report_to_markdown rep) s)
      in case write_json_report A E rep s of
           (False, s) \<Rightarrow> (Escaped (Thrown ''type_error.316''), g, s)
         | (True, s) \<Rightarrow>
             (Exit (exit_code_of rep (er_min_pass E)), g,
              if er_model E \<noteq> None then complain A (metrics_line (metrics s)) s else s))"

text \<open>
  The command as a relation, since the workers run in parallel: \<open>cmd_eval \<dots> e\<close> when it can end with \<open>e\<close>.
  The client and the console are in any state when the runner has joined its workers.
\<close>

definition cmd_eval ::
  "('j, 'w) app \<Rightarrow> 'w host \<Rightarrow> string \<Rightarrow> string list \<Rightarrow> log_state \<Rightarrow> 'w client_state \<Rightarrow> ending \<Rightarrow> bool" where
  "cmd_eval A H tmp as g s e \<longleftrightarrow>
     (case eval_setup A as g s of
        Inl (e', _, _) \<Rightarrow> e = e'
      | Inr (E, g', _) \<Rightarrow>
          (\<exists>p now start stop s'.
             let opts = new_runner tmp (er_options E)
             in reachable (task_runs H (er_model E) opts) (er_tasks E) True (jobs opts) p \<and> all_finished p \<and>
                e = fst (eval_finish A E (run_report (er_model E) opts now start stop p) g' s')))"

section \<open>main\<close>

text \<open>Which command the arguments of the process (its name first) ask for.\<close>

datatype request = Help | Version | NoCommand | Unknown string | Run string "string list"

definition requested :: "string list \<Rightarrow> request" where
  "requested argv =
     (case argv of
        prog # command # as \<Rightarrow>
          (if command \<in> {''--help'', ''-h'', ''help''} then Help
           else if command \<in> {''--version'', ''version''} then Version
           else if ''--help'' \<in> set as then Help
           else if command \<in> {''ask'', ''chat'', ''tokens'', ''models'', ''eval''} then Run command as
           else Unknown command)
      | _ \<Rightarrow> NoCommand)"

text \<open>\<open>main\<close> can end with \<open>e\<close>.\<close>

definition main_ends ::
  "('j, 'w) app \<Rightarrow> 'w host \<Rightarrow> string \<Rightarrow> string list \<Rightarrow> 'w \<Rightarrow> ending \<Rightarrow> bool" where
  "main_ends A H tmp argv w e \<longleftrightarrow>
     (let s = start_state w in
      case requested argv of
        Help \<Rightarrow> e = Exit exit_ok
      | Version \<Rightarrow> e = Exit exit_ok
      | NoCommand \<Rightarrow> e = Exit exit_usage
      | Unknown c \<Rightarrow>
          e = fst (usage_error A (''unknown command '' @ [SQUOTE] @ c @ [SQUOTE]) initial_log s)
      | Run c as \<Rightarrow>
          if c = ''ask'' then e = fst (cmd_ask A as initial_log s)
          else if c = ''chat'' then map_option fst (cmd_chat A as initial_log s) = Some e
          else if c = ''tokens'' then e = fst (cmd_tokens A as initial_log s)
          else if c = ''models'' then map_option fst (cmd_models A as initial_log s) = Some e
          else cmd_eval A H tmp as initial_log s e)"

text \<open>What it prints itself.\<close>

definition main_output :: "('j, 'w) app \<Rightarrow> string list \<Rightarrow> 'w client_state \<Rightarrow> 'w client_state" where
  "main_output A argv s =
     (case requested argv of
        Help \<Rightarrow> say A (usage_text (app_version A)) s
      | Version \<Rightarrow> say A (''gemini-cpp '' @ app_version A @ [NL]) s
      | NoCommand \<Rightarrow> complain A (usage_text (app_version A)) s
      | Unknown c \<Rightarrow>
          snd (snd (usage_error A (''unknown command '' @ [SQUOTE] @ c @ [SQUOTE]) initial_log s))
      | Run c as \<Rightarrow> s)"

section \<open>The pass rate\<close>

lemma round_mag_between:
  assumes "representable lo" "representable hi" "lo \<le> q" "q \<le> hi"
  shows "lo \<le> round_mag q \<and> round_mag q \<le> hi"
  using assms round_mag_mono round_mag_representable by metis

lemma representable_scaled: "0 \<le> m \<Longrightarrow> m < 2 ^ 53 \<Longrightarrow> - 1074 \<le> e \<Longrightarrow> representable (of_int m * pow2 e)"
  unfolding representable_def by blast

lemma representable_small: "representable 1" "representable 2"
  using representable_of_int [of 1] representable_of_int [of 2] by simp_all

lemma mk_double_small: "q \<le> 2 \<Longrightarrow> mk_double sg q = Fin sg (round_mag q)"
proof -
  assume "q \<le> 2"
  then have "round_mag q \<le> 2"
    using round_mag_mono [of q 2] round_mag_representable [OF representable_small(2)] by simp
  also have "(2 :: rat) < pow2 1024" using pow2_less_iff [of 1 1024] by (simp add: pow2_def)
  finally show ?thesis by (simp add: mk_double_def)
qed

text \<open>\<open>1e-9\<close> as a double, between two powers of two.\<close>

lemma nano_bounds: "pow2 (- 30) \<le> round_mag (1 / 10 ^ 9) \<and> round_mag (1 / 10 ^ 9) \<le> pow2 (- 29)"
proof (rule round_mag_between)
  show "representable (pow2 (- 30))" "representable (pow2 (- 29))"
    using representable_scaled [of 1 "- 30"] representable_scaled [of 1 "- 29"] by simp_all
  show "pow2 (- 30) \<le> 1 / 10 ^ 9" "1 / 10 ^ 9 \<le> pow2 (- 29)" by (simp_all add: pow2_def)
qed

lemma nano_double: "double_of_rat (1 / 10 ^ 9) = Fin False (round_mag (1 / 10 ^ 9))"
  by (simp add: double_of_rat_def mk_double_small)

text \<open>Up to \<open>2^27\<close> tasks, adding a billionth does not lift a rate below one to one.\<close>

lemma rate_reaches_one:
  assumes "k \<le> n" "0 < n" "n \<le> 2 ^ 27"
  shows "d_le (double_of_int 1)
      (d_add (d_div (double_of_int (int k)) (double_of_int (int n))) (double_of_rat (1 / 10 ^ 9))) \<longleftrightarrow> k = n"
proof -
  let ?q = "of_nat k / of_nat n :: rat" and ?c = "round_mag (1 / 10 ^ 9)"
  let ?r = "round_mag ?q + ?c"
  have small: "k < 2 ^ 53" "n < 2 ^ 53" using assms by simp_all
  have q: "0 \<le> ?q" "?q \<le> 1" using assms by simp_all
  have c: "0 < ?c" "?c \<le> pow2 (- 29)" using nano_bounds pow2_pos [of "- 30"] by linarith+
  have "round_mag ?q \<le> 1"
    using round_mag_mono [OF q(2)] round_mag_representable [OF representable_small(1)] by simp
  moreover have "pow2 (- 29) \<le> 1" by (simp add: pow2_def)
  ultimately have r: "0 < ?r" "?r \<le> 2" using c round_mag_nonneg [of ?q] by linarith+
  have div: "d_div (double_of_int (int k)) (double_of_int (int n)) = Fin False (round_mag ?q)"
  proof -
    have "mk_double False ?q = Fin False (round_mag ?q)" using q(2) by (intro mk_double_small) linarith
    then show ?thesis using assms(2) small by (simp add: double_of_int_nat)
  qed
  have sum: "d_add (Fin False (round_mag ?q)) (Fin False ?c) = Fin False (round_mag ?r)"
    using r by (simp add: signed_val_def Let_def double_of_rat_def mk_double_small)
  have one: "double_of_int 1 = Fin False 1" using double_of_int_nat [of 1] by simp
  have "1 \<le> round_mag ?r \<longleftrightarrow> k = n"
  proof
    assume "k = n"
    then have "?q = 1" using assms(2) by simp
    then have "round_mag ?q = 1" using round_mag_representable [OF representable_small(1)] by simp
    then have "1 \<le> ?r" using c(1) by simp
    then show "1 \<le> round_mag ?r"
      using round_mag_mono [of 1 ?r] round_mag_representable [OF representable_small(1)] by simp
  next
    let ?B = "of_int (2 ^ 27 - 1) * pow2 (- 27)" and ?T = "of_int (2 ^ 29 - 3) * pow2 (- 29)"
    assume reached: "1 \<le> round_mag ?r"
    show "k = n"
    proof (rule ccontr)
      assume "k \<noteq> n"
      with assms(1) have "of_nat k + 1 \<le> (of_nat n :: rat)" by (simp add: of_nat_less_iff flip: of_nat_Suc)
      then have "?q \<le> (of_nat n - 1) / of_nat n" using assms(2) by (simp add: divide_right_mono)
      also have "\<dots> = 1 - 1 / of_nat n" using assms(2) by (simp add: field_simps)
      also have "\<dots> \<le> 1 - 1 / 2 ^ 27"
      proof -
        have "(of_nat n :: rat) \<le> of_nat (2 ^ 27)" using assms(3) by (simp only: of_nat_le_iff)
        then have "1 / 2 ^ 27 \<le> 1 / (of_nat n :: rat)" using assms(2) by (intro divide_left_mono) simp_all
        then show ?thesis by simp
      qed
      also have "\<dots> = ?B" by (simp add: pow2_def)
      finally have "round_mag ?q \<le> ?B"
        using round_mag_mono [of ?q ?B] round_mag_representable [OF representable_scaled [of "2 ^ 27 - 1" "- 27"]] by simp
      moreover have "?B + pow2 (- 29) = ?T" by (simp add: pow2_def)
      ultimately have "?r \<le> ?T" using c(2) by linarith
      then have "round_mag ?r \<le> ?T"
        using round_mag_mono [of ?r ?T] round_mag_representable [OF representable_scaled [of "2 ^ 29 - 3" "- 29"]] by simp
      moreover have "?T < 1" by (simp add: pow2_def)
      ultimately show False using reached by simp
    qed
  qed
  then show ?thesis unfolding div nano_double sum one by (auto simp: d_le_def signed_val_def)
qed


text \<open>Without \<^verbatim>\<open>--min-pass\<close> the program succeeds when every task has passed.\<close>

lemma exit_code_all:
  assumes "results rep \<noteq> []" "length (results rep) \<le> 2 ^ 27"
  shows "exit_code_of rep None = (if list_all passed (results rep) then exit_ok else exit_failure)"
proof -
  let ?rs = "results rep"
  have count: "passed_count rep = length (filter passed ?rs)"
    by (simp add: passed_count_def count_outcome_filter passed_def [abs_def])
  have "length (filter passed ?rs) = length ?rs \<longleftrightarrow> list_all passed ?rs"
    by (metis filter_id_conv length_filter_less list_all_iff nless_le)
  then show ?thesis
    using rate_reaches_one [of "passed_count rep" "length ?rs"] assms
    by (simp add: exit_code_of_def or_else_def count Let_def)
qed

lemma eval_setup_tasks: "eval_setup A as g s = Inr (E, g', s') \<Longrightarrow> er_tasks E \<noteq> []"
  by (auto simp: eval_setup_def Let_def split: prod.splits sum.splits if_splits)

lemma eval_finish_ends:
  assumes "\<forall>j. app_pretty A j \<noteq> None"
  shows "fst (eval_finish A E rep g s) = Exit (exit_code_of rep (er_min_pass E))"
proof -
  have "fst (write_json_report A E rep s0)" for s0
    using assms [rule_format, of "report_to_json (app_json A) rep"]
    by (auto simp: write_json_report_def split: option.split)
  then show ?thesis by (auto simp: eval_finish_def Let_def prod.case_eq_if split: bool.split)
qed

section \<open>One evaluation\<close>

definition sample_manifests :: "jval json_lib" where
  "sample_manifests =
     jval_lib (\<lambda>t. Some (JObject [(''id'', JString ''t''), (''prompt'', JString ''p'')])) (\<lambda>j. Some ''x'')"

definition sample_files :: file_system where
  "sample_files =
     \<lparr>fs_read = (\<lambda>p. if p = ''d/task.json'' then Some ''m'' else if p = ''d/tests.cpp'' then Some []
                    else if p = ''d/reference.hpp'' then Some ''int x;'' else None),
      fs_is_directory = (\<lambda>p. True), fs_exists = (\<lambda>p. True), fs_list = (\<lambda>p. Listed [''d''])\<rparr>"

definition deaf_console :: "'w console" where
  "deaf_console =
     \<lparr>con_out = (\<lambda>t w. w), con_err = (\<lambda>t w. w), con_rest = (\<lambda>w. ([], w)), con_line = (\<lambda>w. (None, w)),
      con_tty = False, con_interrupted = (\<lambda>w. (False, w)), con_clear = (\<lambda>w. w), con_save = (\<lambda>p t w. w)\<rparr>"

definition sample_app :: "(jval, os_script) app" where
  "sample_app =
     \<lparr>app_json = sample_manifests, app_pretty = (\<lambda>j. Some []),
      app_env =
        \<lparr>net = \<lparr>tr_send = (\<lambda>r w. (Inl (make_error KConfig []), w)),
               tr_stream = (\<lambda>r w. ([], \<lambda>b. Inl (make_error KConfig []), w))\<rparr>,
         pow_fn = (\<lambda>x y. x), draw = (\<lambda>w. (double_of_int 0, w)), clock = (\<lambda>w. (0, w)), sleeper = (\<lambda>d w. w)\<rparr>,
      app_math = no_math, app_wall = (\<lambda>w. (0, w)), app_getenv = (\<lambda>v. None), app_files = sample_files,
      app_console = deaf_console, app_version = ''1''\<rparr>"

lemma sample_app_sel [simp]:
  "app_json sample_app = sample_manifests" "app_files sample_app = sample_files"
  "app_getenv sample_app = (\<lambda>v. None)" "app_console sample_app = deaf_console" "app_pretty sample_app j = Some []"
  by (simp_all add: sample_app_def)

lemma sample_tasks: "load_tasks sample_manifests sample_files ''tasks'' = Inr [sample_task]"
  by (simp add: load_tasks_def sample_files_def is_task_dir_def load_task_def path_join_def sample_manifests_def
      task_of_manifest_def value_string_def prompt_of_def tags_of_def timeout_of_def sample_task_def)

definition sample_arguments :: "string list" where
  "sample_arguments = [''--reference'', ''--work-dir'', ''w'']"

definition sample_args :: args where
  "sample_args = \<lparr>arg_values = [(''work-dir'', ''w'')], arg_flags = {''reference''}, positional = []\<rparr>"

lemma sample_command_parse: "parse_args eval_spec False sample_arguments no_args = (None, sample_args)"
  by (simp add: sample_arguments_def eval_spec_def make_spec_def common_values_def common_flags_def sample_args_def
      no_args_def push_value_def push_flag_def option_name_def)

lemma sample_args_get:
  "get_arg sample_args n = (if n = ''work-dir'' then Some ''w'' else None)"
  "has_flag sample_args n \<longleftrightarrow> n = ''reference''" "get_all sample_args ''task'' = []"
  by (auto simp: sample_args_def get_arg_def get_all_def has_flag_def)

lemma sample_options:
  "read_options sample_app eval_spec sample_arguments initial_log = (Inr (sample_args, plain_config sample_json), initial_log)"
proof -
  have "plain_config sample_manifests = plain_config sample_json"
    by (simp add: plain_config_def sample_manifests_def sample_json_def)
  moreover have "apply_common sample_args (plain_config sample_json) initial_log = (Inr (plain_config sample_json), initial_log)"
    by (simp add: apply_common_def set_log_level_def sample_args_get get_double_def get_int_def plain_config_def
        initial_log_def)
  ultimately show ?thesis by (simp add: read_options_def sample_command_parse)
qed

lemma sample_setup:
  "eval_setup sample_app sample_arguments initial_log s =
     Inr (\<lparr>er_args = sample_args, er_options = sample_runner, er_tasks = [sample_task], er_model = None,
          er_min_pass = None\<rparr>, initial_log, s)"
proof -
  have "eval_options sample_app sample_args (plain_config sample_json) None None = sample_runner"
    by (simp add: eval_options_def sample_args_get get_or_def env_or_def or_else_def sample_runner_def)
  moreover have "use_reference sample_runner" by (simp add: sample_runner_def)
  ultimately show ?thesis
    by (simp add: eval_setup_def sample_options eval_numbers_def get_int_def get_double_def sample_args_get get_or_def
        sample_tasks select_tasks_def eval_client_def complain_def deaf_console_def)
qed

lemma sample_eval: "cmd_eval sample_app script_host ''tmp'' sample_arguments initial_log s (Exit exit_ok)"
proof -
  let ?E = "\<lparr>er_args = sample_args, er_options = sample_runner, er_tasks = [sample_task], er_model = None,
    er_min_pass = None\<rparr>"
  let ?rep = "run_report (None :: (jval, os_script) model_access option) sample_runner 0 0 0 final_pool"
  have "all_finished final_pool" by (simp add: all_finished_def final_pool_def)
  moreover have "reachable (task_runs script_host None sample_runner) [sample_task] True (jobs sample_runner) final_pool"
    using reach_final [of "task_runs script_host None (new_runner ''tmp'' sample_runner)", OF sample_task_runs]
    unfolding sample_new_runner by (simp add: sample_runner_def)
  moreover have "Exit exit_ok = fst (eval_finish sample_app ?E ?rep initial_log s)"
  proof -
    have "results ?rep = [sample_result]" by (simp add: run_report_def final_pool_def slot_result_def)
    moreover have "passed sample_result"
      by (simp add: sample_result_def passed_def sample_attempt_def new_attempt_def)
    ultimately show ?thesis by (subst eval_finish_ends) (simp_all add: exit_code_all)
  qed
  ultimately show ?thesis unfolding cmd_eval_def sample_setup sum.case prod.case Let_def
    by (simp add: sample_new_runner) blast
qed

section \<open>Properties\<close>



end
