(* ===== verification/Terminal.thy ===== *)
theory Terminal
  imports Command_Line
begin

text \<open>
  What the commands print.  The locale \<open>world_view\<close> is what the client promises to a part of the world
  that the network, the clock and the random draws do not touch; it is interpreted on a terminal that
  stands beside the world of any environment, and gives what \<^verbatim>\<open>gemini-cpp ask\<close> shows.
\<close>

section \<open>A part of the world that the client leaves alone\<close>

locale world_view =
  fixes E :: "'w environment" and view :: "'w \<Rightarrow> 'v"
  assumes send_view: "view (snd (tr_send (net E) r w)) = view w"
    and stream_view: "view (snd (snd (tr_stream (net E) r w))) = view w"
    and draw_view: "view (snd (draw E w)) = view w"
    and clock_view: "view (snd (clock E w)) = view w"
    and sleeper_view: "view (sleeper E d w) = view w"
begin

lemma read_clock_view: "read_clock E s = (t, s') \<Longrightarrow> view (world s') = view (world s)"
  using clock_view [of "world s"] by (auto simp: read_clock_def split: prod.splits)

lemma next_delay_view: "next_delay E p i e s = (r, s') \<Longrightarrow> view (world s') = view (world s)"
  using draw_view [of "world s"] by (auto simp: next_delay_def split: prod.splits if_splits)

lemma finish_call_view: "finish_call E start r s = (r', s') \<Longrightarrow> view (world s') = view (world s)"
  using read_clock_view
  by (fastforce simp: finish_call_def record_result_def count_failure_def Let_def split: prod.splits if_splits sum.splits)

text \<open>What every attempt keeps of its variables and the view, the loop keeps.\<close>

lemma with_retry_view:
  assumes "with_retry E p attempt can_retry i l s = (r, l', s')" "P l (view (world s))"
    and step: "\<And>l s r l' s'. attempt l s = (r, l', s') \<Longrightarrow> P l (view (world s)) \<Longrightarrow> P l' (view (world s'))"
  shows "P l' (view (world s'))"
  using assms(1,2)
proof (induction "nat (attempt_limit p - i)" arbitrary: i l s rule: less_induct)
  case less
  have count: "view (world (count_attempt s)) = view (world s)" by (simp add: count_attempt_def)
  from less.prems(1) show ?case
  proof (cases rule: with_retry_cases)
    case stop
    then show ?thesis using step count less.prems(2) by metis
  next
    case (delay_failed e s1 m)
    then show ?thesis using step count less.prems(2) next_delay_view by metis
  next
    case (again e l1 s1 d s2)
    have "view (world (count_retry E d s2)) = view (world s1)"
      using next_delay_view [OF again(5)] by (simp add: count_retry_def sleeper_view)
    then have "P l1 (view (world (count_retry E d s2)))" using step [OF again(1)] count less.prems(2) by simp
    moreover have "nat (attempt_limit p - (i + 1)) < nat (attempt_limit p - i)" using again(3) by simp
    ultimately show ?thesis using less.hyps again(6) by blast
  qed
qed

lemma generate_view:
  assumes "generate J E opts request s = (result, s')"
  shows "view (world s') = view (world s)"
proof (cases "validate opts request")
  case (Inl f)
  then show ?thesis using assms by (auto simp: generate_def Let_def count_request_def)
next
  case (Inr u)
  obtain start s0 where rc: "read_clock E (count_request s) = (start, s0)" by fastforce
  have s0: "view (world s0) = view (world s)" using read_clock_view [OF rc] by (simp add: count_request_def)
  show ?thesis
  proof (cases "dump_body J (request_to_json J request)")
    case (Inl f)
    then show ?thesis using assms Inr rc s0 by (auto simp: generate_def Let_def)
  next
    case (Inr body)
    obtain r1 l1 s1 where wr:
      "with_retry E (retry opts) (generate_attempt J E opts body) (\<lambda>_. True) 0 () s0 = (r1, l1, s1)"
      by (metis prod_cases3)
    have "view (world s1) = view (world s)"
    proof (rule with_retry_view [OF wr, where P = "\<lambda>_ v. v = view (world s)", OF s0])
      fix l l' :: unit and t r t'
      assume "generate_attempt J E opts body l t = (r, l', t')" "view (world t) = view (world s)"
      then show "view (world t') = view (world s)"
        using send_view [of "make_request opts (endpoint opts ''generateContent'' False) body" "world t"]
        by (auto simp: generate_attempt_def split: prod.splits)
    qed
    moreover have "finish_call E start r1 s1 = (result, s')"
      using assms \<open>validate opts request = Inr u\<close> rc Inr wr by (simp add: generate_def Let_def)
    ultimately show ?thesis using finish_call_view by metis
  qed
qed

text \<open>The view follows the callback, chunk after chunk.\<close>

lemma stream_follows:
  fixes J :: "'j json_lib"
  assumes "stream J E opts request (Some f) s = (result, seen, s')" "Q [] (view (world s))"
    and callback: "\<And>seen c w b w'. f c w = (b, w') \<Longrightarrow> Q seen (view w) \<Longrightarrow> Q (seen @ [c]) (view w')"
  shows "Q seen (view (world s'))"
proof -
  let ?inv = "\<lambda>st :: ('j, 'w) stream_state. Q (delivered st) (view (callback_world st))"
  have inv: "handler_invariant (on_event J (Some f)) ?inv"
  proof unfold_locales
    fix st :: "('j, 'w) stream_state" and d
    assume "?inv st"
    then show "?inv (snd (on_event J (Some f) d st))"
      using callback by (auto simp: on_event_def Let_def split: sum.splits failure.splits prod.splits)
  qed
  have attempt: "Q (snd l') (view (world t'))"
    if at: "stream_attempt J E opts body (Some f) l t = (r, l', t')" and Q: "Q (snd l) (view (world t))"
    for body l t r l' t'
  proof -
    let ?req = "make_request opts (endpoint opts ''streamGenerateContent'' True) body"
    obtain chunks fin w where tr: "tr_stream (net E) ?req (world t) = (chunks, fin, w)" by (metis prod_cases3)
    obtain keep p st where fc:
      "feed_chunks (on_event J (Some f)) chunks new_parser (start_attempt (fst l) (snd l) w) = (keep, p, st)"
      by (metis prod_cases3)
    obtain r' st' where so: "stream_outcome J (Some f) (fin (\<not> keep)) p st = (r', st')" by fastforce
    have "view w = view (world t)" using stream_view [of ?req "world t"] tr by simp
    then have "?inv (start_attempt (fst l) (snd l) w)" using Q by (simp add: start_attempt_def)
    from handler_invariant.feed_chunks_keeps [OF inv this, of chunks new_parser] fc have "?inv st" by simp
    with handler_invariant.finish_keeps [OF inv this, of p] stream_outcome_finished(1) [OF so] have "?inv st'" by auto
    then show ?thesis using at tr fc so by (auto simp: stream_attempt_def)
  qed
  show ?thesis
  proof (cases "validate opts request")
    case (Inl e)
    then show ?thesis using assms(1,2) by (auto simp: stream_def Let_def count_request_def)
  next
    case (Inr u)
    obtain start s0 where rc: "read_clock E (count_request s) = (start, s0)" by fastforce
    have s0: "Q (snd (False, [])) (view (world s0))"
      using read_clock_view [OF rc] assms(2) by (simp add: count_request_def)
    show ?thesis
    proof (cases "dump_body J (request_to_json J request)")
      case (Inl e)
      then show ?thesis using assms(1) Inr rc s0 by (auto simp: stream_def Let_def)
    next
      case (Inr body)
      obtain r1 l1 s1 where wr:
        "with_retry E (retry opts) (stream_attempt J E opts body (Some f)) (\<lambda>l. \<not> fst l) 0 (False, []) s0 = (r1, l1, s1)"
        by (metis prod_cases3)
      have "Q (snd l1) (view (world s1))"
        by (rule with_retry_view [OF wr, where P = "\<lambda>l v. Q (snd l) v"]) (use s0 attempt in auto)
      moreover obtain r2 s2 where "finish_call E start r1 s1 = (r2, s2)" by fastforce
      moreover from this have "seen = snd l1" "s2 = s'"
        using assms(1) \<open>validate opts request = Inr u\<close> rc Inr wr by (auto simp: stream_def Let_def split: prod.splits)
      ultimately show ?thesis using finish_call_view by metis
    qed
  qed
qed

end

section \<open>A terminal beside the world\<close>

text \<open>
  What has been shown on standard output and on standard error, what will be typed, the flag of the
  interrupt, and for each of its next readings whether a signal comes in before it.
\<close>

record terminal =
  shown :: string
  noted :: string
  typed :: string
  flag :: bool
  signals :: "bool list"
  files :: "(string \<times> string) list"

definition on_terminal :: "(terminal \<Rightarrow> terminal) \<Rightarrow> 'w \<times> terminal \<Rightarrow> 'w \<times> terminal" where
  "on_terminal f w = (fst w, f (snd w))"

definition next_line :: "terminal \<Rightarrow> string option \<times> terminal" where
  "next_line v =
     (if typed v = [] then (None, v)
      else (case find_char NL (typed v) of
              None \<Rightarrow> (Some (typed v), v\<lparr>typed := []\<rparr>)
            | Some i \<Rightarrow> (Some (take i (typed v)), v\<lparr>typed := drop (Suc i) (typed v)\<rparr>)))"

definition read_flag :: "terminal \<Rightarrow> bool \<times> terminal" where
  "read_flag v =
     (let f = (flag v \<or> (case signals v of [] \<Rightarrow> False | b # bs \<Rightarrow> b))
      in (f, v\<lparr>flag := f, signals := tl (signals v)\<rparr>))"

definition term_console :: "('w \<times> terminal) console" where
  "term_console =
     \<lparr>con_out = (\<lambda>t. on_terminal (\<lambda>v. v\<lparr>shown := shown v @ t\<rparr>)),
      con_err = (\<lambda>t. on_terminal (\<lambda>v. v\<lparr>noted := noted v @ t\<rparr>)),
      con_rest = (\<lambda>(w, v). (typed v, w, v\<lparr>typed := []\<rparr>)),
      con_line = (\<lambda>(w, v). let (l, v) = next_line v in (l, w, v)), con_tty = False,
      con_interrupted = (\<lambda>(w, v). let (f, v) = read_flag v in (f, w, v)),
      con_clear = on_terminal (\<lambda>v. v\<lparr>flag := False\<rparr>),
      con_save = (\<lambda>path t. on_terminal (\<lambda>v. v\<lparr>files := files v @ [(path, t)]\<rparr>))\<rparr>"

definition lift_env :: "'w environment \<Rightarrow> ('w \<times> terminal) environment" where
  "lift_env E =
     \<lparr>net = \<lparr>tr_send = (\<lambda>r (w, v). let (x, w) = tr_send (net E) r w in (x, w, v)),
            tr_stream = (\<lambda>r (w, v). let (cs, fin, w) = tr_stream (net E) r w in (cs, fin, w, v))\<rparr>,
      pow_fn = pow_fn E, draw = (\<lambda>(w, v). let (x, w) = draw E w in (x, w, v)),
      clock = (\<lambda>(w, v). let (t, w) = clock E w in (t, w, v)), sleeper = (\<lambda>d (w, v). (sleeper E d w, v))\<rparr>"

interpretation terminal_view: world_view "lift_env E" snd
  by unfold_locales (simp_all add: lift_env_def split: prod.split)

section \<open>What ask prints\<close>

definition quiet_terminal :: "terminal \<Rightarrow> bool" where
  "quiet_terminal v \<longleftrightarrow> \<not> flag v \<and> signals v = []"

text \<open>The printer shows every chunk, as long as nobody interrupts it.\<close>

lemma printer_shows:
  assumes "app_console A = term_console" "stdout_printer A c w = (b, w')" "quiet_terminal (snd w)"
  shows "shown (snd w') = shown (snd w) @ response_text c \<and> quiet_terminal (snd w')"
  using assms(2,3)
  by (cases w)
    (auto simp: stdout_printer_def assms(1) term_console_def read_flag_def on_terminal_def quiet_terminal_def
      response_text_def Let_def split: list.splits)

lemma stream_shows:
  fixes A :: "('j, 'w \<times> terminal) app"
  assumes env: "app_env A = lift_env E" and console: "app_console A = term_console"
    and run: "stream (app_json A) (app_env A) opts request (Some (stdout_printer A)) s = (result, seen, s')"
    and quiet: "quiet_terminal (snd (world s))"
  shows "shown (snd (world s')) = shown (snd (world s)) @ concat (map response_text seen)"
proof -
  let ?Q = "\<lambda>seen v. shown v = shown (snd (world s)) @ concat (map response_text seen) \<and> quiet_terminal v"
  have "?Q seen (snd (world s'))"
  proof (rule terminal_view.stream_follows [where Q = ?Q, OF run [unfolded env]])
    show "?Q [] (snd (world s))" using quiet by simp
    fix seen :: "'j generate_response list" and c b and w w' :: "'w \<times> terminal"
    assume "stdout_printer A c w = (b, w')" "?Q seen (snd w)"
    then show "?Q (seen @ [c]) (snd w')" using printer_shows [OF console] by fastforce
  qed
  then show ?thesis by simp
qed

text \<open>Responses of at most one candidate, the first, which is what the API sends unless asked for more.\<close>

definition one_candidate :: "'j generate_response \<Rightarrow> bool" where
  "one_candidate ch \<longleftrightarrow> (case candidates ch of [] \<Rightarrow> True | [c] \<Rightarrow> cand_index c = 0 | _ \<Rightarrow> False)"

lemma aggregate_text:
  assumes "list_all one_candidate chunks"
  shows "response_text (aggregate chunks) = concat (map response_text chunks)"
proof -
  have one: "candidates ch = [] \<or> (\<exists>c. candidates ch = [c] \<and> cand_index c = 0)" if "ch \<in> set chunks" for ch
    using assms that
    by (cases "candidates ch"; cases "tl (candidates ch)") (fastforce simp: list_all_iff one_candidate_def)+
  have "set (map cand_index (candidates (aggregate chunks))) \<subseteq> {0}"
    using one by (subst indices_aggregate) fastforce
  then have "\<forall>c \<in> set (candidates (aggregate chunks)). cand_index c = 0" by auto
  moreover from this have "candidates (aggregate chunks) = [] \<or> (\<exists>c. candidates (aggregate chunks) = [c])"
    by (intro at_most_one distinct_aggregate)
  ultimately have "response_text (aggregate chunks) = visible_text.at_index 0 (candidates (aggregate chunks))"
    by (auto simp: response_text_def content_text_def visible_text.at_index_Cons)
  moreover have "visible_text.at_index 0 (candidates ch) = response_text ch" if "ch \<in> set chunks" for ch
    using one [OF that] by (auto simp: response_text_def content_text_def visible_text.at_index_Cons)
  ultimately show ?thesis by (simp add: visible_text.at_index_aggregate cong: map_cong)
qed


text \<open>The response of a stream is the merge of the chunks that were handed over.\<close>

lemma stream_answer:
  assumes "stream J E opts request on_chunk s = (Inr r, seen, s')"
  shows "r = aggregate seen"
  using assms
proof (cases rule: stream_cases)
  case (ran body s0 r1 any s1 start)
  from ran(4) obtain t0 r0 t1 where last:
    "stream_attempt J E opts body on_chunk (False, []) t0 = (r0, (any, seen), t1)"
    "r1 = r0 \<or> (\<exists>m. r1 = Inl (Undefined m))" by (rule stream_last_attempt)
  have "r0 = Inr r" using finish_call_Inr [OF ran(5)] last(2) by auto
  then show ?thesis using stream_attempt_sound [OF last(1)] by simp
qed simp

section \<open>Properties\<close>

text \<open>
  C13: what \<^verbatim>\<open>gemini-cpp ask\<close> puts on standard output, on a terminal that nobody interrupts and with any
  network, retries included.  When it waits for the whole answer it shows the text of the response, and
  nothing when there is none; when it streams, it shows the texts of the chunks that were handed over,
  each once and in order, also when the stream then fails; and that is the text of the response it
  returns if the chunks carry one candidate, so that both ways show the same answer in the same way.
\<close>

theorem ask_prints:
  assumes "app_env A = lift_env E" "app_console A = term_console" "quiet_terminal (snd (world s))"
  shows "case ask_model A x opts request s of (result, s') \<Rightarrow>
    if has_flag x ''no-stream'' then
      shown (snd (world s')) =
        shown (snd (world s)) @ (case result of Inr r \<Rightarrow> response_text r | Inl f \<Rightarrow> [])
    else
      (\<exists>seen. stream (app_json A) (app_env A) opts request (Some (stdout_printer A)) s = (result, seen, s') \<and>
         shown (snd (world s')) = shown (snd (world s)) @ concat (map response_text seen) \<and>
         (case result of
            Inr r \<Rightarrow> (if list_all one_candidate seen
                      then shown (snd (world s')) = shown (snd (world s)) @ response_text r else True)
          | Inl f \<Rightarrow> True))"
proof (cases "has_flag x ''no-stream''")
  case True
  obtain result s1 where gen: "generate (app_json A) (app_env A) opts request s = (result, s1)" by fastforce
  have "snd (world s1) = snd (world s)" using terminal_view.generate_view gen unfolding assms(1) by blast
  then show ?thesis
    using True gen
    by (cases result) (simp_all add: ask_model_def say_def assms(2) term_console_def on_terminal_def)
next
  case False
  obtain result seen s' where run:
    "stream (app_json A) (app_env A) opts request (Some (stdout_printer A)) s = (result, seen, s')"
    by (metis prod_cases3)
  note shows' = stream_shows [OF assms(1,2) run assms(3)]
  have "r = aggregate seen" if "result = Inr r" for r
    using stream_answer run that by blast
  then show ?thesis
    using False run shows' aggregate_text [of seen] by (cases result) (auto simp: ask_model_def)
qed


definition blank_terminal :: terminal where
  "blank_terminal = \<lparr>shown = [], noted = [], typed = [], flag = False, signals = [], files = []\<rparr>"

definition sample_terminal_app :: "(jval, script \<times> terminal) app" where
  "sample_terminal_app =
     \<lparr>app_json = sample_json, app_pretty = (\<lambda>j. Some []), app_env = lift_env scripted,
      app_math = no_math, app_wall = (\<lambda>w. (0, w)), app_getenv = (\<lambda>v. None), app_files = sample_files,
      app_console = term_console, app_version = ''1''\<rparr>"

theorem ask_prints_witness:
  "case ask_model sample_terminal_app (no_args\<lparr>arg_flags := {''no-stream''}\<rparr>) sample_options sample_request
      (start_state ([([], Inr ''x'')], blank_terminal)) of (result, s') \<Rightarrow>
     shown (snd (world s')) = (case result of Inr r \<Rightarrow> response_text r | Inl f \<Rightarrow> [])"
  using ask_prints [of sample_terminal_app scripted "start_state ([([], Inr ''x'')], blank_terminal)"
      "no_args\<lparr>arg_flags := {''no-stream''}\<rparr>" sample_options sample_request]
  by (simp add: sample_terminal_app_def start_state_def blank_terminal_def quiet_terminal_def has_flag_def split: prod.splits)

end
