(* ===== verification/Terminal_Chat.thy ===== *)
theory Terminal_Chat
  imports Terminal
begin

text \<open>
  \<^verbatim>\<open>gemini-cpp chat\<close> on a terminal.  The client, the tools and the observer leave alone what is still to be
  typed (the locale \<open>moving_view\<close> extends \<open>world_view\<close> by what the tools of a chat promise), so the loop over the
  lines runs out of them.
\<close>

section \<open>Chats\<close>

text \<open>
  Steps on the world that move the view along a relation only: along equality where the view stays as it
  is, along \<^const>\<open>prefix\<close> where it only grows.
\<close>

definition moves :: "('v \<Rightarrow> 'v \<Rightarrow> bool) \<Rightarrow> ('w \<Rightarrow> 'v) \<Rightarrow> ('w \<Rightarrow> 'a \<times> 'w) \<Rightarrow> bool" where
  "moves R view g \<longleftrightarrow> (\<forall>w. R (view w) (view (snd (g w))))"

lemma movesD: "moves R view g \<Longrightarrow> g w = (a, w') \<Longrightarrow> R (view w) (view w')"
  unfolding moves_def by (metis snd_conv)

text \<open>The tools and the observer of a chat.\<close>

definition tools_move ::
  "('v \<Rightarrow> 'v \<Rightarrow> bool) \<Rightarrow> ('w \<Rightarrow> 'v) \<Rightarrow> ('j, 'w) chat_setting \<Rightarrow> bool" where
  "tools_move R view S \<longleftrightarrow>
     (\<forall>reg. chat_registry S = Some reg \<longrightarrow> (\<forall>(d, h) \<in> set reg. \<forall>args. moves R view (h args))) \<and>
     (\<forall>note call r. observer S = Some note \<longrightarrow> moves R view (note call r))"

locale moving_view = world_view E view for E :: "'w environment" and view :: "'w \<Rightarrow> 'v" +
  fixes R :: "'v \<Rightarrow> 'v \<Rightarrow> bool"
  assumes stays: "R v v" and goes_on: "R u v \<Longrightarrow> R v w \<Longrightarrow> R u w"
begin

lemma invoke_moves:
  assumes "\<forall>(d, h) \<in> set reg. \<forall>args. moves R view (h args)" "invoke J reg call w = (r, w')"
  shows "R (view w) (view w')"
  using assms
proof (induction J reg call w rule: invoke.induct)
  case (1 J call w)
  then show ?case using stays by auto
next
  case (2 J d h reg call w)
  show ?case
  proof (cases "fd_name d = fc_name call")
    case True
    obtain out v where h: "h (fc_args call) w = (out, v)" by fastforce
    with 2(2) have "R (view w) (view v)" by (auto dest: movesD)
    with 2(3) True h show ?thesis
      by (auto simp: run_tool_def split: tool_outcome.splits prod.splits sum.splits)
  next
    case False
    with 2 show ?thesis by auto
  qed
qed

lemma observe_moves: "tools_move R view S \<Longrightarrow> observe S call r w = (x, w') \<Longrightarrow> R (view w) (view w')"
  unfolding observe_def tools_move_def using stays
  by (auto split: option.splits prod.splits) (metis movesD)+

lemma answer_calls_moves:
  assumes "tools_move R view S" "chat_registry S = Some reg" "answer_calls S reg calls w = (r, w')"
  shows "R (view w) (view w')"
  using assms(3)
proof (induction calls arbitrary: w r w')
  case Nil
  then show ?case using stays by simp
next
  case (Cons call calls)
  have reg: "\<forall>(d, h) \<in> set reg. \<forall>args. moves R view (h args)"
    using assms(1,2) by (simp add: tools_move_def)
  obtain o1 w1 where inv: "invoke (chat_json S) reg call w = (o1, w1)" by fastforce
  note w1 = invoke_moves [OF reg inv]
  show ?case
  proof (cases "\<exists>d a. dump_body (chat_json S) (fc_args call) = Inr d \<and> o1 = Inr a")
    case False
    then show ?thesis using Cons.prems inv w1 stays by (auto split: sum.splits)
  next
    case True
    then obtain d a where ok: "dump_body (chat_json S) (fc_args call) = Inr d" "o1 = Inr a" by blast
    obtain o2 w2 where obs: "observe S call a w1 = (o2, w2)" by fastforce
    note w2 = goes_on [OF w1 observe_moves [OF assms(1) obs]]
    obtain o3 w3 where rest: "answer_calls S reg calls w2 = (o3, w3)" by fastforce
    from goes_on [OF w2 Cons.IH [OF rest]] Cons.prems ok inv obs rest w2 show ?thesis
      by (cases o2; cases o3) auto
  qed
qed

lemma ask_moves:
  assumes "chat_env S = E" "ask S f h s = (r, s')" "\<And>g. f = Some g \<Longrightarrow> \<forall>c. moves R view (g c)"
  shows "R (view (world s)) (view (world s'))"
proof (cases f)
  case None
  then show ?thesis using assms(1,2) generate_view stays by (metis ask_def option.simps(4))
next
  case (Some g)
  obtain r1 sn s1 where run:
    "stream (chat_json S) E (chat_client S) (build_request S h) (Some g) s = (r1, sn, s1)" by (metis prod_cases3)
  have "R (view (world s)) (view (world s1))"
    by (rule stream_follows [OF run, where Q = "\<lambda>_ v. R (view (world s)) v"])
      (use assms(3) [OF Some] movesD stays goes_on in \<open>metis+\<close>)
  then show ?thesis using assms(1,2) Some run by (simp add: ask_def)
qed

lemma send_rounds_moves:
  assumes env: "chat_env S = E" and moving: "tools_move R view S"
    and printer: "\<And>g. f = Some g \<Longrightarrow> \<forall>c. moves R view (g c)"
  shows "send_rounds S f k n c s = (r, c', s') \<Longrightarrow> R (view (world s)) (view (world s'))"
proof (induction n arbitrary: c s)
  case 0
  then show ?case using stays by (simp add: rollback_def)
next
  case (Suc n)
  obtain r1 s1 where ask: "ask S f (history c) s = (r1, s1)" by fastforce
  note s1 = ask_moves [OF env ask printer]
  show ?case
  proof (cases "\<exists>resp cand rest reg. r1 = Inr resp \<and> candidates resp = cand # rest \<and>
      chat_registry S = Some reg \<and> function_calls resp \<noteq> []")
    case False
    then show ?thesis using Suc.prems ask s1
      by (auto simp: rollback_def Let_def split: sum.splits failure.splits list.splits option.splits if_splits)
  next
    case True
    then obtain resp cand rest reg where t: "r1 = Inr resp" "candidates resp = cand # rest"
      "chat_registry S = Some reg" "function_calls resp \<noteq> []" by blast
    obtain o1 w where ac: "answer_calls S reg (function_calls resp) (world s1) = (o1, w)" by fastforce
    note w = goes_on [OF s1 answer_calls_moves [OF moving t(3) ac]]
    show ?thesis
    proof (cases o1)
      case (Inl x)
      then show ?thesis using Suc.prems ask t ac w by (auto simp: Let_def)
    next
      case (Inr ps)
      then have "R (view (world (s1\<lparr>world := w\<rparr>))) (view (world s'))"
        using Suc.prems ask t ac by (intro Suc.IH) (simp add: Let_def)
      with w show ?thesis by (auto intro: goes_on)
    qed
  qed
qed

lemma send_moves:
  assumes "chat_env S = E" "tools_move R view S" "\<And>g. f = Some g \<Longrightarrow> \<forall>c. moves R view (g c)"
    and "send S f t c s = (r, c', s')"
  shows "R (view (world s)) (view (world s'))"
  by (rule send_rounds_moves [OF assms(1-3) assms(4) [unfolded send_def]])

end

section \<open>A chat on the terminal\<close>

text \<open>The lines that \<^verbatim>\<open>std::getline\<close> reads one after the other: a last line needs no newline.\<close>

definition typed_lines :: "string \<Rightarrow> string list" where
  "typed_lines t =
     (if t = [] then [] else if last t = NL then butlast (split_on NL t) else split_on NL t)"

lemma typed_lines_more: "NL \<notin> set a \<Longrightarrow> typed_lines (a @ NL # b) = a # typed_lines b"
  by (auto simp: typed_lines_def split_on_append)

lemma typed_lines_last: "NL \<notin> set a \<Longrightarrow> a \<noteq> [] \<Longrightarrow> typed_lines a = [a]"
  by (auto simp: typed_lines_def split_on_absent) (metis last_in_set)

lemma next_line_lines:
  assumes "next_line v = (l, v')"
  shows "typed_lines (typed v) = (case l of None \<Rightarrow> [] | Some l \<Rightarrow> l # typed_lines (typed v'))"
proof (cases "typed v = []")
  case True
  with assms show ?thesis by (auto simp: next_line_def typed_lines_def)
next
  case False
  show ?thesis
  proof (cases "find_char NL (typed v)")
    case None
    with False assms typed_lines_last None show ?thesis
      by (auto simp: next_line_def typed_lines_def [of "[]"] find_char_None_iff)
  next
    case (Some i)
    have "typed_lines (typed v) = take i (typed v) # typed_lines (drop (Suc i) (typed v))"
      using find_char_SomeD [OF Some] typed_lines_more [of "take i (typed v)" "drop (Suc i) (typed v)"]
      unfolding find_char_split [OF Some, symmetric] by simp
    with False assms Some show ?thesis by auto (auto simp: next_line_def)
  qed
qed

text \<open>An application on a terminal: nothing but the console touches the terminal.\<close>

definition wall_beside :: "('w \<Rightarrow> int \<times> 'w) \<Rightarrow> 'w \<times> terminal \<Rightarrow> int \<times> 'w \<times> terminal" where
  "wall_beside wall w = (let (t, w1) = wall (fst w) in (t, w1, snd w))"

definition terminal_app :: "('j, 'w \<times> terminal) app \<Rightarrow> bool" where
  "terminal_app A \<longleftrightarrow>
     (\<exists>E. app_env A = lift_env E) \<and> (\<exists>wall. app_wall A = wall_beside wall) \<and> app_console A = term_console"

definition to_read :: "'w \<times> terminal \<Rightarrow> string" where
  "to_read w = typed (snd w)"

interpretation input_view: moving_view "lift_env E" to_read "(=)"
  by unfold_locales (simp_all add: lift_env_def to_read_def split: prod.split)

lemma term_console_read [simp]:
  "to_read (con_out term_console t w) = to_read w" "to_read (con_err term_console t w) = to_read w"
  "to_read (con_clear term_console w) = to_read w" "to_read (snd (con_interrupted term_console w)) = to_read w"
  by (simp_all add: term_console_def to_read_def on_terminal_def read_flag_def Let_def split: prod.split)

lemma stdout_printer_keeps:
  fixes A :: "('a, 'b \<times> terminal) app"
  assumes "app_console A = term_console"
  shows "moves (=) to_read (stdout_printer A c)"
  unfolding moves_def
proof
  fix w :: "'b \<times> terminal"
  obtain b w1 where "con_interrupted term_console w = (b, w1)" by (rule prod.exhaust)
  moreover from this have "to_read w1 = to_read w"
    using term_console_read(4) [of w] by simp
  ultimately show "to_read w = to_read (snd (stdout_printer A c w))"
    by (simp add: stdout_printer_def assms split: list.split)
qed

lemma chat_tools_keep:
  assumes "terminal_app A"
  shows "tools_move (=) to_read (chat_of A x conf opts)"
proof -
  from assms obtain wall where A: "app_wall A = wall_beside wall" "app_console A = term_console"
    by (auto simp: terminal_app_def)
  have "moves (=) to_read (current_time_tool (app_json A) (app_wall A) args)" for args
    by (auto simp: moves_def current_time_tool_def A wall_beside_def to_read_def split: prod.split)
  moreover have "moves (=) to_read (evaluate_tool (app_json A) (app_math A) args)" for args
    by (auto simp: moves_def evaluate_tool_def split: option.split sum.split failure.split)
  moreover have "moves (=) to_read (show_tool_call A call r)" for call r
    by (auto simp: moves_def show_tool_call_def A Let_def split: option.split)
  ultimately show ?thesis
    by (auto simp: tools_move_def chat_of_def register_defaults_def add_tool_def split: if_splits)
qed

lemma terminal_app_sel:
  assumes "terminal_app A"
  obtains E where "app_env A = lift_env E" "app_console A = term_console"
  using assms by (auto simp: terminal_app_def)

text \<open>How a command can end: not with an error value, which every command reports.\<close>

definition proper_ending :: "ending \<Rightarrow> bool" where
  "proper_ending e \<longleftrightarrow>
     (case e of Exit n \<Rightarrow> n = exit_ok \<or> n = exit_failure \<or> n = exit_usage
      | Escaped (Failed x) \<Rightarrow> False | Escaped _ \<Rightarrow> True)"

text \<open>At most \<open>n\<close> calls of the client.\<close>

definition calls_within :: "nat \<Rightarrow> 'w client_state \<Rightarrow> 'w client_state \<Rightarrow> bool" where
  "calls_within n s s' \<longleftrightarrow> (\<exists>j \<le> n. requests (metrics s') = requests (metrics s) + of_nat j)"

lemma calls_within_refl: "metrics s' = metrics s \<Longrightarrow> calls_within n s s'"
  by (auto simp: calls_within_def intro!: exI [of _ 0])

lemma calls_within_trans:
  "calls_within m s s1 \<Longrightarrow> calls_within n s1 s2 \<Longrightarrow> m + n \<le> k \<Longrightarrow> calls_within k s s2"
  unfolding calls_within_def
proof (elim exE conjE)
  fix i j
  assume "m + n \<le> k" "i \<le> m" "requests (metrics s1) = requests (metrics s) + of_nat i" "j \<le> n"
    "requests (metrics s2) = requests (metrics s1) + of_nat j"
  then show "\<exists>j \<le> k. requests (metrics s2) = requests (metrics s) + of_nat j"
    by (intro exI [of _ "i + j"]) simp
qed

lemma calls_within_mono: "calls_within m s s' \<Longrightarrow> m \<le> n \<Longrightarrow> calls_within n s s'"
  unfolding calls_within_def by (meson order_trans)

lemma metrics_say [simp]: "metrics (say A t s) = metrics s" "metrics (complain A t s) = metrics s"
  by (simp_all add: say_def complain_def)

lemma fold_complain_metrics [simp]: "metrics (fold (\<lambda>m. complain A (f m)) ms s) = metrics s"
  by (induction ms arbitrary: s) simp_all

lemma say_read:
  assumes "app_console A = term_console"
  shows "to_read (world (say A t s)) = to_read (world s)" "to_read (world (complain A t s)) = to_read (world s)"
  by (simp_all add: say_def complain_def assms)

lemma fold_complain_read:
  "app_console A = term_console \<Longrightarrow>
   to_read (world (fold (\<lambda>m. complain A (f m)) ms s)) = to_read (world s)"
  by (induction ms arbitrary: s) (simp_all add: say_read)

lemma read_line_terminal:
  assumes "app_console A = term_console" "read_line A s = (l, s')"
  shows "typed_lines (to_read (world s)) =
      (case l of None \<Rightarrow> [] | Some l \<Rightarrow> l # typed_lines (to_read (world s')))"
    and "metrics s' = metrics s"
proof -
  obtain w v where w: "world s = (w, v)" by fastforce
  obtain l1 v1 where line: "next_line v = (l1, v1)" by fastforce
  with assms w have s': "l1 = l" "s' = s\<lparr>world := (w, v1)\<rparr>"
    by (auto simp: read_line_def term_console_def)
  with next_line_lines [OF line] w show "typed_lines (to_read (world s)) =
      (case l of None \<Rightarrow> [] | Some l \<Rightarrow> l # typed_lines (to_read (world s')))"
    by (simp add: to_read_def split: option.split)
  show "metrics s' = metrics s" using s' by simp
qed

lemma send_terminal:
  assumes A: "terminal_app A"
    and run: "send (chat_of A x conf opts) (Some (stdout_printer A)) l c s = (r, c', s')"
  shows "to_read (world s') = to_read (world s)" and "calls_within 9 s s'"
proof -
  from A obtain E where E: "app_env A = lift_env E" "app_console A = term_console" by (rule terminal_app_sel)
  have env: "chat_env (chat_of A x conf opts) = lift_env E" by (simp add: chat_of_def E)
  show "to_read (world s') = to_read (world s)"
    using input_view.send_moves [OF env chat_tools_keep [OF A] _ run] stdout_printer_keeps [OF E(2)] by auto
  have "nat (max_tool_rounds (chat_opts (chat_of A x conf opts)) + 1) = 9" by (simp add: chat_of_def)
  with send_rounds_requests [OF run [unfolded send_def]] show "calls_within 9 s s'"
    by (simp add: calls_within_def)
qed

lemma chat_line_terminal:
  assumes A: "terminal_app A" and run: "chat_line A (chat_of A x conf opts) l c s = (r, s')"
  shows "to_read (world s') = to_read (world s)" and "calls_within 9 s s'"
    and "r = Inl e \<Longrightarrow> proper_ending e \<and> (e = Exit exit_ok \<longrightarrow> l = ''/exit'' \<or> l = ''/quit'')"
proof -
  from A obtain E where E: "app_env A = lift_env E" "app_console A = term_console" by (rule terminal_app_sel)
  obtain reply c1 s1 where send:
    "send (chat_of A x conf opts) (Some (stdout_printer A)) l c (start_reply A s) = (reply, c1, s1)"
    by (metis prod_cases3)
  have start: "to_read (world (start_reply A s)) = to_read (world s)" "metrics (start_reply A s) = metrics s"
    by (simp_all add: start_reply_def complain_def E Let_def)
  note s1 = send_terminal [OF A send, unfolded start]
  have "calls_within 9 s s1" using s1(2) by (simp add: calls_within_def start)
  then have "to_read (world s') = to_read (world s) \<and> calls_within 9 s s' \<and>
      (\<forall>e. r = Inl e \<longrightarrow> proper_ending e \<and> (e = Exit exit_ok \<longrightarrow> l = ''/exit'' \<or> l = ''/quit''))"
    using run s1(1) send
    by (auto simp: chat_line_def say_read [OF E(2)] proper_ending_def exit_ok_def calls_within_refl
        fold_complain_read [OF E(2)] calls_within_def
        split: if_splits sum.splits failure.splits)
  then show "to_read (world s') = to_read (world s)" "calls_within 9 s s'"
    "r = Inl e \<Longrightarrow> proper_ending e \<and> (e = Exit exit_ok \<longrightarrow> l = ''/exit'' \<or> l = ''/quit'')" by blast+
qed

text \<open>The loop reads a line in every round, and the lines run out.\<close>

lemma chat_loop_terminal:
  assumes "terminal_app A"
  shows "\<exists>e s'. chat_loop A (chat_of A x conf opts) c s = Some (e, s') \<and> proper_ending e \<and>
    calls_within (9 * length (typed_lines (to_read (world s)))) s s' \<and>
    (e = Exit exit_ok \<longrightarrow> to_read (world s') = [] \<or>
       ''/exit'' \<in> set (typed_lines (to_read (world s))) \<or> ''/quit'' \<in> set (typed_lines (to_read (world s))))"
proof (induction "length (typed_lines (to_read (world s)))" arbitrary: c s rule: less_induct)
  case less
  from assms have console: "app_console A = term_console" by (simp add: terminal_app_def)
  obtain l s1 where line: "read_line A s = (l, s1)" by fastforce
  note reads = read_line_terminal [OF console line]
  show ?case
  proof (cases l)
    case None
    with reads line have "typed_lines (to_read (world s)) = []" by simp
    moreover have "to_read (world s1) = []"
      using line None console
      by (auto simp: read_line_def term_console_def next_line_def to_read_def split: prod.splits if_splits option.splits)
    ultimately show ?thesis
      using line None reads by (auto simp: chat_loop.simps proper_ending_def calls_within_refl)
  next
    case (Some l)
    obtain r s2 where run: "chat_line A (chat_of A x conf opts) l c s1 = (r, s2)" by fastforce
    note step = chat_line_terminal [OF assms run]
    have step2: "calls_within 9 s s2" using step(2) reads(2) by (simp add: calls_within_def)
    show ?thesis
    proof (cases r)
      case (Inl e)
      with line Some run step(3) calls_within_mono [OF step2] reads(1) show ?thesis
        by (auto simp: chat_loop.simps)
    next
      case (Inr c1)
      have lines: "typed_lines (to_read (world s)) = l # typed_lines (to_read (world s2))"
        using reads(1) Some step(1) by simp
      then obtain e s' where rest: "chat_loop A (chat_of A x conf opts) c1 s2 = Some (e, s')" "proper_ending e"
        "calls_within (9 * length (typed_lines (to_read (world s2)))) s2 s'"
        "e = Exit exit_ok \<longrightarrow> to_read (world s') = [] \<or>
         ''/exit'' \<in> set (typed_lines (to_read (world s2))) \<or> ''/quit'' \<in> set (typed_lines (to_read (world s2)))"
        using less.hyps [of s2 c1] by auto
      from calls_within_trans [OF step2 rest(3)] lines
      have "calls_within (9 * length (typed_lines (to_read (world s)))) s s'" by simp
      then show ?thesis
        using line Some run Inr rest lines by (auto simp: chat_loop.simps [of A _ c s])
    qed
  qed
qed

text \<open>
  C14: \<^verbatim>\<open>gemini-cpp chat\<close> ends, whatever the network answers, whatever the model asks of the tools and
  however often the user interrupts: it reads a line in every round, and makes at most nine calls of the
  client for each line.  It ends with exit code 0, 1 (no API key) or 2 (wrong arguments), or by an exception,
  and never by an error value: those are shown and the chat goes on.
\<close>

theorem chat_ends:
  assumes "terminal_app A"
  shows "\<exists>e g' s'. cmd_chat A as g s = Some (e, g', s') \<and> proper_ending e \<and>
    calls_within (9 * length (typed_lines (to_read (world s)))) s s'"
proof (cases "read_options A (make_spec {} {''tools''}) as g")
  case (Pair o1 g1)
  have console: "app_console A = term_console" using assms by (simp add: terminal_app_def)
  show ?thesis
  proof (cases o1)
    case (Inl m)
    with Pair show ?thesis
      by (simp add: cmd_chat_def usage_error_def proper_ending_def calls_within_refl)
  next
    case (Inr xc)
    obtain x conf where xc: "xc = (x, conf)" by fastforce
    show ?thesis
    proof (cases "make_client A x")
      case (Inl f)
      then have "\<exists>e. f = Failed e"
        by (auto simp: make_client_def from_env_def err_def bind_result_def Let_def split: if_splits option.splits sum.splits)
      with Pair Inr xc Inl show ?thesis
        by (auto simp: cmd_chat_def api_failure_def proper_ending_def calls_within_refl)
    next
      case (Inr opts)
      obtain e s' where "chat_loop A (chat_of A x conf opts) new_session s = Some (e, s')" "proper_ending e"
        "calls_within (9 * length (typed_lines (to_read (world s)))) s s'"
        using chat_loop_terminal [OF assms] by blast
      with Pair \<open>o1 = Inr xc\<close> xc Inr show ?thesis
        by (simp add: cmd_chat_def console term_console_def)
    qed
  qed
qed

theorem chat_ends_witness:
  "\<exists>e g' s'. cmd_chat sample_terminal_app [''--tools''] initial_log
      (start_state ([], blank_terminal\<lparr>typed := ''hi'' @ [NL] @ ''/exit''\<rparr>)) = Some (e, g', s') \<and>
    proper_ending e \<and> calls_within 18 (start_state ([], blank_terminal)) s'"
proof -
  let ?s = "start_state ([] :: script, blank_terminal\<lparr>typed := ''hi'' @ [NL] @ ''/exit''\<rparr>)"
  have "terminal_app sample_terminal_app"
    by (auto simp: terminal_app_def sample_terminal_app_def wall_beside_def fun_eq_iff
        intro!: exI [of _ "\<lambda>w. (0, w)"])
  note ends = chat_ends [OF this, of "[''--tools'']" initial_log ?s]
  have "typed_lines (to_read (world ?s)) = [''hi'', ''/exit'']"
    by (simp add: typed_lines_def to_read_def start_state_def)
  with ends show ?thesis by (auto simp: calls_within_def start_state_def)
qed

end
