(* ===== verification/Utf8.thy ===== *)
theory Utf8
  imports Json
begin

text \<open>
  Well-formed UTF-8, and what the JSON library does with strings that are not: \<^verbatim>\<open>dump()\<close> throws.
\<close>

section \<open>UTF-8\<close>

text \<open>
  The well-formed byte sequences of the Unicode standard (table 3-7), which is what the JSON library
  accepts: the number of bytes of the first character, if there is one.
\<close>

definition in_range :: "nat \<Rightarrow> nat \<Rightarrow> char \<Rightarrow> bool" where
  "in_range l u c \<longleftrightarrow> l \<le> byte c \<and> byte c \<le> u"

fun tail_bytes :: "(nat \<times> nat) list \<Rightarrow> string \<Rightarrow> bool" where
  "tail_bytes [] s \<longleftrightarrow> True"
| "tail_bytes (lu # rs) [] \<longleftrightarrow> False"
| "tail_bytes ((l, u) # rs) (c # s) \<longleftrightarrow> in_range l u c \<and> tail_bytes rs s"

definition tail_ranges :: "nat \<Rightarrow> (nat \<times> nat) list option" where
  "tail_ranges b =
     (let any = (0x80, 0xBF) in
      if b < 0x80 then Some []
      else if 0xC2 \<le> b \<and> b \<le> 0xDF then Some [any]
      else if b = 0xE0 then Some [(0xA0, 0xBF), any]
      else if b = 0xED then Some [(0x80, 0x9F), any]
      else if 0xE1 \<le> b \<and> b \<le> 0xEF then Some [any, any]
      else if b = 0xF0 then Some [(0x90, 0xBF), any, any]
      else if 0xF1 \<le> b \<and> b \<le> 0xF3 then Some [any, any, any]
      else if b = 0xF4 then Some [(0x80, 0x8F), any, any]
      else None)"

function valid_utf8 :: "string \<Rightarrow> bool" where
  "valid_utf8 [] \<longleftrightarrow> True"
| "valid_utf8 (c # s) \<longleftrightarrow>
     (case tail_ranges (byte c) of
        None \<Rightarrow> False
      | Some rs \<Rightarrow> tail_bytes rs s \<and> valid_utf8 (drop (length rs) s))"
  by pat_completeness auto
termination
  by (relation "measure length") auto

lemma valid_utf8_ascii: "byte c < 128 \<Longrightarrow> valid_utf8 (c # s) \<longleftrightarrow> valid_utf8 s"
  by (simp add: tail_ranges_def)

lemma valid_utf8_ascii_append: "\<forall>c \<in> set s. byte c < 128 \<Longrightarrow> valid_utf8 (s @ t) \<longleftrightarrow> valid_utf8 t"
  by (induction s) (simp_all add: valid_utf8_ascii del: valid_utf8.simps(2))

text \<open>A byte of a longer character that an ASCII character follows.\<close>

lemma half_character:
  assumes "128 \<le> byte c" "byte d < 128"
  shows "\<not> valid_utf8 (c # d # s)"
proof -
  have "\<not> tail_bytes rs (d # s)" if "tail_ranges (byte c) = Some rs" for rs
    using that assms by (auto simp: tail_ranges_def Let_def in_range_def split: if_splits)
  then show ?thesis by (auto split: option.split)
qed

lemma ascii_valid: "list_all (\<lambda>c. byte c < 128) s \<Longrightarrow> valid_utf8 s"
  using valid_utf8_ascii_append [of s "[]"] by (simp add: list_all_iff)

text \<open>What an ASCII character ends is a text of its own.\<close>

lemma tail_bytes_length: "tail_bytes rs s \<Longrightarrow> length rs \<le> length s"
  by (induction rs s rule: tail_bytes.induct) auto

lemma tail_bytes_append: "tail_bytes rs s \<Longrightarrow> tail_bytes rs (s @ t)"
  by (induction rs s rule: tail_bytes.induct) auto

lemma tail_bytes_ascii:
  assumes "tail_bytes rs (s @ a # t)" "byte a < 128" "list_all (\<lambda>(l, u). 128 \<le> l) rs"
  shows "tail_bytes rs s"
  using assms by (induction rs s rule: tail_bytes.induct) (auto simp: in_range_def)

lemma tail_ranges_high: "tail_ranges b = Some rs \<Longrightarrow> list_all (\<lambda>(l, u). 128 \<le> l) rs"
  by (auto simp: tail_ranges_def Let_def split: if_splits)

lemma valid_utf8_before_ascii:
  assumes "byte a < 128"
  shows "valid_utf8 (s @ a # t) \<longleftrightarrow> valid_utf8 s \<and> valid_utf8 t"
proof (induction s rule: valid_utf8.induct)
  case 1
  then show ?case using assms by (simp add: valid_utf8_ascii del: valid_utf8.simps(2))
next
  case (2 c s)
  show ?case
  proof (cases "tail_ranges (byte c)")
    case None
    then show ?thesis by simp
  next
    case (Some rs)
    have "tail_bytes rs (s @ a # t) \<longleftrightarrow> tail_bytes rs s"
      using tail_bytes_ascii [OF _ assms tail_ranges_high [OF Some]] tail_bytes_append by blast
    moreover have "drop (length rs) (s @ a # t) = drop (length rs) s @ a # t" if "tail_bytes rs s"
      using tail_bytes_length [OF that] by simp
    ultimately show ?thesis using 2 [OF Some] Some by auto
  qed
qed

section \<open>Printing\<close>

text \<open>A value in which, at some depth, a string is not UTF-8.\<close>

inductive unprintable :: "'j json_lib \<Rightarrow> 'j \<Rightarrow> bool" for J where
  at_string: "json_get_string J j = Some s \<Longrightarrow> \<not> valid_utf8 s \<Longrightarrow> unprintable J j"
| in_array: "json_get_array J j = Some js \<Longrightarrow> j' \<in> set js \<Longrightarrow> unprintable J j' \<Longrightarrow> unprintable J j"
| in_object: "json_find J j k = Some j' \<Longrightarrow> unprintable J j' \<Longrightarrow> unprintable J j"

text \<open>What the documentation says of \<^verbatim>\<open>dump()\<close>: it throws if a string is not UTF-8.\<close>

definition strict_dump :: "'j json_lib \<Rightarrow> bool" where
  "strict_dump J \<longleftrightarrow> (\<forall>j. unprintable J j \<longrightarrow> json_dump J j = None)"

context json_api begin

lemma unprintable_string: "\<not> valid_utf8 s \<Longrightarrow> unprintable J (json_string J s)"
  by (rule at_string) (simp_all add: api_simps)

lemma unprintable_array: "j \<in> set js \<Longrightarrow> unprintable J j \<Longrightarrow> unprintable J (json_array J js)"
  by (rule in_array) (simp_all add: api_simps)

lemma unprintable_object:
  "distinct (map fst kvs) \<Longrightarrow> map_of kvs k = Some j \<Longrightarrow> unprintable J j \<Longrightarrow> unprintable J (json_object J kvs)"
  by (rule in_object [of J _ k j]) (simp_all add: api_simps)

lemma strict_refuses: "strict_dump J \<Longrightarrow> unprintable J j \<Longrightarrow> json_dump J j = None"
  by (simp add: strict_dump_def)

end

text \<open>The reference instance, with a printer that refuses such values.\<close>

fun all_utf8 :: "jval \<Rightarrow> bool" where
  "all_utf8 (JString s) \<longleftrightarrow> valid_utf8 s"
| "all_utf8 (JArray js) \<longleftrightarrow> list_all all_utf8 js"
| "all_utf8 (JObject kvs) \<longleftrightarrow> list_all (\<lambda>(k, v). valid_utf8 k \<and> all_utf8 v) kvs"
| "all_utf8 _ \<longleftrightarrow> True"

lemma unprintable_refused:
  assumes "unprintable (jval_lib parse dump) j"
  shows "\<not> all_utf8 j"
  using assms
proof induction
  case (at_string j s)
  then show ?case by (cases j) simp_all
next
  case (in_array j js j')
  then show ?case by (cases j) (auto simp: list_all_iff)
next
  case (in_object j k j')
  then show ?case by (cases j) (auto simp: list_all_iff dest: map_of_SomeD)
qed

lemma strict_reference: "strict_dump (jval_lib parse (\<lambda>j. if all_utf8 j then Some t else None))"
  using unprintable_refused by (auto simp: strict_dump_def)

end
