(* ===== verification/Tool_Errors.thy ===== *)
theory Tool_Errors
  imports Terminal Utf8
begin

text \<open>
  What the error of a tool does to a chat.  The calculator reports an unexpected character by its first
  byte; if that is a byte of a longer character, the message is not UTF-8 and the library refuses to
  print it.
\<close>

section \<open>The message of the calculator\<close>

lemma accept_skip: "skip_space s = c # r \<Longrightarrow> x \<noteq> c \<Longrightarrow> accept x s = (False, c # r)"
  by (simp add: accept_def)

lemma skip_space_idem: "skip_space s = c # r \<Longrightarrow> skip_space (c # r) = c # r"
  by (metis skip_space_def dropWhile_idem)

definition unexpected :: "nat \<Rightarrow> char \<Rightarrow> string" where
  "unexpected pos c =
     ''unexpected character '' @ [SQUOTE] @ [c] @ [SQUOTE] @ '' at position '' @ nat_to_string pos"

lemma foreign_not_known:
  assumes "128 \<le> byte c"
  shows "c \<noteq> CHR ''-''" "c \<noteq> CHR ''+''" "c \<noteq> CHR ''(''" "\<not> is_number_char c" "\<not> is_alpha c"
  using assms by (auto simp: byte_def is_number_char_def is_digit_def is_alpha_def)

lemma foreign_expression:
  assumes "skip_space t = c # r" "128 \<le> byte c" "length t \<le> 4096"
  shows "evaluate_expression M t = Some (err KInvalidArgument (unexpected (length t - length (c # r)) c))"
proof -
  note known = foreign_not_known [OF assms(2)]
  note again = skip_space_idem [OF assms(1)]
  have "parse_fully M N Primary d (c # r) = Some (fail_at N (c # r) (''unexpected character '' @ [SQUOTE] @ [c] @ [SQUOTE]))"
    for N d
    unfolding parse_fully_step [of M N Primary]
    by (simp add: parse_step_def parse_primary_def again accept_skip [OF again known(3) [symmetric]] known)
  then have "parse_fully M N Unary d t = Some (fail_at N (c # r) (''unexpected character '' @ [SQUOTE] @ [c] @ [SQUOTE]))"
    if "d < max_depth" for N d
    unfolding parse_fully_step [of M N Unary] using that
    by (simp add: parse_step_def parse_unary_def accept_skip [OF assms(1) known(1) [symmetric]]
        accept_skip [OF again known(2) [symmetric]] parse_fully_step [of M N Power] parse_power_def fail_at_def err_def)
  then have "parse_fully M N Expr 0 t = Some (fail_at N (c # r) (''unexpected character '' @ [SQUOTE] @ [c] @ [SQUOTE]))" for N
    by (simp add: P_Expr P_Term sum_start_def product_start_def max_depth_def fail_at_def err_def)
  then show ?thesis
    using assms(3) by (simp add: evaluate_expression_fully fail_at_def err_def unexpected_def)
qed

lemma unexpected_not_utf8:
  assumes "128 \<le> byte c"
  shows "\<not> valid_utf8 (unexpected n c)"
proof -
  have "\<not> valid_utf8 (c # SQUOTE # s)" for s
    by (rule half_character [OF assms]) (simp add: byte_def)
  moreover have "\<forall>c \<in> set (''unexpected character '' @ [SQUOTE]). byte c < 128"
    by (simp add: byte_def)
  ultimately show ?thesis
    unfolding unexpected_def
    using valid_utf8_ascii_append [of "''unexpected character '' @ [SQUOTE]" "c # SQUOTE # s" for s] by simp
qed

section \<open>The end of the chat\<close>

definition calculator_call :: "'j json_lib \<Rightarrow> string \<Rightarrow> 'j function_call \<Rightarrow> bool" where
  "calculator_call J t call \<longleftrightarrow>
     fc_name call = ''evaluate_expression'' \<and> json_dump J (fc_args call) \<noteq> None \<and>
     Option.bind (json_find J (fc_args call) ''expression'') (json_get_string J) = Some t"

lemma invoke_calculator:
  assumes "calculator_call J t call" "evaluate_expression M t = Some (err k m)"
  shows "invoke J (register_defaults J M wall_clock []) call w =
    (Inr \<lparr>fr_name = fc_name call, fr_response = error_object J m, fr_id = fc_id call\<rparr>, w)"
  using assms
  by (simp add: calculator_call_def register_defaults_def add_tool_def time_declaration_def
      evaluate_declaration_def run_tool_def evaluate_tool_def err_def make_error_def)

lemma foreign_call:
  assumes J: "json_api (app_json A)" "strict_dump (app_json A)" and call: "calculator_call (app_json A) t call"
    and foreign: "skip_space t = c # r" "128 \<le> byte c" "length t \<le> 4096"
  shows "\<exists>w'. answer_calls (chat_of A x conf opts)
      (register_defaults (app_json A) (app_math A) (app_wall A) []) (call # calls) w =
    (Inl (Thrown ''type_error.316''), w')"
proof -
  have "json_dump (app_json A) (error_object (app_json A) (unexpected n c)) = None" for n
    unfolding error_object_def using json_api.strict_refuses [OF J] unexpected_not_utf8 [OF foreign(2)]
    by (simp add: json_api.unprintable_object [OF J(1), of _ "''error''"] json_api.unprintable_string [OF J(1)])
  then have "\<exists>w'. show_tool_call A call
      \<lparr>fr_name = fc_name call, fr_response = error_object (app_json A) (unexpected n c), fr_id = fc_id call\<rparr> w =
    (Some ''type_error.316'', w')" for n
    by (auto simp: show_tool_call_def Let_def split: option.split)
  then obtain w' where shown: "show_tool_call A call
      \<lparr>fr_name = fc_name call,
       fr_response = error_object (app_json A) (unexpected (length t - length (c # r)) c), fr_id = fc_id call\<rparr> w =
    (Some ''type_error.316'', w')" by blast
  obtain d where dump: "json_dump (app_json A) (fc_args call) = Some d"
    using call by (auto simp: calculator_call_def)
  have sel: "chat_json (chat_of A x conf opts) = app_json A"
    "observer (chat_of A x conf opts) = Some (show_tool_call A)" by (simp_all add: chat_of_def)
  show ?thesis
    unfolding answer_calls.simps sel dump_body_def dump
      invoke_calculator [OF call foreign_expression [OF foreign]]
    by (simp add: observe_def sel shown [simplified])
qed

text \<open>A line that is not one of the commands of the chat.\<close>

definition plain_message :: "string \<Rightarrow> bool" where
  "plain_message l \<longleftrightarrow>
     \<not> list_all (\<lambda>x. x = SP \<or> x = TAB) l \<and> l \<notin> {''/exit'', ''/quit'', ''/reset'', ''/usage'', ''/history''}"

text \<open>
  C3: one foreign character ends the chat.  Whenever the model, in a chat with tools, answers with a call
  of the calculator whose expression starts with a character that is not ASCII (a minus sign or a root
  from the mathematical symbols, say), the program is left by an exception: the calculator's message
  quotes the first byte of the character alone, and printing the result of the tool throws.
\<close>

theorem foreign_expression_escapes:
  assumes "json_api (app_json A)" "strict_dump (app_json A)" "has_flag x ''tools''"
    and "read_line A s = (Some l, s0)" "plain_message l"
    and "stream (app_json A) (app_env A) opts
        (build_request (chat_of A x conf opts) (history ses @ [user_content l])) (Some (stdout_printer A))
        (start_reply A s0) = (Inr response, seen, s1)"
    and "function_calls response = call # calls" "calculator_call (app_json A) t call"
    and "skip_space t = c # r" "128 \<le> byte c" "length t \<le> 4096"
  shows "\<exists>s'. chat_loop A (chat_of A x conf opts) ses s = Some (Escaped (Thrown ''type_error.316''), s')"
proof -
  let ?S = "chat_of A x conf opts" and ?m = "user_content l"
  have cands: "\<exists>cand rest. candidates response = cand # rest"
    using assms(7) by (cases "candidates response") (simp_all add: function_calls_def)
  have set: "chat_json ?S = app_json A" "chat_env ?S = app_env A" "chat_client ?S = opts"
    "chat_registry ?S = Some (register_defaults (app_json A) (app_math A) (app_wall A) [])"
    "max_tool_rounds (chat_opts ?S) = 8"
    using assms(3) by (simp_all add: chat_of_def)
  obtain w' where "answer_calls ?S (register_defaults (app_json A) (app_math A) (app_wall A) []) (call # calls)
      (world s1) = (Inl (Thrown ''type_error.316''), w')"
    using foreign_call [OF assms(1,2,8-11)] by blast
  then have "\<exists>ses' s'. send_rounds ?S (Some (stdout_printer A)) k (Suc n) (push ?m ses) (start_reply A s0) =
      (Inl (Thrown ''type_error.316''), ses', s')" for k n
    using cands assms(6,7) by (auto simp: ask_def set Let_def push_def simp del: answer_calls.simps)
  moreover have "nat (8 + 1) = Suc 8" by simp
  ultimately have "\<exists>ses' s'. send ?S (Some (stdout_printer A)) l ses (start_reply A s0) =
      (Inl (Thrown ''type_error.316''), ses', s')"
    unfolding send_def set by presburger
  then show ?thesis
    using assms(4,5) unfolding chat_loop.simps [of A ?S ses s]
    by (auto simp: chat_line_def plain_message_def split: option.split)
qed

text \<open>A library that parses \<open>x\<close> as a call with the square root sign, and prints nothing that is not UTF-8.\<close>

definition root_of_two :: string where
  "root_of_two = [CHR 0xE2, CHR 0x88, CHR 0x9A, CHR ''2'']"

definition root_reply :: jval where
  "root_reply =
     JObject [(''candidates'', JArray [JObject [(''content'', JObject [(''parts'', JArray [
       JObject [(''functionCall'', JObject [(''name'', JString ''evaluate_expression''),
         (''args'', JObject [(''expression'', JString root_of_two)])])]])])]])]"

definition root_json :: "jval json_lib" where
  "root_json = jval_lib (\<lambda>t. if t = ''x'' then Some root_reply else None) (\<lambda>j. if all_utf8 j then Some ''x'' else None)"

definition root_app :: "(jval, script \<times> terminal) app" where
  "root_app = sample_terminal_app\<lparr>app_json := root_json\<rparr>"

definition root_call :: "jval function_call" where
  "root_call =
     \<lparr>fc_name = ''evaluate_expression'', fc_args = JObject [(''expression'', JString root_of_two)], fc_id = []\<rparr>"

definition root_response :: "jval generate_response" where
  "root_response =
     empty_response\<lparr>candidates :=
       [\<lparr>cand_content = \<lparr>role = Model,
            parts = [\<lparr>part_value = Call root_call, thought = False, thought_signature = []\<rparr>]\<rparr>,
         cand_finish_reason = [], cand_index = 0\<rparr>]\<rparr>"

lemma root_parse: "parse_response_body root_json ''x'' = Inr root_response"
  by (simp add: parse_response_body_def root_json_def root_reply_def parse_generate_response_def find_array_at_def
      parse_candidate_def string_or_def int_or_def parse_content_def parse_part_def find_string_at_def
      find_object_at_def bind_result_def parse_usage_def root_response_def root_call_def empty_response_def to_i32_def)

lemma root_strict: "strict_dump root_json"
  by (simp add: root_json_def strict_reference)

lemma root_api: "json_api root_json"
  by (simp add: root_json_def reference_json.json_api_axioms)

lemma root_valid: "valid_utf8 root_of_two"
  by (simp add: root_of_two_def byte_def tail_ranges_def in_range_def Let_def)

lemma root_calls: "function_calls root_response = [root_call]" "calculator_call root_json root_of_two root_call"
  by (simp_all add: root_response_def function_calls_def calculator_call_def root_call_def root_json_def
      root_valid byte_def tail_ranges_def)


definition root_args :: args where
  "root_args = no_args\<lparr>arg_flags := {''tools''}\<rparr>"

definition root_setting :: "(jval, script \<times> terminal) chat_setting" where
  "root_setting = chat_of root_app root_args (plain_config root_json) sample_options"

lemma root_flag: "has_flag root_args ''tools''"
  by (simp add: root_args_def has_flag_def)

lemma root_dump: "dump_body root_json (request_to_json root_json (build_request root_setting [user_content ''hi''])) = Inr ''x''"
proof -
  have "build_request root_setting [user_content ''hi''] =
    \<lparr>contents = [user_content ''hi''], system_instruction = None,
     tools = [time_declaration root_json, evaluate_declaration root_json], config = plain_config root_json,
     safety_settings = []\<rparr>"
    by (simp add: build_request_def root_setting_def chat_of_def root_args_def has_flag_def declarations_def
        register_defaults_def add_tool_def get_arg_def get_all_def no_args_def root_app_def sample_terminal_app_def)
  moreover have "all_utf8 (request_to_json root_json
    \<lparr>contents = [user_content ''hi''], system_instruction = None,
     tools = [time_declaration root_json, evaluate_declaration root_json], config = plain_config root_json,
     safety_settings = []\<rparr>)"
    by (simp add: root_json_def request_to_json_def declaration_to_json_def time_declaration_def
        evaluate_declaration_def config_to_json_def plain_config_def set_opt_def content_to_json_def part_to_json_def
        user_content_def text_part_def ascii_valid byte_def Let_def del: valid_utf8.simps(2))
  ultimately show ?thesis by (simp add: dump_body_def root_json_def)
qed

text \<open>The line typed, and the network's answer.\<close>

definition root_state :: "(script \<times> terminal) client_state" where
  "root_state =
     start_state ([([''data: '', ''x'', [NL]], Inr [])], blank_terminal\<lparr>typed := ''hi'' @ [NL]\<rparr>)"

definition root_asked :: "(script \<times> terminal) client_state" where
  "root_asked = start_state ([([''data: '', ''x'', [NL]], Inr [])], blank_terminal)"

lemma root_line: "read_line root_app root_state = (Some ''hi'', root_asked)"
  by (simp add: read_line_def root_app_def sample_terminal_app_def term_console_def root_state_def start_state_def
      next_line_def blank_terminal_def root_asked_def)

lemma root_start: "start_reply root_app root_asked = root_asked"
  by (simp add: start_reply_def root_app_def sample_terminal_app_def term_console_def on_terminal_def root_asked_def
      start_state_def blank_terminal_def)

lemma root_app_sel:
  "app_json root_app = root_json" "app_env root_app = lift_env scripted" "app_console root_app = term_console"
  by (simp_all add: root_app_def sample_terminal_app_def)

lemma root_attempt:
  "world s = ([([''data: '', ''x'', [NL]], Inr [])], blank_terminal) \<Longrightarrow>
   stream_attempt root_json (lift_env scripted) sample_options body (Some (stdout_printer root_app)) (False, []) s =
     (Inr root_response, (True, [root_response]), s\<lparr>world := ([], blank_terminal)\<rparr>)"
proof -
  have "merge_response empty_response root_response = root_response"
    by (simp add: merge_response_def root_response_def empty_response_def zero_usage_def absorb_def
        append_part_def)
  moreover have "stdout_printer root_app root_response ([], blank_terminal) = (True, [], blank_terminal)"
    by (simp add: stdout_printer_def root_app_sel term_console_def read_flag_def blank_terminal_def root_response_def
        content_text_def on_terminal_def)
  ultimately show "world s = ([([''data: '', ''x'', [NL]], Inr [])], blank_terminal) \<Longrightarrow> ?thesis"
    by (simp add: stream_attempt_def lift_env_def next_answer_def sample_feed start_attempt_def stream_outcome_def
        sample_check finish_def dispatch_def on_event_def root_parse del: feed_chunks.simps)
qed

lemma root_stream:
  "\<exists>s1. stream root_json (lift_env scripted) sample_options (build_request root_setting [user_content ''hi''])
     (Some (stdout_printer root_app)) root_asked = (Inr root_response, [root_response], s1)"
proof -
  let ?request = "build_request root_setting [user_content ''hi'']"
  have "validate sample_options ?request = Inr ()"
    by (simp add: validate_def sample_options_def build_request_def default_options_def default_model_def)
  moreover have clock: "clock (lift_env scripted) w = (0, w)" for w :: "script \<times> terminal"
    by (simp add: lift_env_def split: prod.split)
  moreover have "world (count_attempt (snd (read_clock (lift_env scripted) (count_request root_asked)))) =
      ([([''data: '', ''x'', [NL]], Inr [])], blank_terminal)"
    by (simp add: read_clock_def clock count_request_def count_attempt_def root_asked_def start_state_def)
  note attempt = root_attempt [OF this]
  moreover have "check_blocked (Inr root_response) = Inr root_response"
    by (simp add: check_blocked_def root_response_def empty_response_def)
  ultimately show ?thesis
    by (simp add: stream_def root_dump read_clock_def with_retry.simps finish_call_def Let_def split: prod.split)
qed

theorem foreign_expression_escapes_witness:
  "\<exists>s'. chat_loop root_app root_setting new_session root_state = Some (Escaped (Thrown ''type_error.316''), s')"
proof -
  obtain s1 where run: "stream root_json (lift_env scripted) sample_options (build_request root_setting [user_content ''hi''])
     (Some (stdout_printer root_app)) root_asked = (Inr root_response, [root_response], s1)"
    using root_stream by blast
  have root: "skip_space root_of_two = CHR 0xE2 # tl root_of_two" "128 \<le> byte (CHR 0xE2)" "length root_of_two \<le> 4096"
    by (simp_all add: root_of_two_def skip_space_def byte_def)
  show ?thesis
    using foreign_expression_escapes [where A = root_app and x = root_args and s = root_state and l = "''hi''"
        and ?s0.0 = root_asked and opts = sample_options and conf = "plain_config root_json" and ses = new_session
        and response = root_response and seen = "[root_response]" and ?s1.0 = s1 and call = root_call
        and calls = "[]" and t = root_of_two, OF _ _ _ _ _ _ _ _ root]
      run
    by (simp add: root_app_sel root_api root_strict root_line root_start root_calls root_setting_def [symmetric]
        plain_message_def new_session_def root_flag)
qed

end
