(* ===== verification/Repair_Errors.thy ===== *)
theory Repair_Errors
  imports Runner Utf8
begin

text \<open>
  The log of a failed attempt, cut in the middle of a character.  \<^verbatim>\<open>truncate_log\<close> of
  \<^verbatim>\<open>src/eval/runner.cpp\<close> counts bytes, and its text is a part of the next request, which the JSON library
  then refuses to print: the exception leaves the runner.
\<close>

section \<open>Requests that cannot be printed\<close>

context json_api begin

lemma unprintable_part:
  assumes "part_value p = Text t" "\<not> valid_utf8 t" "thought_signature p = []"
  shows "unprintable J (part_to_json J p)"
proof (rule in_object)
  show "json_find J (part_to_json J p) ''text'' = Some (json_string J t)"
    using assms(1,3) by (simp add: part_to_json_def Let_def api_simps)
  show "unprintable J (json_string J t)" using assms(2) by (rule unprintable_string)
qed

lemma unprintable_content:
  assumes "p \<in> set (parts c)" "unprintable J (part_to_json J p)"
  shows "unprintable J (content_to_json J c)"
proof -
  have "unprintable J (json_array J (map (part_to_json J) (parts c)))"
    by (rule unprintable_array [OF _ assms(2)]) (use assms(1) in simp)
  then show ?thesis
    unfolding content_to_json_def by (rule unprintable_object [of _ "''parts''", rotated 2]) simp_all
qed

lemma unprintable_request:
  assumes "c \<in> set (contents r)" "unprintable J (content_to_json J c)"
  shows "unprintable J (request_to_json J r)"
proof -
  obtain j where j: "json_find J (request_to_json J r) ''contents'' = Some j"
    "json_get_array J j = Some (map (content_to_json J) (contents r))"
    using request_contents [of r] by (auto simp: find_array_at_def split: option.splits)
  have "content_to_json J c \<in> set (map (content_to_json J) (contents r))" using assms(1) by simp
  from in_object [OF j(1) in_array [OF j(2) this assms(2)]] show ?thesis .
qed

lemma unprintable_user:
  assumes "\<not> valid_utf8 t" "user_content t \<in> set (contents r)"
  shows "unprintable J (request_to_json J r)"
proof (rule unprintable_request [OF assms(2) unprintable_content])
  show "text_part t \<in> set (parts (user_content t))" by (simp add: user_content_def)
  show "unprintable J (part_to_json J (text_part t))"
    by (rule unprintable_part [OF _ assms(1)]) (simp_all add: text_part_def)
qed

lemma generate_refused:
  assumes "strict_dump J" "validate opts r = Inr ()" "user_content t \<in> set (contents r)" "\<not> valid_utf8 t"
  shows "\<exists>s'. generate J E opts r s = (Inl (Thrown ''type_error.316''), s')"
proof -
  have "dump_body J (request_to_json J r) = Inl (Thrown ''type_error.316'')"
    using strict_refuses [OF assms(1) unprintable_user [OF assms(4,3)]] by (simp add: dump_body_def)
  then show ?thesis using assms(2) by (simp add: generate_def Let_def split: prod.split)
qed

end

section \<open>The message of a repair round\<close>

lemma validate_iff: "validate opts r = Inr () \<longleftrightarrow> api_key opts \<noteq> [] \<and> model opts \<noteq> [] \<and> contents r \<noteq> []"
  by (simp add: validate_def err_def)

lemma generate_validated: "generate J E opts r s = (Inr reply, s') \<Longrightarrow> validate opts r = Inr ()"
  by (auto simp: generate_def Let_def split: sum.splits)

text \<open>A session without tools asks the model once.\<close>

lemma send_plain:
  assumes "chat_registry S = None" "0 \<le> max_tool_rounds (chat_opts S)"
  shows "send S None msg c s =
    (case generate (chat_json S) (chat_env S) (chat_client S)
        (build_request S (history c @ [user_content msg])) s of
       (Inl (Failed e), s) \<Rightarrow> rollback (length (history c)) e (push (user_content msg) c) s
     | (Inl f, s) \<Rightarrow> (Inl f, push (user_content msg) c, s)
     | (Inr response, s) \<Rightarrow>
         (let d = (push (user_content msg) c)\<lparr>total_usage := add_usage (total_usage c) (usage response)\<rparr> in
          case candidates response of
            [] \<Rightarrow> rollback (length (history c)) no_candidates d s
          | candidate # _ \<Rightarrow> (Inr response, push ((cand_content candidate)\<lparr>role := Model\<rparr>) d, s)))"
proof -
  have "nat (max_tool_rounds (chat_opts S) + 1) = Suc (nat (max_tool_rounds (chat_opts S)))" using assms(2) by simp
  then show ?thesis
    using assms(1) by (simp add: send_def ask_def push_def Let_def split: prod.split sum.split failure.split list.split)
qed

lemma runner_chat_sel [simp]:
  "chat_registry (runner_chat M opts) = None" "max_tool_rounds (chat_opts (runner_chat M opts)) = 8"
  "chat_json (runner_chat M opts) = ma_json M" "chat_client (runner_chat M opts) = ma_client M"
  "chat_env (runner_chat M opts) = ma_env M"
  by (simp_all add: runner_chat_def)

lemma send_validated:
  assumes "send (runner_chat M opts) None msg c s = (Inr reply, c', s')"
  shows "api_key (ma_client M) \<noteq> [] \<and> model (ma_client M) \<noteq> []"
  using assms generate_validated [of "ma_json M" "ma_env M" "ma_client M"] validate_iff [of "ma_client M"]
  by (fastforce simp: send_plain rollback_def split: prod.splits sum.splits failure.splits)

lemma build_request_contents [simp]: "contents (build_request S h) = h"
  by (simp add: build_request_def)

lemma send_refused:
  assumes "json_api (ma_json M)" "strict_dump (ma_json M)"
    and "api_key (ma_client M) \<noteq> []" "model (ma_client M) \<noteq> []" "\<not> valid_utf8 msg"
  shows "\<exists>c' s'. send (runner_chat M opts) None msg c s = (Inl (Thrown ''type_error.316''), c', s')"
proof -
  have "\<exists>s'. generate (ma_json M) (ma_env M) (ma_client M)
      (build_request (runner_chat M opts) (history c @ [user_content msg])) s = (Inl (Thrown ''type_error.316''), s')"
    using assms by (intro json_api.generate_refused) (simp_all add: validate_iff)
  then show ?thesis by (auto simp: send_plain)
qed

lemma repair_not_utf8: "\<not> valid_utf8 (at_detail a) \<Longrightarrow> \<not> valid_utf8 (build_repair_prompt a)"
proof -
  assume bad: "\<not> valid_utf8 (at_detail a)"
  let ?front = "''Your solution '' @ what_failed (at_outcome a) @ ''. Output:'' @ [NL] @ code_fence @ ''text'' @ [NL]"
  let ?rest = "code_fence @ [NL] @ ''Fix the problem and reply with the complete corrected solution.hpp in a '' @
     ''single '' @ code_fence @ ''cpp block.''"
  have "list_all (\<lambda>c. byte c < 128) ?front"
    by (cases "at_outcome a") (simp_all add: what_failed_def code_fence_def byte_def)
  then have "valid_utf8 (?front @ at_detail a @ NL # ?rest) \<longleftrightarrow> valid_utf8 (at_detail a @ NL # ?rest)"
    by (intro valid_utf8_ascii_append) (simp add: list_all_iff)
  moreover have "\<not> valid_utf8 (at_detail a @ NL # ?rest)"
    using bad valid_utf8_before_ascii [of NL "at_detail a" ?rest] by (simp add: byte_def)
  ultimately show ?thesis by (simp add: build_repair_prompt_def)
qed

lemma repair_round_escapes:
  assumes "json_api (ma_json M)" "strict_dump (ma_json M)"
    and "send (runner_chat M opts) None msg c (snd (host_now H s)) = (Inr reply, c1, s1)"
    and "judge H opts t workdir k reply (snd (host_now H s1)) = Some (a, s2)"
    and "at_outcome a \<noteq> Pass" "at_outcome a \<noteq> HarnessError" "\<not> valid_utf8 (at_detail a)"
  shows "\<exists>s'. attempt_rounds H M opts t workdir (Suc (Suc n)) k msg c latency as s =
    Some (Inl (Thrown ''type_error.316''), s')"
proof -
  have "\<exists>c' s'. send (runner_chat M opts) None (build_repair_prompt a) c1 (snd (host_now H s2)) =
      (Inl (Thrown ''type_error.316''), c', s')"
    using send_refused [OF assms(1,2) _ _ repair_not_utf8 [OF assms(7)]] send_validated [OF assms(3)] by blast
  then have "\<exists>s'. attempt_rounds H M opts t workdir (Suc n) (k + 1) (build_repair_prompt a) c1 lat as' s2 =
      Some (Inl (Thrown ''type_error.316''), s')" for lat as'
    by (auto simp: Let_def split: prod.split)
  then show ?thesis
    using assms(3-6) by (subst attempt_rounds.simps) (auto simp: Let_def split: prod.split simp del: attempt_rounds.simps)
qed

section \<open>The end of the task\<close>

text \<open>
  C4: a log that is not UTF-8 ends the evaluation.  Whenever the first answer of the model to a task
  fails in a way that a repair round is meant for (it does not compile, fails or hangs in the tests, or
  holds no code) and the detail of the attempt is not UTF-8, \<^verbatim>\<open>run_task\<close> is left by the exception of the
  JSON library, neither giving a result nor removing its directory.  The detail of an answer that is
  UTF-8 can be such a text, because it is cut between two bytes.
\<close>

theorem unprintable_log_escapes:
  assumes "json_api (ma_json M)" "strict_dump (ma_json M)"
    and "\<not> use_reference opts" "0 < repair_rounds opts"
    and "host_suffix H (world s) = (uniq, w1)" "prepare H t (work_dir opts t uniq) w1 = (None, w2)"
    and "send (runner_chat M opts) None (build_prompt t) new_session (snd (host_now H (s\<lparr>world := w2\<rparr>))) =
      (Inr reply, c, s1)"
    and "judge H opts t (work_dir opts t uniq) 0 reply (snd (host_now H s1)) = Some (a, s2)"
    and "at_outcome a \<in> {CompileError, TestFailure, Timeout, Crash, NoCode}" "\<not> valid_utf8 (at_detail a)"
  shows "\<exists>s'. run_task H (Some M) opts t s = Some (Inl (Thrown ''type_error.316''), s')"
proof -
  obtain n where n: "nat (repair_rounds opts + 1) = Suc (Suc n)"
    using assms(4) by (intro that [of "nat (repair_rounds opts) - 1"]) linarith
  have "\<exists>s'. attempt_rounds H M opts t (work_dir opts t uniq) (Suc (Suc n)) 0 (build_prompt t) new_session 0 []
      (s\<lparr>world := w2\<rparr>) = Some (Inl (Thrown ''type_error.316''), s')"
    using assms(9) by (intro repair_round_escapes [OF assms(1,2,7,8) _ _ assms(10)]) auto
  then have "\<exists>s'. solve H (Some M) opts t (work_dir opts t uniq) (s\<lparr>world := w2\<rparr>) =
      Some (Inl (Thrown ''type_error.316''), s')"
    using assms(3) by (auto simp: solve_def n)
  then show ?thesis
    using assms(5,6) by (auto simp: run_task_def)
qed

text \<open>
  A model that answers every request with \<open>x\<close>, which the library parses as a reply with the square root
  sign and no code, and a runner that keeps eleven bytes of a log.
\<close>

definition remark :: string where
  "remark = [CHR 0xE2, CHR 0x88, CHR 0x9A]"

definition remark_json :: "jval json_lib" where
  "remark_json =
     jval_lib
       (\<lambda>t. if t = ''x'' then
          Some (JObject [(''candidates'', JArray [JObject [(''content'',
            JObject [(''parts'', JArray [JObject [(''text'', JString remark)]])])]])]) else None)
       (\<lambda>j. if all_utf8 j then Some ''x'' else None)"

definition echo :: "os_script environment" where
  "echo =
     \<lparr>net = \<lparr>tr_send = (\<lambda>_ w. (answer (Inr ''x''), w)), tr_stream = (\<lambda>_ w. ([], \<lambda>_. answer (Inr ''x''), w))\<rparr>,
      pow_fn = (\<lambda>_ _. Fin False 1), draw = (\<lambda>w. (Fin False 0, w)), clock = (\<lambda>w. (0, w)), sleeper = (\<lambda>_ w. w)\<rparr>"

definition echo_model :: "(jval, os_script) model_access" where
  "echo_model = \<lparr>ma_json = remark_json, ma_env = echo, ma_client = sample_options\<rparr>"

definition repairing_runner :: "jval runner_options" where
  "repairing_runner =
     sample_runner\<lparr>use_reference := False, repair_rounds := 1, max_log_bytes := 11, generation := plain_config remark_json\<rparr>"

definition remark_response :: "jval generate_response" where
  "remark_response =
     empty_response\<lparr>candidates :=
       [\<lparr>cand_content = \<lparr>role = Model, parts = [text_part remark]\<rparr>, cand_finish_reason = [], cand_index = 0\<rparr>]\<rparr>"

lemma remark_valid: "valid_utf8 remark"
  by (simp add: remark_def byte_def tail_ranges_def in_range_def Let_def)

lemma remark_parse: "parse_response_body remark_json ''x'' = Inr remark_response"
  by (simp add: parse_response_body_def remark_json_def parse_generate_response_def find_array_at_def
      parse_candidate_def string_or_def int_or_def parse_content_def parse_part_def find_string_at_def
      find_object_at_def bind_result_def parse_usage_def remark_response_def empty_response_def to_i32_def
      value_bool_def text_part_def)

lemma remark_api: "json_api remark_json" "strict_dump remark_json"
  by (simp_all add: remark_json_def reference_json.json_api_axioms strict_reference)

lemma remark_no_code: "extract_cpp_source remark = None"
  by (simp add: extract_cpp_source_def find_code_blocks_def remark_def parse_fence_def
      drop_indent_def chop_cr_def looks_like_code_def contains_sub_def)

lemma remark_log: "\<not> valid_utf8 (truncate_log (''finish_reason='' @ NL # remark) 11)"
proof -
  have "truncate_log (''finish_reason='' @ NL # remark) 11 =
      (''finish_re'' @ [NL] @ ''... ['' @ nat_to_string (length (''finish_reason='' @ NL # remark) - 11) @ '' bytes truncated] ...'') @ NL # drop 1 remark"
    by (simp add: truncate_log_def remark_def)
  then obtain u where u: "truncate_log (''finish_reason='' @ NL # remark) 11 = u @ NL # drop 1 remark" by blast
  have "\<not> valid_utf8 (drop 1 remark)"
    by (simp add: remark_def byte_def tail_ranges_def Let_def)
  then show ?thesis
    unfolding u using valid_utf8_before_ascii [of NL u "drop 1 remark"] by (simp add: byte_def)
qed

lemma remark_judged:
  "\<exists>a. judge script_host repairing_runner sample_task d 0 remark_response s = Some (a, s) \<and>
     at_outcome a = NoCode \<and> \<not> valid_utf8 (at_detail a)"
proof -
  have "response_text remark_response = remark" "response_finish_reason remark_response = []"
    by (simp_all add: remark_response_def response_text_def content_text_def text_part_def response_finish_reason_def)
  then show ?thesis
    using remark_log by (simp add: judge_def remark_no_code repairing_runner_def new_attempt_def)
qed

lemma remark_dump:
  "dump_body remark_json (request_to_json remark_json
     (build_request (runner_chat echo_model repairing_runner) [user_content (build_prompt sample_task)])) = Inr ''x''"
proof -
  have texts: "valid_utf8 system_prompt" "valid_utf8 (build_prompt sample_task)"
    by (rule ascii_valid, simp add: system_prompt_def build_prompt_def sample_task_def code_fence_def byte_def)+
  have "build_request (runner_chat echo_model repairing_runner) [user_content (build_prompt sample_task)] =
    \<lparr>contents = [user_content (build_prompt sample_task)], system_instruction = Some (user_content system_prompt),
     tools = [], config = plain_config remark_json, safety_settings = []\<rparr>"
    by (simp add: build_request_def runner_chat_def repairing_runner_def)
  moreover have "all_utf8 (request_to_json remark_json
    \<lparr>contents = [user_content (build_prompt sample_task)], system_instruction = Some (user_content system_prompt),
     tools = [], config = plain_config remark_json, safety_settings = []\<rparr>)"
    using texts
    by (simp add: remark_json_def request_to_json_def config_to_json_def plain_config_def set_opt_def content_to_json_def
        part_to_json_def user_content_def text_part_def ascii_valid byte_def Let_def del: valid_utf8.simps(2))
  ultimately show ?thesis by (simp add: dump_body_def remark_json_def)
qed

lemma remark_generate:
  "\<exists>s'. generate remark_json echo sample_options
     (build_request (runner_chat echo_model repairing_runner) [user_content (build_prompt sample_task)]) s =
     (Inr remark_response, s')"
proof -
  let ?request = "build_request (runner_chat echo_model repairing_runner) [user_content (build_prompt sample_task)]"
  have "validate sample_options ?request = Inr ()"
    by (simp add: validate_iff sample_options_def default_options_def default_model_def)
  moreover have "generate_attempt remark_json echo sample_options ''x'' () u = (Inr remark_response, (), u)" for u
    by (simp add: generate_attempt_def echo_def sample_check bind_result_def remark_parse)
  moreover have "check_blocked (Inr remark_response) = Inr remark_response"
    by (simp add: check_blocked_def remark_response_def empty_response_def)
  ultimately show ?thesis
    by (simp add: generate_def remark_dump with_retry.simps finish_call_def Let_def split: prod.split)
qed

theorem unprintable_log_escapes_witness:
  "\<exists>s'. run_task script_host (Some echo_model) repairing_runner sample_task (start_state sample_world) =
     Some (Inl (Thrown ''type_error.316''), s')"
proof -
  have now: "snd (host_now script_host s) = s" for s :: "os_script client_state"
    by (cases "world s") (simp add: host_now_def)
  let ?s = "start_state sample_world\<lparr>world := sample_world\<rparr>"
  obtain s1 where gen: "generate remark_json echo sample_options
     (build_request (runner_chat echo_model repairing_runner) [user_content (build_prompt sample_task)]) ?s =
     (Inr remark_response, s1)" using remark_generate by blast
  obtain a where a: "judge script_host repairing_runner sample_task
      (work_dir repairing_runner sample_task ''0'') 0 remark_response s1 = Some (a, s1)"
    "at_outcome a = NoCode" "\<not> valid_utf8 (at_detail a)" using remark_judged by blast
  have model: "ma_json echo_model = remark_json" "ma_env echo_model = echo" "ma_client echo_model = sample_options"
    by (simp_all add: echo_model_def)
  have cand: "\<exists>cd cs. candidates remark_response = cd # cs" by (simp add: remark_response_def)
  have "\<exists>c. send (runner_chat echo_model repairing_runner) None (build_prompt sample_task) new_session ?s =
    (Inr remark_response, c, s1)"
    using cand by (auto simp: send_plain model new_session_def gen Let_def)
  then obtain c where send: "send (runner_chat echo_model repairing_runner) None (build_prompt sample_task) new_session ?s =
    (Inr remark_response, c, s1)" by blast
  show ?thesis
    using unprintable_log_escapes [where M = echo_model and opts = repairing_runner and H = script_host and uniq = "''0''"
        and s = "start_state sample_world" and t = sample_task and ?w1.0 = sample_world and ?w2.0 = sample_world
        and reply = remark_response and c = c and ?s1.0 = s1 and a = a and ?s2.0 = s1]
      a send
    by (simp add: model remark_api now start_state_def prepare_def repairing_runner_def sample_runner_def)
qed

end
