(* ===== verification/Interrupts.thy ===== *)
theory Interrupts
  imports Chat Curl_Transport
begin

text \<open>
  What an interruption comes to.  The transport reports \<^const>\<open>KCancelled\<close> only when the callback has
  stopped it, and then the client does not look at what the transport reports: it returns what it has
  received.  So an error of that kind never leaves a session, and the branch of \<^verbatim>\<open>gemini-cpp chat\<close> that
  prints that a reply was cancelled is never taken.
\<close>

section \<open>Errors other than a cancellation\<close>

definition no_cancel :: "'a result \<Rightarrow> bool" where
  "no_cancel r \<longleftrightarrow> (case r of Inl (Failed e) \<Rightarrow> code e \<noteq> KCancelled | _ \<Rightarrow> True)"

lemma no_cancel_simps [simp]:
  "no_cancel (Inr a)" "no_cancel (Inl (Thrown x))" "no_cancel (Inl (Undefined x))"
  "no_cancel (Inl (Failed e)) \<longleftrightarrow> code e \<noteq> KCancelled" "no_cancel (err k m) \<longleftrightarrow> k \<noteq> KCancelled"
  by (simp_all add: no_cancel_def err_def make_error_def)

lemma no_cancel_bind: "no_cancel r \<Longrightarrow> (\<And>a. r = Inr a \<Longrightarrow> no_cancel (f a)) \<Longrightarrow> no_cancel (bind_result r f)"
  by (cases r) (auto simp: bind_result_def no_cancel_def)

lemma no_cancel_Inl: "r = Inl f \<Longrightarrow> no_cancel r \<Longrightarrow> no_cancel (Inl f)"
  by (simp add: no_cancel_def)

section \<open>The wire format\<close>

lemma parse_part_no_cancel: "no_cancel (parse_part J j)"
  by (auto simp: parse_part_def value_bool_def Let_def bind_result_def split: option.split sum.split)

lemma parse_parts_no_cancel: "no_cancel (parse_parts J pjs)"
proof (induction pjs)
  case (Cons pj pjs)
  with parse_part_no_cancel [of J pj] show ?case
    by (auto simp: no_cancel_def bind_result_def split: sum.splits failure.splits)
qed simp

lemma parse_content_no_cancel: "no_cancel (parse_content J j)"
  by (auto simp: parse_content_def Let_def intro!: no_cancel_bind parse_parts_no_cancel split: option.split)

lemma parse_candidates_no_cancel: "no_cancel (parse_candidates J i cjs)"
  by (induction cjs arbitrary: i)
    (auto simp: parse_candidate_def Let_def intro!: no_cancel_bind parse_content_no_cancel split: option.split)

lemma parse_response_no_cancel: "no_cancel (parse_response_body J body)"
  by (auto simp: parse_response_body_def parse_generate_response_def intro!: no_cancel_bind parse_candidates_no_cancel
      split: option.split)

lemma retry_info_no_error: "retry_info J ds acc = Inl f \<Longrightarrow> f \<noteq> Failed e"
  by (induction ds arbitrary: acc)
    (auto simp: parse_proto_duration_def bind_result_def Let_def split: if_splits prod.splits option.splits sum.splits)

lemma retry_after_no_error: "retry_after_header hs = Inl f \<Longrightarrow> f \<noteq> Failed e"
  by (auto simp: retry_after_header_def split: if_splits prod.splits option.splits)

lemma check_http_no_cancel:
  assumes "\<And>e. response = Inl e \<Longrightarrow> code e \<noteq> KCancelled"
  shows "no_cancel (check_http J response)"
proof -
  have "code_for_status st api \<noteq> KCancelled" for st api by (simp add: code_for_status_def)
  moreover have "no_cancel (Inl f :: http_response result)" if "parse_api_error J st body hs = Inl f" for st body hs f
    using that retry_info_no_error retry_after_no_error
    by (cases f) (force simp: parse_api_error_def Let_def bind_result_def split: sum.splits option.splits)+
  moreover have "code e \<noteq> KCancelled" if "parse_api_error J st body hs = Inr e" for st body hs e
    using that calculation(1) by (auto simp: parse_api_error_def Let_def bind_result_def split: sum.splits option.splits)
  ultimately show ?thesis
    using assms by (auto simp: check_http_def bind_result_def split: sum.split)
qed

text \<open>What the handler of the events keeps for the end of an attempt.\<close>

definition heard_no_cancel :: "('j, 'w) stream_state \<Rightarrow> bool" where
  "heard_no_cancel st \<longleftrightarrow>
     (\<forall>f. escaped st = Some f \<longrightarrow> no_cancel (Inl f :: unit result)) \<and>
     (\<forall>e. parse_error st = Some e \<longrightarrow> code e \<noteq> KCancelled)"

lemma heard_handler:
  fixes J :: "'j json_lib" and f :: "('j, 'w) stream_callback option"
  shows "handler_invariant (on_event J f) heard_no_cancel"
proof unfold_locales
  fix st :: "('j, 'w) stream_state" and d
  assume "heard_no_cancel st"
  then show "heard_no_cancel (snd (on_event J f d st))"
    using parse_response_no_cancel [of J d]
    by (auto simp: on_event_def heard_no_cancel_def no_cancel_def Let_def split: sum.splits failure.splits option.splits prod.splits)
qed

section \<open>A transport that cancels only when it is stopped\<close>

locale stopping_transport =
  fixes T :: "'w transport"
  assumes send_uncancelled: "tr_send T r w = (Inl e, w') \<Longrightarrow> code e \<noteq> KCancelled"
    and stream_uncancelled: "tr_stream T r w = (cs, fin, w') \<Longrightarrow> fin False = Inl e \<Longrightarrow> code e \<noteq> KCancelled"
begin

lemma generate_attempt_no_cancel:
  assumes "net E = T" "generate_attempt J E opts body l s = (r, l', s')"
  shows "no_cancel r"
proof -
  obtain response w where "tr_send T (make_request opts (endpoint opts ''generateContent'' False) body) (world s) = (response, w)"
    by fastforce
  with assms send_uncancelled show ?thesis
    by (auto simp: generate_attempt_def intro!: no_cancel_bind check_http_no_cancel parse_response_no_cancel)
qed

text \<open>An attempt whose stream was broken off does not ask the transport for its verdict.\<close>

lemma stream_attempt_no_cancel:
  assumes "net E = T" "stream_attempt J E opts body f l s = (r, l', s')"
  shows "no_cancel r"
proof -
  let ?req = "make_request opts (endpoint opts ''streamGenerateContent'' True) body"
  obtain chunks fin w where tr: "tr_stream T ?req (world s) = (chunks, fin, w)" by (metis prod_cases3)
  obtain keep p st where fc:
    "feed_chunks (on_event J f) chunks new_parser (start_attempt (fst l) (snd l) w) = (keep, p, st)"
    by (metis prod_cases3)
  have "heard_no_cancel (start_attempt (fst l) (snd l) w)" by (simp add: heard_no_cancel_def start_attempt_def)
  from handler_invariant.feed_chunks_keeps [OF heard_handler this, of J f chunks new_parser] fc
  have heard: "heard_no_cancel st" by simp
  have heard2: "heard_no_cancel (snd (snd (finish (on_event J f) p st)))"
    by (rule handler_invariant.finish_keeps [OF heard_handler heard])
  have verdict: "no_cancel (check_http J (fin (\<not> keep)))" if "\<not> broken_off st"
  proof -
    obtain k st2 where run: "run_events (on_event J f) (sse_events (concat chunks)) (start_attempt (fst l) (snd l) w) = (k, st2)"
      by fastforce
    have keep
    proof (rule ccontr)
      assume "\<not> keep"
      with feed_finish_run [OF fc] run have "\<not> k" "st2 = st" by simp_all
      with run_on_event [OF run] that show False by simp
    qed
    then show ?thesis using stream_uncancelled [OF tr] by (intro check_http_no_cancel) simp
  qed
  show ?thesis
    using assms tr fc heard heard2 verdict
    by (auto simp: stream_attempt_def stream_outcome_def heard_no_cancel_def broken_off_def no_cancel_def Let_def
        split: option.splits if_splits sum.splits prod.splits)
qed

lemma finish_call_no_cancel:
  "finish_call E start r s = (r', s') \<Longrightarrow> no_cancel r \<Longrightarrow> no_cancel r'"
  by (cases r rule: returns.cases)
    (auto simp: finish_call_def check_blocked_def Let_def split: option.splits if_splits)

lemma validate_no_cancel: "validate opts request = Inl x \<Longrightarrow> no_cancel (Inl x :: 'a result)"
  by (auto simp: validate_def err_def make_error_def split: if_splits)

lemma dump_no_cancel: "dump_body J j = Inl x \<Longrightarrow> no_cancel (Inl x :: 'a result)"
  by (auto simp: dump_body_def split: option.splits)

lemma generate_no_cancel:
  assumes "net E = T" "generate J E opts request s = (r, s')"
  shows "no_cancel r"
  using assms(2)
proof (cases rule: generate_cases)
  case (refused x)
  show ?thesis
    unfolding refused(1) using refused(4) by (elim disjE) (erule validate_no_cancel, erule dump_no_cancel)
next
  case (ran body s0 r1 s1 start)
  from with_retry_last [OF ran(5), where P = "\<lambda>_. True"] obtain l0 t0 r0 t1 where
    "generate_attempt J E opts body l0 t0 = (r0, (), t1)" "r1 = r0 \<or> (\<exists>m. r1 = Inl (Undefined m))" by blast
  with generate_attempt_no_cancel [OF assms(1)] have "no_cancel r1" by (metis no_cancel_simps(3))
  then show ?thesis by (rule finish_call_no_cancel [OF ran(6)])
qed

lemma stream_no_cancel:
  assumes "net E = T" "stream J E opts request f s = (r, seen, s')"
  shows "no_cancel r"
proof (cases "validate opts request")
  case (Inl x)
  then show ?thesis using assms(2) validate_no_cancel by (auto simp: stream_def)
next
  case (Inr u)
  obtain start s0 where rc: "read_clock E (count_request s) = (start, s0)" by fastforce
  show ?thesis
  proof (cases "dump_body J (request_to_json J request)")
    case (Inl x)
    then show ?thesis using assms(2) Inr rc dump_no_cancel by (auto simp: stream_def)
  next
    case (Inr body)
    obtain r1 l1 s1 where wr:
      "with_retry E (retry opts) (stream_attempt J E opts body f) (\<lambda>l. \<not> fst l) 0 (False, []) s0 = (r1, l1, s1)"
      by (metis prod_cases3)
    obtain r2 s2 where fin: "finish_call E start r1 s1 = (r2, s2)" by fastforce
    from with_retry_last [OF wr, where P = "\<lambda>_. True"] obtain l0 t0 r0 t1 where
      "stream_attempt J E opts body f l0 t0 = (r0, l1, t1)" "r1 = r0 \<or> (\<exists>m. r1 = Inl (Undefined m))" by blast
    with stream_attempt_no_cancel [OF assms(1)] have "no_cancel r1" by (metis no_cancel_simps(3))
    from finish_call_no_cancel [OF fin this] show ?thesis
      using assms(2) \<open>validate opts request = Inr u\<close> rc Inr wr fin by (auto simp: stream_def split: prod.splits)
  qed
qed

lemma ask_no_cancel: "net (chat_env S) = T \<Longrightarrow> ask S f h s = (r, s') \<Longrightarrow> no_cancel r"
  using generate_no_cancel stream_no_cancel
  by (fastforce simp: ask_def split: option.splits prod.splits)

lemma send_rounds_no_cancel:
  assumes "net (chat_env S) = T"
  shows "send_rounds S f k n c s = (r, c', s') \<Longrightarrow> no_cancel r"
proof (induction n arbitrary: c s)
  case 0
  then show ?case by (auto simp: rollback_def too_many_rounds_def make_error_def)
next
  case (Suc n)
  obtain r1 s1 where ask: "ask S f (history c) s = (r1, s1)" by fastforce
  note r1 = ask_no_cancel [OF assms ask]
  show ?case
  proof (cases r1)
    case (Inl x)
    with Suc.prems ask r1 show ?thesis by (cases x) (auto simp: rollback_def)
  next
    case (Inr response)
    show ?thesis
      using Suc.prems ask Inr Suc.IH answer_calls_thrown
      by (fastforce simp: rollback_def no_candidates_def make_error_def no_cancel_def Let_def
          split: list.splits option.splits if_splits prod.splits sum.splits failure.splits)
  qed
qed

end

section \<open>The transport of the client\<close>

lemma transfer_uncancelled: "transfer_result False e r = Inl x \<Longrightarrow> code x \<noteq> KCancelled"
  by (auto simp: transfer_result_def make_error_def split: if_splits)

interpretation curl: stopping_transport "curl_transport version C"
proof unfold_locales
  fix r w e w'
  assume "tr_send (curl_transport version C) r w = (Inl e, w')"
  then show "code e \<noteq> KCancelled"
    by (auto simp: curl_transport_def curl_send_def perform_def run_transfer_plain make_error_def Let_def
        dest: transfer_uncancelled split: prod.splits if_splits option.splits)
next
  fix r w cs fin w' e
  assume "tr_stream (curl_transport version C) r w = (cs, fin, w')" "fin False = Inl e"
  then show "code e \<noteq> KCancelled"
    by (auto simp: curl_transport_def curl_stream_def make_error_def
        dest: transfer_uncancelled split: prod.splits if_splits option.splits)
qed

text \<open>
  C15: an interruption is never reported as one.  On the transport that the library uses, no error that
  \<^verbatim>\<open>send\<close> returns has the code \<^verbatim>\<open>kCancelled\<close>, whether it streams or not, whatever the callback does and
  whatever libcurl reports: a reply that is broken off by the user comes back as a partial response.
\<close>

theorem interruption_is_no_error:
  assumes "net (chat_env S) = curl_transport version C" "send S f msg c s = (Inl (Failed e), c', s')"
  shows "code e \<noteq> KCancelled"
  using curl.send_rounds_no_cancel [OF assms(1) assms(2) [unfolded send_def]] by simp

definition wired :: "unit environment" where
  "wired =
     \<lparr>net = curl_transport ''1'' scripted_curl, pow_fn = (\<lambda>_ _. Fin False 1), draw = (\<lambda>w. (Fin False 0, w)),
      clock = (\<lambda>w. (0, w)), sleeper = (\<lambda>_ w. w)\<rparr>"

definition wired_setting :: "(jval, unit) chat_setting" where
  "wired_setting =
     \<lparr>chat_json = sample_json, chat_env = wired, chat_client = sample_options,
      chat_opts = \<lparr>chat_system = None, chat_config = plain_config sample_json, max_tool_rounds = 8\<rparr>,
      chat_registry = None, observer = None\<rparr>"

lemma scripted_append: "\<exists>ls'. append_headers scripted_curl hs ls w = (Some ls', w)"
  by (induction hs arbitrary: ls) (auto simp: scripted_curl_def)

lemma wired_send: "\<exists>hs. tr_send (net wired) r w = (Inr \<lparr>resp_status = 200, resp_headers = hs, resp_body = ''onetwo''\<rparr>, w)"
proof -
  obtain ls where "append_headers scripted_curl (req_headers r) [] w = (Some ls, w)"
    using scripted_append by blast
  moreover have "cu_handle scripted_curl w = (True, w)" by (simp add: scripted_curl_def)
  ultimately show ?thesis
    by (simp add: wired_def curl_transport_def curl_send_def perform_def run_transfer_plain)
       (simp add: scripted_curl_def transfer_result_def empty_http_def to_i32_def)
qed

lemma wired_attempt: "\<exists>e. \<not> retryable e \<and> generate_attempt sample_json wired opts body l s = (Inl (Failed e), l, s)"
proof -
  obtain hs where "tr_send (net wired) (make_request opts (endpoint opts ''generateContent'' False) body) (world s) =
    (Inr \<lparr>resp_status = 200, resp_headers = hs, resp_body = ''onetwo''\<rparr>, world s)"
    using wired_send by blast
  then show ?thesis
    by (simp add: generate_attempt_def check_http_def bind_result_def parse_response_body_def sample_json_def err_def
        make_error_def retryable_def)
qed

theorem interruption_is_no_error_witness:
  "\<exists>e c' s'. send wired_setting None ''hi'' new_session (start_state ()) = (Inl (Failed e), c', s') \<and> code e \<noteq> KCancelled"
proof -
  have "\<exists>e s'. generate sample_json wired sample_options (build_request wired_setting [user_content ''hi'']) (start_state ())
      = (Inl (Failed e), s')"
  proof -
    have "validate sample_options (build_request wired_setting [user_content ''hi'']) = Inr ()"
      by (simp add: validate_def sample_options_def build_request_def default_options_def default_model_def)
    moreover obtain s0 where "read_clock wired (count_request (start_state ())) = (0, s0)"
      by (simp add: read_clock_def wired_def)
    moreover obtain e where "\<not> retryable e"
      "generate_attempt sample_json wired sample_options ''x'' () (count_attempt s0) = (Inl (Failed e), (), count_attempt s0)"
      using wired_attempt by blast
    ultimately show ?thesis
      by (simp add: generate_def sample_dump with_retry.simps finish_call_def check_blocked_def Let_def)
  qed
  then obtain e s' where "ask wired_setting None [user_content ''hi''] (start_state ()) = (Inl (Failed e), s')"
    by (auto simp: ask_def wired_setting_def)
  moreover have "nat (max_tool_rounds (chat_opts wired_setting) + 1) = Suc 8"
    by (simp add: wired_setting_def)
  ultimately obtain c' where "send wired_setting None ''hi'' new_session (start_state ()) = (Inl (Failed e), c', s')"
    by (simp add: send_def new_session_def push_def rollback_def eval_nat_numeral)
  moreover have "net (chat_env wired_setting) = curl_transport ''1'' scripted_curl"
    by (simp add: wired_setting_def wired_def)
  ultimately show ?thesis using interruption_is_no_error by blast
qed

end
