(* ===== verification/Concurrent_Calls.thy ===== *)
theory Concurrent_Calls
  imports Client_Properties
begin

text \<open>
  Calls of one client by several threads.  A call is cut into its atomic steps: every \<^verbatim>\<open>fetch_add\<close> on a
  counter, every reading of the clock, every attempt (which does not touch the counters), every draw and
  every sleep is one.  Run alone, the steps are the operation of \<^verbatim>\<open>Client\<close>; run by threads that take turns
  in any order, they keep the books of the client.
\<close>

section \<open>Programs and threads\<close>

text \<open>What a thread has left to do: it has finished, or takes a step that depends on the state.\<close>

datatype ('s, 'a) prog = Done 'a | Step "'s \<Rightarrow> 's" "'s \<Rightarrow> ('s, 'a) prog"

definition act :: "('s \<Rightarrow> 'b \<times> 's) \<Rightarrow> ('b \<Rightarrow> ('s, 'a) prog) \<Rightarrow> ('s, 'a) prog" where
  "act f k = Step (\<lambda>s. snd (f s)) (\<lambda>s. k (fst (f s)))"

definition act_on :: "('s \<Rightarrow> 's) \<Rightarrow> ('s, 'a) prog \<Rightarrow> ('s, 'a) prog" where
  "act_on f p = Step f (\<lambda>_. p)"

primrec run_alone :: "('s, 'a) prog \<Rightarrow> 's \<Rightarrow> 'a \<times> 's" where
  "run_alone (Done a) = (\<lambda>s. (a, s))"
| "run_alone (Step f k) = (\<lambda>s. run_alone (k s) (f s))"

lemma run_alone_act [simp]: "run_alone (act f k) s = run_alone (k (fst (f s))) (snd (f s))"
  by (simp add: act_def)

lemma run_alone_act_on [simp]: "run_alone (act_on f p) s = run_alone p (f s)"
  by (simp add: act_on_def)

text \<open>One thread of the pool takes its next step.\<close>

inductive pool_step :: "('s, 'a) prog list \<times> 's \<Rightarrow> ('s, 'a) prog list \<times> 's \<Rightarrow> bool" where
  "i < length ps \<Longrightarrow> ps ! i = Step f k \<Longrightarrow> pool_step (ps, s) (ps[i := k s], f s)"

inductive_cases pool_stepE: "pool_step (ps, s) c"

section \<open>The calls as programs\<close>

definition add_retries :: "'w client_state \<Rightarrow> 'w client_state" where
  "add_retries s = s\<lparr>metrics := (metrics s)\<lparr>retries := retries (metrics s) + 1\<rparr>\<rparr>"

definition take_sleep :: "'w environment \<Rightarrow> int \<Rightarrow> 'w client_state \<Rightarrow> 'w client_state" where
  "take_sleep E d s = s\<lparr>sleeps := sleeps s @ [d], world := sleeper E d (world s)\<rparr>"

definition add_latency :: "int \<Rightarrow> 'w client_state \<Rightarrow> 'w client_state" where
  "add_latency ms s =
     s\<lparr>metrics := (metrics s)\<lparr>latency_total := latency_total (metrics s) + word_of_int ms\<rparr>\<rparr>"

definition add_prompt :: "int \<Rightarrow> 'w client_state \<Rightarrow> 'w client_state" where
  "add_prompt n s = s\<lparr>metrics := (metrics s)\<lparr>prompt_total := prompt_total (metrics s) + word_of_int n\<rparr>\<rparr>"

definition add_output :: "int \<Rightarrow> 'w client_state \<Rightarrow> 'w client_state" where
  "add_output n s = s\<lparr>metrics := (metrics s)\<lparr>output_total := output_total (metrics s) + word_of_int n\<rparr>\<rparr>"

definition one_attempt :: "('a, 'l, 'w) attempt \<Rightarrow> 'l \<Rightarrow> 'w client_state \<Rightarrow> ('a result \<times> 'l) \<times> 'w client_state" where
  "one_attempt attempt l s = (let (r, l', s') = attempt l s in ((r, l'), s'))"

function retry_prog ::
  "'w environment \<Rightarrow> retry_policy \<Rightarrow> ('a, 'l, 'w) attempt \<Rightarrow> ('l \<Rightarrow> bool) \<Rightarrow> int \<Rightarrow> 'l \<Rightarrow>
   ('a result \<Rightarrow> 'l \<Rightarrow> ('w client_state, 'b) prog) \<Rightarrow> ('w client_state, 'b) prog" where
  "retry_prog E p attempt can_retry i l k =
     act_on count_attempt (act (one_attempt attempt l) (\<lambda>(result, l').
       case result of
         Inl (Failed e) \<Rightarrow>
           if \<not> retryable e \<or> attempt_limit p \<le> i + 1 \<or> \<not> can_retry l' then k result l'
           else act (next_delay E p i e) (\<lambda>delay.
             case delay of
               Inr d \<Rightarrow> act_on add_retries (act_on (take_sleep E d) (retry_prog E p attempt can_retry (i + 1) l' k))
             | Inl f \<Rightarrow> k (Inl f) l')
       | _ \<Rightarrow> k result l'))"
  by pat_completeness auto
termination
  by (relation "measure (\<lambda>(E, p, attempt, can_retry, i, l, k). nat (attempt_limit p - i))") auto

declare retry_prog.simps [simp del]

definition finish_prog ::
  "'w environment \<Rightarrow> int \<Rightarrow> 'j generate_response result \<Rightarrow>
   ('j generate_response result \<Rightarrow> ('w client_state, 'b) prog) \<Rightarrow> ('w client_state, 'b) prog" where
  "finish_prog E start result k =
     (if returns result then
        (let result = check_blocked result in
         act (read_clock E) (\<lambda>now.
         act_on (add_latency (elapsed_ms start now))
           (case result of
              Inr r \<Rightarrow>
                act_on (add_prompt (prompt_tokens (usage r)))
                  (act_on (add_output (candidates_tokens (usage r) + thoughts_tokens (usage r))) (k result))
            | Inl _ \<Rightarrow> act_on count_failure (k result))))
      else k result)"

definition generate_prog ::
  "'j json_lib \<Rightarrow> 'w environment \<Rightarrow> client_options \<Rightarrow> 'j generate_request \<Rightarrow>
   ('j generate_response result \<Rightarrow> ('w client_state, 'b) prog) \<Rightarrow> ('w client_state, 'b) prog" where
  "generate_prog J E opts request k =
     act_on count_request
       (case validate opts request of
          Inl f \<Rightarrow> k (Inl f)
        | Inr _ \<Rightarrow>
            act (read_clock E) (\<lambda>start.
            case dump_body J (request_to_json J request) of
              Inl f \<Rightarrow> k (Inl f)
            | Inr body \<Rightarrow>
                retry_prog E (retry opts) (generate_attempt J E opts body) (\<lambda>_. True) 0 ()
                  (\<lambda>result _. finish_prog E start result k)))"

definition stream_prog ::
  "'j json_lib \<Rightarrow> 'w environment \<Rightarrow> client_options \<Rightarrow> 'j generate_request \<Rightarrow> ('j, 'w) stream_callback option \<Rightarrow>
   ('j generate_response result \<Rightarrow> 'j generate_response list \<Rightarrow> ('w client_state, 'b) prog) \<Rightarrow>
   ('w client_state, 'b) prog" where
  "stream_prog J E opts request on_chunk k =
     act_on count_request
       (case validate opts request of
          Inl f \<Rightarrow> k (Inl f) []
        | Inr _ \<Rightarrow>
            act (read_clock E) (\<lambda>start.
            case dump_body J (request_to_json J request) of
              Inl f \<Rightarrow> k (Inl f) []
            | Inr body \<Rightarrow>
                retry_prog E (retry opts) (stream_attempt J E opts body on_chunk) (\<lambda>l. \<not> fst l) 0 (False, [])
                  (\<lambda>result l. finish_prog E start result (\<lambda>result. k result (snd l)))))"

definition count_tokens_prog ::
  "'j json_lib \<Rightarrow> 'w environment \<Rightarrow> client_options \<Rightarrow> 'j generate_request \<Rightarrow>
   (int result \<Rightarrow> ('w client_state, 'b) prog) \<Rightarrow> ('w client_state, 'b) prog" where
  "count_tokens_prog J E opts request k =
     act_on count_request
       (case validate opts request of
          Inl f \<Rightarrow> k (Inl f)
        | Inr _ \<Rightarrow>
            (let inner = json_set J (request_to_json J request) ''model'' (json_string J (''models/'' @ model opts)) in
             case dump_body J (json_object J [(''generateContentRequest'', inner)]) of
               Inl f \<Rightarrow> k (Inl f)
             | Inr body \<Rightarrow>
                 retry_prog E (retry opts) (count_tokens_attempt J E opts body) (\<lambda>_. True) 0 ()
                   (\<lambda>result _. case result of
                      Inl (Failed e) \<Rightarrow> act_on count_failure (k result)
                    | _ \<Rightarrow> k result)))"

text \<open>\<^verbatim>\<open>metrics()\<close> loads the counters one after the other, so a snapshot is not taken at one moment.\<close>

definition load :: "(metrics \<Rightarrow> 64 word) \<Rightarrow> 'w client_state \<Rightarrow> 64 word \<times> 'w client_state" where
  "load counter s = (counter (metrics s), s)"

definition snapshot_prog :: "(metrics \<Rightarrow> ('w client_state, 'b) prog) \<Rightarrow> ('w client_state, 'b) prog" where
  "snapshot_prog k =
     act (load requests) (\<lambda>a. act (load attempts) (\<lambda>b. act (load retries) (\<lambda>c. act (load failures) (\<lambda>d.
     act (load prompt_total) (\<lambda>e. act (load output_total) (\<lambda>f. act (load latency_total) (\<lambda>g.
       k \<lparr>requests = a, attempts = b, retries = c, failures = d, prompt_total = e, output_total = f,
          latency_total = g\<rparr>)))))))"

section \<open>Alone, they are the operations of the client\<close>

lemma run_snapshot: "run_alone (snapshot_prog k) s = run_alone (k (metrics s)) s"
  by (cases "metrics s") (simp add: snapshot_prog_def load_def)

lemma run_retry:
  "run_alone (retry_prog E p attempt can_retry i l k) s =
   (let (r, l', s') = with_retry E p attempt can_retry i l s in run_alone (k r l') s')"
proof (induction "nat (attempt_limit p - i)" arbitrary: i l s rule: less_induct)
  case less
  obtain r l' s' where at: "attempt l (count_attempt s) = (r, l', s')" by (metis prod_cases3)
  have run: "run_alone (retry_prog E p attempt can_retry i l k) s =
      run_alone (case r of
         Inl (Failed e) \<Rightarrow>
           if \<not> retryable e \<or> attempt_limit p \<le> i + 1 \<or> \<not> can_retry l' then k r l'
           else act (next_delay E p i e) (\<lambda>delay.
             case delay of
               Inr d \<Rightarrow> act_on add_retries (act_on (take_sleep E d) (retry_prog E p attempt can_retry (i + 1) l' k))
             | Inl f \<Rightarrow> k (Inl f) l')
       | _ \<Rightarrow> k r l') s'"
    by (simp add: retry_prog.simps [of E p attempt can_retry i l k] act_def one_attempt_def at)
  show ?case
  proof (cases "\<exists>e. r = Inl (Failed e) \<and> retryable e \<and> i + 1 < attempt_limit p \<and> can_retry l'")
    case False
    then show ?thesis
      unfolding run by (auto simp: with_retry.simps [of E p attempt can_retry i l s] at split: sum.splits failure.splits)
  next
    case True
    then obtain e where e: "r = Inl (Failed e)" "retryable e" "i + 1 < attempt_limit p" "can_retry l'" by blast
    obtain delay s2 where nd: "next_delay E p i e s' = (delay, s2)" by fastforce
    have sleep: "take_sleep E d (add_retries s2) = count_retry E d s2" for d
      by (simp add: take_sleep_def add_retries_def count_retry_def)
    have "nat (attempt_limit p - (i + 1)) < nat (attempt_limit p - i)" using e(3) by simp
    from less.hyps [OF this] show ?thesis
      unfolding run using e nd
      by (auto simp: with_retry.simps [of E p attempt can_retry i l s] at nd sleep split: sum.split)
  qed
qed

lemma run_finish: "run_alone (finish_prog E start r k) s = (let (r', s') = finish_call E start r s in run_alone (k r') s')"
proof (cases "returns r")
  case True
  obtain now s1 where rc: "read_clock E s = (now, s1)" by fastforce
  show ?thesis
    using True rc
    by (auto simp: finish_prog_def finish_call_def record_result_def Let_def add_latency_def
        add_prompt_def add_output_def split: sum.split)
next
  case False
  then show ?thesis by (simp add: finish_prog_def finish_call_def)
qed

lemma run_generate:
  "run_alone (generate_prog J E opts request k) s =
   (let (r, s') = generate J E opts request s in run_alone (k r) s')"
  by (auto simp: generate_prog_def generate_def run_retry run_finish split_beta Let_def split: sum.split)

lemma run_stream:
  "run_alone (stream_prog J E opts request on_chunk k) s =
   (let (r, seen, s') = stream J E opts request on_chunk s in run_alone (k r seen) s')"
  by (auto simp: stream_prog_def stream_def run_retry run_finish split_beta Let_def split: sum.split)

lemma run_count_tokens:
  "run_alone (count_tokens_prog J E opts request k) s =
   (let (r, s') = count_tokens J E opts request s in run_alone (k r) s')"
  by (auto simp: count_tokens_prog_def count_tokens_def run_retry count_unless_ok_def split_beta Let_def
      split: sum.split failure.split)

section \<open>Sums of counters\<close>

definition add_metrics :: "metrics \<Rightarrow> metrics \<Rightarrow> metrics" where
  "add_metrics m d =
     \<lparr>requests = requests m + requests d, attempts = attempts m + attempts d, retries = retries m + retries d,
      failures = failures m + failures d, prompt_total = prompt_total m + prompt_total d,
      output_total = output_total m + output_total d, latency_total = latency_total m + latency_total d\<rparr>"

definition total_metrics :: "metrics list \<Rightarrow> metrics" where
  "total_metrics ms = foldr add_metrics ms zero_metrics"

lemma add_metrics_monoid [simp]:
  "add_metrics m zero_metrics = m" "add_metrics zero_metrics m = m"
  "add_metrics (add_metrics a b) c = add_metrics a (add_metrics b c)"
  by (simp_all add: add_metrics_def zero_metrics_def ac_simps)

lemma add_metrics_commute: "add_metrics a b = add_metrics b a"
  by (simp add: add_metrics_def ac_simps)

lemma add_metrics_left_commute: "add_metrics a (add_metrics b c) = add_metrics b (add_metrics a c)"
  by (simp add: add_metrics_def ac_simps)

lemma add_metrics_sel [simp]:
  "requests (add_metrics a b) = requests a + requests b" "attempts (add_metrics a b) = attempts a + attempts b"
  "retries (add_metrics a b) = retries a + retries b" "failures (add_metrics a b) = failures a + failures b"
  "prompt_total (add_metrics a b) = prompt_total a + prompt_total b"
  "output_total (add_metrics a b) = output_total a + output_total b"
  by (simp_all add: add_metrics_def)

lemma total_metrics_simps [simp]:
  "total_metrics [] = zero_metrics" "total_metrics (m # ms) = add_metrics m (total_metrics ms)"
  by (simp_all add: total_metrics_def)

lemma total_metrics_update:
  "i < length ms \<Longrightarrow> total_metrics (ms[i := add_metrics (ms ! i) d]) = add_metrics (total_metrics ms) d"
  by (induction ms arbitrary: i)
    (auto simp: add_metrics_left_commute add_metrics_commute split: nat.split)

section \<open>What a program adds, whatever happens in between\<close>

text \<open>
  \<open>books p Q\<close>: in whatever states \<open>p\<close> takes its steps, when it has finished with \<open>a\<close> it has added \<open>d\<close> to the
  counters with \<open>Q d a\<close>.  Between two steps the other threads may do as they like.
\<close>

primrec books :: "('w client_state, 'a) prog \<Rightarrow> (metrics \<Rightarrow> 'a \<Rightarrow> bool) \<Rightarrow> bool" where
  "books (Done a) = (\<lambda>Q. Q zero_metrics a)"
| "books (Step f k) =
     (\<lambda>Q. \<forall>s. \<exists>d. metrics (f s) = add_metrics (metrics s) d \<and> books (k s) (\<lambda>d'. Q (add_metrics d d')))"

lemma books_act:
  "(\<And>s. metrics (snd (f s)) = add_metrics (metrics s) d) \<Longrightarrow> (\<And>b. books (k b) (\<lambda>d'. Q (add_metrics d d'))) \<Longrightarrow>
   books (act f k) Q"
  by (auto simp: act_def)

lemma books_act_on:
  "(\<And>s. metrics (f s) = add_metrics (metrics s) d) \<Longrightarrow> books p (\<lambda>d'. Q (add_metrics d d')) \<Longrightarrow> books (act_on f p) Q"
  by (auto simp: act_on_def)

lemma books_quiet:
  "(\<And>s. metrics (snd (f s)) = metrics s) \<Longrightarrow> (\<And>b. books (k b) Q) \<Longrightarrow> books (act f k) Q"
  using books_act [of f zero_metrics k Q] by simp

lemma books_quiet_on: "(\<And>s. metrics (f s) = metrics s) \<Longrightarrow> books p Q \<Longrightarrow> books (act_on f p) Q"
  using books_act_on [of f zero_metrics p Q] by simp

text \<open>At most \<open>n\<close> steps.\<close>

primrec ends_in :: "('s, 'a) prog \<Rightarrow> nat \<Rightarrow> bool" where
  "ends_in (Done a) = (\<lambda>n. True)"
| "ends_in (Step f k) = (\<lambda>n. case n of 0 \<Rightarrow> False | Suc m \<Rightarrow> (\<forall>s. ends_in (k s) m))"

section \<open>The pool\<close>

definition finished :: "('s, 'a) prog list \<Rightarrow> 'a list \<Rightarrow> bool" where
  "finished ps as \<longleftrightarrow> ps = map Done as"

text \<open>What has been added so far, thread by thread.\<close>

lemma pool_books:
  assumes "pool_step\<^sup>*\<^sup>* (ps, s) (ps', s')" "length Qs = length ps"
    and "\<forall>i < length ps. books (ps ! i) (Qs ! i)"
  shows "\<exists>ds. length ds = length ps \<and> length ps' = length ps \<and>
    metrics s' = add_metrics (metrics s) (total_metrics ds) \<and>
    (\<forall>i < length ps. books (ps' ! i) (\<lambda>d. (Qs ! i) (add_metrics (ds ! i) d)))"
  using assms(1)
proof (induction "(ps', s')" arbitrary: ps' s' rule: rtranclp_induct)
  case base
  have "total_metrics (replicate n zero_metrics) = zero_metrics" for n by (induction n) simp_all
  then show ?case using assms(3) by (intro exI [of _ "replicate (length ps) zero_metrics"]) simp
next
  case (step c)
  obtain ps1 s1 where c: "c = (ps1, s1)" by fastforce
  from step(3) [OF c] obtain ds where ds: "length ds = length ps" "length ps1 = length ps"
    "metrics s1 = add_metrics (metrics s) (total_metrics ds)"
    "\<forall>i < length ps. books (ps1 ! i) (\<lambda>d. (Qs ! i) (add_metrics (ds ! i) d))" by blast
  from step(2) [unfolded c] obtain i f k where i: "i < length ps1" "ps1 ! i = Step f k" "ps' = ps1[i := k s1]" "s' = f s1"
    by (auto elim: pool_stepE)
  with ds(2,4) obtain d where d: "metrics (f s1) = add_metrics (metrics s1) d"
    "books (k s1) (\<lambda>d'. (Qs ! i) (add_metrics (ds ! i) (add_metrics d d')))" by fastforce
  let ?ds = "ds[i := add_metrics (ds ! i) d]"
  have "metrics s' = add_metrics (metrics s) (total_metrics ?ds)"
    using i ds(1,2,3) d(1) by (simp add: total_metrics_update)
  moreover have "books (ps' ! j) (\<lambda>d. (Qs ! j) (add_metrics (?ds ! j) d))" if "j < length ps" for j
    using that i ds(1,2,4) d(2) by (cases "j = i") simp_all
  ultimately show ?case using ds(1,2) i(3) by (intro exI [of _ ?ds]) simp
qed

text \<open>A pool whose threads are short ends, and does not stop before every thread has finished.\<close>

lemma pool_ends:
  assumes "(pool_step ^^ m) (ps, s) c" "length ns = length ps" "\<forall>i < length ps. ends_in (ps ! i) (ns ! i)"
  shows "m \<le> sum_list ns"
  using assms
proof (induction m arbitrary: ps s ns)
  case (Suc m)
  from relpowp_Suc_D2 [OF Suc.prems(1)] obtain ps1 s1 where first: "pool_step (ps, s) (ps1, s1)"
    and rest: "(pool_step ^^ m) (ps1, s1) c" by auto
  from first obtain i f k where i: "i < length ps" "ps ! i = Step f k" "ps1 = ps[i := k s]"
    by (auto elim: pool_stepE)
  with Suc.prems(3) obtain n where n: "ns ! i = Suc n" "ends_in (k s) n"
    by (fastforce split: nat.splits)
  let ?ns = "ns[i := n]"
  have "\<forall>j < length ps1. ends_in (ps1 ! j) (?ns ! j)"
    using Suc.prems(2,3) i n(2) by (simp add: nth_list_update)
  from Suc.IH [OF rest _ this] have "m \<le> sum_list ?ns" using Suc.prems(2) i(3) by simp
  moreover have "sum_list ns = Suc (sum_list ?ns)"
    using i(1) n(1) Suc.prems(2) sum_list_update [of i ns n] elem_le_sum_list [of i ns] by simp
  ultimately show ?case by simp
qed simp

lemma pool_stuck: "(\<nexists>c. pool_step (ps, s) c) \<Longrightarrow> \<exists>as. ps = map Done as"
proof -
  assume stuck: "\<nexists>c. pool_step (ps, s) c"
  have "\<exists>a. p = Done a" if "p \<in> set ps" for p
  proof (cases p)
    case (Step f k)
    with that stuck show ?thesis by (metis in_set_conv_nth pool_step.intros)
  qed simp
  then show ?thesis by (induction ps) (auto, metis list.simps(9))
qed

section \<open>The books of a call\<close>

definition of_attempts :: "nat \<Rightarrow> metrics" where
  "of_attempts n = zero_metrics\<lparr>attempts := of_nat n, retries := of_nat (n - 1)\<rparr>"

lemma books_retry:
  fixes attempt :: "('a, 'l, 'w) attempt"
  assumes "quiet_attempt attempt"
    and "\<And>n r l. 1 \<le> n \<Longrightarrow> int n \<le> max 1 (attempt_limit p - i) \<Longrightarrow>
      books (k r l) (\<lambda>d. Q (add_metrics (of_attempts n) d))"
  shows "books (retry_prog E p attempt can_retry i l k) Q"
  using assms(2)
proof (induction "nat (attempt_limit p - i)" arbitrary: i l Q rule: less_induct)
  case less
  have count: "metrics (count_attempt s) = add_metrics (metrics s) (of_attempts 1)" for s :: "'w client_state"
    by (simp add: count_attempt_def add_metrics_def of_attempts_def zero_metrics_def)
  have quiet: "metrics (snd (one_attempt attempt l s)) = metrics s" for s
    using quiet_attempt.quiet [OF assms(1)] by (auto simp: one_attempt_def split: prod.splits)
  have stop: "books (k r l') (\<lambda>d. Q (add_metrics (of_attempts 1) d))" for r l'
    by (rule less.prems) simp_all
  show ?case
    unfolding retry_prog.simps [of E p attempt can_retry i l k]
  proof (rule books_act_on [OF count], rule books_quiet [OF quiet], clarify)
    fix r :: "'a result" and l' :: 'l
    show "books (case r of
        Inl (Failed e) \<Rightarrow>
          if \<not> retryable e \<or> attempt_limit p \<le> i + 1 \<or> \<not> can_retry l' then k r l'
          else act (next_delay E p i e) (\<lambda>delay.
            case delay of
              Inr d \<Rightarrow> act_on add_retries (act_on (take_sleep E d) (retry_prog E p attempt can_retry (i + 1) l' k))
            | Inl f \<Rightarrow> k (Inl f) l')
      | _ \<Rightarrow> k r l') (\<lambda>d. Q (add_metrics (of_attempts 1) d))"
    proof (cases "\<exists>e. r = Inl (Failed e) \<and> retryable e \<and> i + 1 < attempt_limit p \<and> can_retry l'")
      case False
      then show ?thesis using stop by (auto split: sum.split failure.split)
    next
      case True
      then obtain e where e: "r = Inl (Failed e)" "retryable e" "i + 1 < attempt_limit p" "can_retry l'" by blast
      have "books (act_on add_retries (act_on (take_sleep E d) (retry_prog E p attempt can_retry (i + 1) l' k)))
          (\<lambda>d. Q (add_metrics (of_attempts 1) d))" for d
      proof (rule books_act_on, rule_tac [2] books_quiet_on)
        show "metrics (add_retries s) = add_metrics (metrics s) (zero_metrics\<lparr>retries := 1\<rparr>)" for s :: "'w client_state"
          by (simp add: add_retries_def add_metrics_def zero_metrics_def)
        show "metrics (take_sleep E d s) = metrics s" for s by (simp add: take_sleep_def)
        show "books (retry_prog E p attempt can_retry (i + 1) l' k)
            (\<lambda>d. Q (add_metrics (of_attempts 1) (add_metrics (zero_metrics\<lparr>retries := 1\<rparr>) d)))"
        proof (rule less.hyps)
          show "nat (attempt_limit p - (i + 1)) < nat (attempt_limit p - i)" using e(3) by simp
          fix n r l
          assume n: "1 \<le> n" "int n \<le> max 1 (attempt_limit p - (i + 1))"
          have "add_metrics (of_attempts 1) (add_metrics (zero_metrics\<lparr>retries := 1\<rparr>) (of_attempts n)) = of_attempts (Suc n)"
            using n(1) by (cases n) (simp_all add: add_metrics_def of_attempts_def zero_metrics_def)
          then have "add_metrics (of_attempts 1) (add_metrics (zero_metrics\<lparr>retries := 1\<rparr>) (add_metrics (of_attempts n) d)) =
              add_metrics (of_attempts (Suc n)) d" for d by (metis add_metrics_monoid(3))
          moreover have "books (k r l) (\<lambda>d. Q (add_metrics (of_attempts (Suc n)) d))"
            using n e(3) by (intro less.prems) simp_all
          ultimately show "books (k r l)
              (\<lambda>d. Q (add_metrics (of_attempts 1) (add_metrics (zero_metrics\<lparr>retries := 1\<rparr>) (add_metrics (of_attempts n) d))))"
            by simp
        qed
      qed
      moreover have "metrics (snd (next_delay E p i e s)) = metrics s" for s
        using next_delay_frame [of E p i e s] by (auto simp: prod_eq_iff)
      ultimately show ?thesis
        using e stop by (auto intro!: books_quiet split: sum.split)
    qed
  qed
qed

definition finished_result :: "'j generate_response result \<Rightarrow> 'j generate_response result" where
  "finished_result r = (if returns r then check_blocked r else r)"

definition outcome_books :: "int \<Rightarrow> 'j generate_response result \<Rightarrow> metrics" where
  "outcome_books ms r =
     (case r of
        Inr a \<Rightarrow>
          zero_metrics\<lparr>latency_total := word_of_int ms, prompt_total := word_of_int (prompt_tokens (usage a)),
                       output_total := word_of_int (candidates_tokens (usage a) + thoughts_tokens (usage a))\<rparr>
      | Inl (Failed e) \<Rightarrow> zero_metrics\<lparr>latency_total := word_of_int ms, failures := 1\<rparr>
      | Inl _ \<Rightarrow> zero_metrics)"

lemma check_blocked_returns: "returns r \<Longrightarrow> returns (check_blocked r)"
  by (cases r rule: returns.cases) (auto simp: check_blocked_def err_def split: option.splits)

lemma books_finish:
  fixes E :: "'w environment" and k :: "'j generate_response result \<Rightarrow> ('w client_state, 'c) prog"
  assumes "\<And>ms. books (k (finished_result r)) (\<lambda>d. Q (add_metrics (outcome_books ms (finished_result r)) d))"
  shows "books (finish_prog E start r k) Q"
proof (cases "returns r")
  case False
  with assms [of 0] show ?thesis
    by (cases r rule: returns.cases) (auto simp: finish_prog_def finished_result_def outcome_books_def)
next
  case True
  have clock: "metrics (snd (read_clock E s)) = metrics s" for s
    using read_clock_frame [of E s] by (auto simp: prod_eq_iff)
  have latency: "metrics (add_latency ms s) = add_metrics (metrics s) (zero_metrics\<lparr>latency_total := word_of_int ms\<rparr>)"
    for ms and s :: "'w client_state" by (simp add: add_latency_def add_metrics_def zero_metrics_def)
  have prompts: "metrics (add_prompt n s) = add_metrics (metrics s) (zero_metrics\<lparr>prompt_total := word_of_int n\<rparr>)"
    for n and s :: "'w client_state" by (simp add: add_prompt_def add_metrics_def zero_metrics_def)
  have outputs: "metrics (add_output n s) = add_metrics (metrics s) (zero_metrics\<lparr>output_total := word_of_int n\<rparr>)"
    for n and s :: "'w client_state" by (simp add: add_output_def add_metrics_def zero_metrics_def)
  have failure: "metrics (count_failure s) = add_metrics (metrics s) (zero_metrics\<lparr>failures := 1\<rparr>)"
    for s :: "'w client_state" by (simp add: count_failure_def add_metrics_def zero_metrics_def)
  have sum: "add_metrics (zero_metrics\<lparr>latency_total := l\<rparr>) (add_metrics (zero_metrics\<lparr>failures := 1\<rparr>) d) =
      add_metrics (zero_metrics\<lparr>latency_total := l, failures := 1\<rparr>) d"
    "add_metrics (zero_metrics\<lparr>latency_total := l\<rparr>)
       (add_metrics (zero_metrics\<lparr>prompt_total := m\<rparr>) (add_metrics (zero_metrics\<lparr>output_total := n\<rparr>) d)) =
      add_metrics (zero_metrics\<lparr>latency_total := l, prompt_total := m, output_total := n\<rparr>) d" for l m n d
    by (simp_all add: add_metrics_def zero_metrics_def)
  have fin: "finished_result r = check_blocked r" using True by (simp add: finished_result_def)
  from check_blocked_returns [OF True] show ?thesis
  proof (cases rule: returns_cases)
    case (ok a)
    have step: "books (act_on (add_latency ms)
        (act_on (add_prompt (prompt_tokens (usage a)))
          (act_on (add_output (candidates_tokens (usage a) + thoughts_tokens (usage a))) (k (Inr a))))) Q" for ms
      by (rule books_act_on [OF latency], rule books_act_on [OF prompts], rule books_act_on [OF outputs])
        (use assms [of ms, unfolded fin ok outcome_books_def] in \<open>simp only: sum sum.case\<close>)
    then show ?thesis
      by (simp add: finish_prog_def True ok Let_def books_quiet [OF clock])
  next
    case (failed e)
    have step: "books (act_on (add_latency ms) (act_on count_failure (k (Inl (Failed e))))) Q" for ms
      by (rule books_act_on [OF latency], rule books_act_on [OF failure])
        (use assms [of ms, unfolded fin failed outcome_books_def] in \<open>simp only: sum sum.case failure.case\<close>)
    then show ?thesis
      by (simp add: finish_prog_def True failed Let_def books_quiet [OF clock])
  qed
qed

section \<open>The calls\<close>

datatype ('j, 'w) call =
    Generate_call "'j generate_request"
  | Stream_call "'j generate_request" "('j, 'w) stream_callback option"
  | Count_call "'j generate_request"

datatype 'j call_answer = Reply "'j generate_response result" | Counted "int result"

fun call_prog ::
  "'j json_lib \<Rightarrow> 'w environment \<Rightarrow> client_options \<Rightarrow> ('j, 'w) call \<Rightarrow> ('w client_state, 'j call_answer) prog" where
  "call_prog J E opts (Generate_call r) = generate_prog J E opts r (\<lambda>a. Done (Reply a))"
| "call_prog J E opts (Stream_call r f) = stream_prog J E opts r f (\<lambda>a seen. Done (Reply a))"
| "call_prog J E opts (Count_call r) = count_tokens_prog J E opts r (\<lambda>a. Done (Counted a))"

text \<open>The operation of the client that a call is.\<close>

fun call_alone ::
  "'j json_lib \<Rightarrow> 'w environment \<Rightarrow> client_options \<Rightarrow> ('j, 'w) call \<Rightarrow> 'w client_state \<Rightarrow> 'j call_answer \<times> 'w client_state"
where
  "call_alone J E opts (Generate_call r) s = (let (a, s) = generate J E opts r s in (Reply a, s))"
| "call_alone J E opts (Stream_call r f) s = (let (a, _, s) = stream J E opts r f s in (Reply a, s))"
| "call_alone J E opts (Count_call r) s = (let (a, s) = count_tokens J E opts r s in (Counted a, s))"

text \<open>A call whose request is well-formed and can be printed gets as far as the network.\<close>

fun call_request :: "('j, 'w) call \<Rightarrow> 'j generate_request" where
  "call_request (Generate_call r) = r"
| "call_request (Stream_call r f) = r"
| "call_request (Count_call r) = r"

fun call_body :: "'j json_lib \<Rightarrow> client_options \<Rightarrow> ('j, 'w) call \<Rightarrow> 'j" where
  "call_body J opts (Count_call r) =
     json_object J [(''generateContentRequest'',
       json_set J (request_to_json J r) ''model'' (json_string J (''models/'' @ model opts)))]"
| "call_body J opts c = request_to_json J (call_request c)"

definition goes_out :: "'j json_lib \<Rightarrow> client_options \<Rightarrow> ('j, 'w) call \<Rightarrow> bool" where
  "goes_out J opts c \<longleftrightarrow> validate opts (call_request c) = Inr () \<and> json_dump J (call_body J opts c) \<noteq> None"

fun answer_failed :: "'j call_answer \<Rightarrow> bool" where
  "answer_failed (Reply (Inl (Failed e))) = True"
| "answer_failed (Counted (Inl (Failed e))) = True"
| "answer_failed _ = False"

fun answer_prompt :: "'j call_answer \<Rightarrow> int" where
  "answer_prompt (Reply (Inr r)) = prompt_tokens (usage r)"
| "answer_prompt _ = 0"

fun answer_output :: "'j call_answer \<Rightarrow> int" where
  "answer_output (Reply (Inr r)) = candidates_tokens (usage r) + thoughts_tokens (usage r)"
| "answer_output _ = 0"

definition one_call ::
  "'j json_lib \<Rightarrow> client_options \<Rightarrow> ('j, 'w) call \<Rightarrow> metrics \<Rightarrow> 'j call_answer \<Rightarrow> nat \<Rightarrow> bool" where
  "one_call J opts c d a n \<longleftrightarrow>
     int n \<le> attempt_limit (retry opts) \<and> (0 < n \<longleftrightarrow> goes_out J opts c) \<and> requests d = 1 \<and>
     attempts d = of_nat n \<and> retries d = of_nat (n - 1) \<and>
     failures d = (if goes_out J opts c \<and> answer_failed a then 1 else 0) \<and>
     prompt_total d = word_of_int (answer_prompt a) \<and> output_total d = word_of_int (answer_output a)"

lemma run_call: "run_alone (call_prog J E opts c) s = call_alone J E opts c s"
  by (cases c) (simp_all add: run_generate run_stream run_count_tokens split_beta)

definition of_request :: metrics where
  "of_request = zero_metrics\<lparr>requests := 1\<rparr>"

lemma count_request_adds: "metrics (count_request s) = add_metrics (metrics s) of_request"
  by (simp add: count_request_def add_metrics_def of_request_def zero_metrics_def)

lemma one_call_refused:
  "\<not> goes_out J opts c \<Longrightarrow> answer_prompt a = 0 \<Longrightarrow> answer_output a = 0 \<Longrightarrow> one_call J opts c of_request a 0"
  by (simp add: one_call_def of_request_def zero_metrics_def attempt_limit_def)

lemma one_call_replied:
  "goes_out J opts c \<Longrightarrow> 1 \<le> n \<Longrightarrow> int n \<le> attempt_limit (retry opts) \<Longrightarrow>
   one_call J opts c (add_metrics of_request (add_metrics (of_attempts n) (outcome_books ms r))) (Reply r) n"
  by (auto simp: one_call_def of_request_def of_attempts_def outcome_books_def zero_metrics_def
      split: sum.split failure.split)

lemma one_call_counted:
  "goes_out J opts c \<Longrightarrow> 1 \<le> n \<Longrightarrow> int n \<le> attempt_limit (retry opts) \<Longrightarrow>
   one_call J opts c (add_metrics of_request (add_metrics (of_attempts n)
     (if \<exists>e. r = Inl (Failed e) then zero_metrics\<lparr>failures := 1\<rparr> else zero_metrics))) (Counted r) n"
  by (cases "Counted r :: 'a call_answer" rule: answer_failed.cases)
    (auto simp: one_call_def of_request_def of_attempts_def zero_metrics_def)

lemma dump_body_dump: "dump_body J j = Inr b \<longleftrightarrow> json_dump J j = Some b" "dump_body J j = Inl f \<Longrightarrow> json_dump J j = None"
  by (auto simp: dump_body_def split: option.splits)

lemma books_replies:
  assumes "quiet_attempt attempt" "goes_out J opts c"
  shows "books (retry_prog E (retry opts) attempt can_retry 0 l (\<lambda>r l. finish_prog E start r (\<lambda>a. Done (Reply a))))
    (\<lambda>d a. \<exists>n. one_call J opts c (add_metrics of_request d) a n)"
proof (rule books_retry [OF assms(1)], rule books_finish)
  fix n r l ms
  assume "1 \<le> n" "int n \<le> max 1 (attempt_limit (retry opts) - 0)"
  with one_call_replied [OF assms(2)] show "books (Done (Reply (finished_result r)))
      (\<lambda>d a. \<exists>m. one_call J opts c (add_metrics of_request (add_metrics (of_attempts n)
         (add_metrics (outcome_books ms (finished_result r)) d))) a m)"
    unfolding attempt_limit_pos by auto
qed

lemma books_counts:
  fixes attempt :: "(int, 'l, 'w) attempt" and J :: "'j json_lib"
  assumes "quiet_attempt attempt" "goes_out J opts c"
  shows "books (retry_prog E (retry opts) attempt can_retry 0 l (\<lambda>r l. case r of
      Inl (Failed e) \<Rightarrow> act_on count_failure (Done (Counted r)) | _ \<Rightarrow> Done (Counted r)))
    (\<lambda>d a. \<exists>n. one_call J opts c (add_metrics of_request d) a n)"
proof (rule books_retry [OF assms(1)])
  fix n r l
  assume n: "1 \<le> n" "int n \<le> max 1 (attempt_limit (retry opts) - 0)"
  have failure: "metrics (count_failure s) = add_metrics (metrics s) (zero_metrics\<lparr>failures := 1\<rparr>)" for s :: "'w client_state"
    by (simp add: count_failure_def add_metrics_def zero_metrics_def)
  have ok: "\<exists>m. one_call J opts c (add_metrics of_request (add_metrics (of_attempts n)
     (if \<exists>e. r = Inl (Failed e) then zero_metrics\<lparr>failures := 1\<rparr> else zero_metrics))) (Counted r) m"
    using one_call_counted [OF assms(2) n(1)] n(2) unfolding attempt_limit_pos by blast
  show "books ((case r of Inl (Failed e) \<Rightarrow> act_on count_failure (Done (Counted r)) | _ \<Rightarrow> Done (Counted r)) ::
        ('w client_state, 'j call_answer) prog)
      (\<lambda>d a. \<exists>m. one_call J opts c (add_metrics of_request (add_metrics (of_attempts n) d)) a m)"
  proof (cases r rule: returns.cases)
    case (2 e)
    have "books (act_on count_failure (Done (Counted r)) :: ('w client_state, 'j call_answer) prog)
        (\<lambda>d a. \<exists>m. one_call J opts c (add_metrics of_request (add_metrics (of_attempts n) d)) a m)"
      by (rule books_act_on [OF failure]) (use ok 2 in simp)
    with 2 show ?thesis by simp
  qed (use ok in simp_all)
qed

lemma books_call: "books (call_prog J E opts c) (\<lambda>d a. \<exists>n. one_call J opts c d a n)"
proof -
  have clock: "metrics (snd (read_clock E s)) = metrics s" for s
    using read_clock_frame [of E s] by (auto simp: prod_eq_iff)
  have refused: "\<exists>n. one_call J opts c of_request (Reply (Inl f)) n" "\<exists>n. one_call J opts c of_request (Counted (Inl f)) n"
    if "\<not> goes_out J opts c" for f
    using one_call_refused [OF that, of "Reply (Inl f)"] one_call_refused [OF that, of "Counted (Inl f)"] by auto
  have out: "goes_out J opts c \<longleftrightarrow> (\<exists>b. validate opts (call_request c) = Inr () \<and> dump_body J (call_body J opts c) = Inr b)"
    by (auto simp: goes_out_def dump_body_dump)
  show ?thesis
  proof (cases c)
    case (Generate_call r)
    show ?thesis
      using refused out books_replies [OF generate_loop.quiet_attempt_axioms, of J opts c]
      by (auto simp: Generate_call generate_prog_def intro!: books_act_on [OF count_request_adds] books_quiet [OF clock]
          split: sum.split)
  next
    case (Stream_call r f)
    show ?thesis
      using refused out books_replies [OF stream_loop.quiet_attempt_axioms, of J opts c]
      by (auto simp: Stream_call stream_prog_def intro!: books_act_on [OF count_request_adds] books_quiet [OF clock]
          split: sum.split)
  next
    case (Count_call r)
    show ?thesis
      using refused out books_counts [OF count_tokens_loop.quiet_attempt_axioms, of J opts c]
      by (auto simp: Count_call count_tokens_prog_def Let_def intro!: books_act_on [OF count_request_adds]
          split: sum.split)
  qed
qed

section \<open>Every call ends\<close>

lemma ends_in_mono: "ends_in p m \<Longrightarrow> m \<le> n \<Longrightarrow> ends_in p n"
proof (induction p arbitrary: m n)
  case (Step f k)
  then obtain m' where m: "m = Suc m'" "\<forall>s. ends_in (k s) m'" by (cases m) simp_all
  with Step.prems obtain n' where n: "n = Suc n'" "m' \<le> n'" by (cases n) simp_all
  have "ends_in (k s) n'" for s by (rule Step.IH [OF rangeI]) (use m(2) n(2) in simp_all)
  then show ?case by (simp add: n(1))
qed simp

lemma ends_in_act [simp]: "ends_in (act f k) (Suc n) \<longleftrightarrow> (\<forall>s. ends_in (k (fst (f s))) n)"
  by (simp add: act_def)

lemma ends_in_act_on [simp]: "ends_in (act_on f p) (Suc n) \<longleftrightarrow> ends_in p n"
  by (simp add: act_on_def)

lemma ends_in_retry:
  assumes "\<And>r l. ends_in (k r l) m"
  shows "ends_in (retry_prog E p attempt can_retry i l k) (5 * nat (max 1 (attempt_limit p - i)) + m)"
proof (induction "nat (attempt_limit p - i)" arbitrary: i l rule: less_induct)
  case less
  let ?n = "5 * nat (max 1 (attempt_limit p - i)) + m"
  define q where "q = ?n - 5"
  have "1 \<le> nat (max 1 (attempt_limit p - i))" by arith
  then have q: "?n = Suc (Suc (Suc (Suc (Suc q))))" "m \<le> q" by (simp_all add: q_def)
  have k: "ends_in (k r l') n" if "m \<le> n" for r l' n by (rule ends_in_mono [OF assms that])
  have again: "ends_in (retry_prog E p attempt can_retry (i + 1) l' k) q" if "i + 1 < attempt_limit p" for l'
  proof (rule ends_in_mono [OF less.hyps])
    show "nat (attempt_limit p - (i + 1)) < nat (attempt_limit p - i)" using that by simp
    have "nat (max 1 (attempt_limit p - (i + 1))) + 1 = nat (max 1 (attempt_limit p - i))" using that by arith
    then show "5 * nat (max 1 (attempt_limit p - (i + 1))) + m \<le> q" by (simp add: q_def)
  qed
  let ?k = "\<lambda>(r, l'). case r of
      Inl (Failed e) \<Rightarrow>
        if \<not> retryable e \<or> attempt_limit p \<le> i + 1 \<or> \<not> can_retry l' then k r l'
        else act (next_delay E p i e) (\<lambda>delay. case delay of
            Inr d \<Rightarrow> act_on add_retries (act_on (take_sleep E d) (retry_prog E p attempt can_retry (i + 1) l' k))
          | Inl f \<Rightarrow> k (Inl f) l')
    | _ \<Rightarrow> k r l'"
  have onward: "ends_in (?k (r, l')) (Suc (Suc (Suc q)))" for r l'
  proof (cases r rule: returns.cases)
    case (2 e)
    then show ?thesis using k [of "Suc (Suc (Suc q))"] k [of "Suc (Suc q)"] again q(2)
      by (simp split: sum.split)
  qed (use k q(2) in simp_all)
  have "ends_in (?k (fst (one_attempt attempt l s))) (Suc (Suc (Suc q)))" for s
  proof -
    obtain r l1 where "fst (one_attempt attempt l s) = (r, l1)" by fastforce
    then show ?thesis using onward [of r l1] by simp
  qed
  then show ?case
    unfolding q retry_prog.simps [of E p attempt can_retry i l k] ends_in_act_on ends_in_act by blast
qed

lemma ends_in_finish: "(\<And>r. ends_in (k r) m) \<Longrightarrow> ends_in (finish_prog E start r k) (Suc (Suc (Suc (Suc m))))"
  by (auto simp: finish_prog_def Let_def intro: ends_in_mono [of _ m] split: sum.split)

definition call_steps :: "retry_policy \<Rightarrow> nat" where
  "call_steps p = 5 * nat (attempt_limit p) + 6"

lemma ends_in_network:
  "(\<And>r l. ends_in (k r l) 4) \<Longrightarrow>
   ends_in (retry_prog E p attempt can_retry 0 l k) (5 * nat (attempt_limit p) + 4)"
  using ends_in_retry [of k 4 E p attempt can_retry 0 l, unfolded attempt_limit_pos] by simp

lemma ends_in_recorded: "ends_in (finish_prog E start r (\<lambda>a. Done (f a))) 4"
  using ends_in_finish [of "\<lambda>a. Done (f a)" 0 E start r] by (simp add: eval_nat_numeral)

lemma ends_in_counted:
  "ends_in (retry_prog E p attempt can_retry 0 l (\<lambda>r _. case r of
     Inl (Failed e) \<Rightarrow> act_on count_failure (Done (Counted r)) | _ \<Rightarrow> Done (Counted r)))
   (Suc (5 * nat (attempt_limit p) + 4))"
  by (rule ends_in_mono [OF ends_in_network]) (auto simp: eval_nat_numeral split: sum.split failure.split)

lemma ends_in_call: "ends_in (call_prog J E opts c) (call_steps (retry opts))"
proof -
  define N where "N = 5 * nat (attempt_limit (retry opts)) + 4"
  have N: "call_steps (retry opts) = Suc (Suc N)" by (simp add: call_steps_def N_def)
  note network = ends_in_network [where p = "retry opts", folded N_def]
  note counted = ends_in_counted [where p = "retry opts", folded N_def]
  show ?thesis
    unfolding N
    by (cases c)
      (simp_all add: generate_prog_def stream_prog_def count_tokens_prog_def Let_def network counted ends_in_recorded
        split: sum.split)
qed

section \<open>Properties\<close>

lemma call_totals:
  assumes "length ds = length calls" "length answers = length calls" "length ns = length calls"
    and "\<forall>i < length calls. one_call J opts (calls ! i) (ds ! i) (answers ! i) (ns ! i)"
  shows "requests (total_metrics ds) = of_nat (length calls) \<and>
    attempts (total_metrics ds) = of_nat (sum_list ns) \<and>
    retries (total_metrics ds) = of_nat (sum_list (map (\<lambda>n. n - 1) ns)) \<and>
    failures (total_metrics ds) =
      of_nat (length (filter (\<lambda>(c, a). goes_out J opts c \<and> answer_failed a) (zip calls answers))) \<and>
    prompt_total (total_metrics ds) = word_of_int (sum_list (map answer_prompt answers)) \<and>
    output_total (total_metrics ds) = word_of_int (sum_list (map answer_output answers)) \<and>
    list_all2 (\<lambda>c n. (0 < n) = goes_out J opts c \<and> int n \<le> attempt_limit (retry opts)) calls ns"
  using assms
proof (induction calls arbitrary: ds answers ns)
  case (Cons c calls)
  then obtain d ds' a as' n ns' where l: "ds = d # ds'" "answers = a # as'" "ns = n # ns'"
    by (metis length_Suc_conv)
  with Cons.prems have head: "one_call J opts c d a n"
    and rest: "\<forall>i < length calls. one_call J opts (calls ! i) (ds' ! i) (as' ! i) (ns' ! i)"
    by (auto simp: All_less_Suc2)
  from Cons.IH [OF _ _ _ rest] Cons.prems(1-3) l head show ?case
    by (auto simp: one_call_def)
qed (simp add: zero_metrics_def)

text \<open>
  C18: the client can be shared by threads.  Any number of \<^verbatim>\<open>generate\<close>, \<^verbatim>\<open>stream\<close> and \<^verbatim>\<open>count_tokens\<close> calls
  of one client that run at once, their steps taking turns in any order: when all have returned, no update
  of a counter is lost.  Every call is counted as a request; a call that gets as far as the network makes
  between one and \<^verbatim>\<open>max(1, max_attempts)\<close> attempts, all counted, with one retry less; the failures are the
  calls that went out and returned an error; the tokens are those of the responses that were returned.
\<close>

theorem concurrent_books:
  assumes "pool_step\<^sup>*\<^sup>* (map (call_prog J E opts) calls, s) (map Done answers, s')"
  shows "\<exists>ns. list_all2 (\<lambda>c n. (0 < n) = goes_out J opts c \<and> int n \<le> attempt_limit (retry opts)) calls ns \<and>
    length answers = length calls \<and>
    requests (metrics s') = requests (metrics s) + of_nat (length calls) \<and>
    attempts (metrics s') = attempts (metrics s) + of_nat (sum_list ns) \<and>
    retries (metrics s') = retries (metrics s) + of_nat (sum_list (map (\<lambda>n. n - 1) ns)) \<and>
    failures (metrics s') = failures (metrics s) +
      of_nat (length (filter (\<lambda>(c, a). goes_out J opts c \<and> answer_failed a) (zip calls answers))) \<and>
    prompt_total (metrics s') = prompt_total (metrics s) + word_of_int (sum_list (map answer_prompt answers)) \<and>
    output_total (metrics s') = output_total (metrics s) + word_of_int (sum_list (map answer_output answers))"
proof -
  let ?Qs = "map (\<lambda>c d a. \<exists>n. one_call J opts c d a n) calls"
  have "\<forall>i < length (map (call_prog J E opts) calls). books (map (call_prog J E opts) calls ! i) (?Qs ! i)"
    by (simp add: books_call)
  from pool_books [OF assms _ this] obtain ds where ds: "length ds = length calls"
    "length answers = length calls" "metrics s' = add_metrics (metrics s) (total_metrics ds)"
    "\<forall>i < length calls. books (map Done answers ! i) (\<lambda>d. (?Qs ! i) (add_metrics (ds ! i) d))"
    by auto
  then have "\<forall>i < length calls. \<exists>n. one_call J opts (calls ! i) (ds ! i) (answers ! i) n" by simp
  then obtain n where n: "\<forall>i < length calls. one_call J opts (calls ! i) (ds ! i) (answers ! i) (n i)" by metis
  let ?ns = "map n [0..<length calls]"
  from call_totals [of ds calls answers ?ns J opts] ds(1,2) n
  show ?thesis by (intro exI [of _ ?ns]) (simp add: ds(3))
qed

text \<open>
  C19: a pool of such calls ends in every schedule, within the number of steps given by the retry policy, and
  it is not blocked before every call has returned; and a call that runs alone is the operation of the client.
\<close>

theorem concurrent_calls_end:
  assumes "(pool_step ^^ m) (map (call_prog J E opts) calls, s) (ps, s')"
  shows "m \<le> length calls * call_steps (retry opts) \<and>
    (\<nexists>c. pool_step (ps, s') c) = (\<exists>answers. ps = map Done answers) \<and>
    run_alone (call_prog J E opts c) s = call_alone J E opts c s"
proof -
  have "m \<le> sum_list (replicate (length calls) (call_steps (retry opts)))"
    by (rule pool_ends [OF assms]) (simp_all add: ends_in_call)
  moreover have "\<nexists>c. pool_step (map Done answers, s') c" for answers
    by (auto elim!: pool_stepE)
  ultimately show ?thesis
    using pool_stuck [of ps s'] run_call by (auto simp: sum_list_replicate)
qed

section \<open>A concrete pool\<close>

text \<open>One of the schedules: a thread runs to its end while the others wait.\<close>

lemma run_thread:
  "i < length ps \<Longrightarrow> ps ! i = p \<Longrightarrow> run_alone p s = (a, s') \<Longrightarrow> pool_step\<^sup>*\<^sup>* (ps, s) (ps[i := Done a], s')"
proof (induction p arbitrary: ps s)
  case (Done b)
  then show ?case by (metis list_update_id prod.inject run_alone.simps(1) rtranclp.rtrancl_refl)
next
  case (Step f k)
  have "pool_step (ps, s) (ps[i := k s], f s)" using Step.prems by (intro pool_step.intros) simp_all
  moreover have "pool_step\<^sup>*\<^sup>* (ps[i := k s], f s) ((ps[i := k s])[i := Done a], s')"
    using Step.prems by (intro Step.IH [OF rangeI]) simp_all
  ultimately show ?case by simp
qed

text \<open>Two threads and three answers; the first answer makes its call try again.\<close>

definition two_calls :: "(jval, script) call list" where
  "two_calls = [Generate_call sample_request, Generate_call sample_request]"

definition two_answers :: "jval call_answer list" where
  "two_answers = [Reply (Inr empty_response), Reply (Inr empty_response)]"

lemma two_calls_run:
  "\<exists>s'. pool_step\<^sup>*\<^sup>* (map (call_prog sample_json scripted sample_options) two_calls,
      start_state [([], Inl busy), ([], Inr ''x''), ([], Inr ''x'')]) (map Done two_answers, s')"
proof -
  let ?c = "Generate_call sample_request :: (jval, script) call" and ?a = "Reply (Inr empty_response) :: jval call_answer"
  let ?p = "call_prog sample_json scripted sample_options ?c"
  let ?s = "start_state [([], Inl busy), ([], Inr ''x''), ([], Inr ''x'')]"
  have "\<exists>s1. generate sample_json scripted sample_options sample_request ?s = (Inr empty_response, s1) \<and>
      world s1 = [([], Inr ''x'')]"
    by (simp add: generate_def sample_run with_retry.simps sample_generate_attempt)
  then obtain s1 where first: "call_alone sample_json scripted sample_options ?c ?s = (?a, s1)" "world s1 = [([], Inr ''x'')]"
    by auto
  have "\<exists>s2. generate sample_json scripted sample_options sample_request s1 = (Inr empty_response, s2)"
    using first(2) by (simp add: generate_def sample_run with_retry.simps sample_generate_attempt)
  then obtain s2 where second: "call_alone sample_json scripted sample_options ?c s1 = (?a, s2)"
    by auto
  have "pool_step\<^sup>*\<^sup>* ([?p, ?p], ?s) ([?p, ?p][0 := Done ?a], s1)"
    by (rule run_thread [OF _ _ trans [OF run_call first(1)]]) simp_all
  moreover have "pool_step\<^sup>*\<^sup>* ([?p, ?p][0 := Done ?a], s1) (([?p, ?p][0 := Done ?a])[1 := Done ?a], s2)"
    by (rule run_thread [OF _ _ trans [OF run_call second]]) simp_all
  ultimately have "pool_step\<^sup>*\<^sup>* ([?p, ?p], ?s) (([?p, ?p][0 := Done ?a])[1 := Done ?a], s2)"
    by (rule rtranclp_trans)
  then show ?thesis by (auto simp: two_calls_def two_answers_def)
qed

theorem concurrent_books_witness:
  "\<exists>ns s'. list_all2 (\<lambda>c n. (0 < n) = goes_out sample_json sample_options c \<and> int n \<le> 2) two_calls ns \<and>
     requests (metrics s') = 2 \<and> attempts (metrics (s' :: script client_state)) = of_nat (sum_list ns) \<and>
     failures (metrics s') = 0"
proof -
  obtain s' where run: "pool_step\<^sup>*\<^sup>* (map (call_prog sample_json scripted sample_options) two_calls,
      start_state [([], Inl busy), ([], Inr ''x''), ([], Inr ''x'')]) (map Done two_answers, s')"
    using two_calls_run by blast
  from concurrent_books [OF run] obtain ns where
    "list_all2 (\<lambda>c n. (0 < n) = goes_out sample_json sample_options c \<and> int n \<le> 2) two_calls ns"
    "requests (metrics s') = 2" "attempts (metrics s') = of_nat (sum_list ns)" "failures (metrics s') = 0"
    by (auto simp: start_state_def zero_metrics_def two_calls_def two_answers_def)
  then show ?thesis by blast
qed

theorem concurrent_calls_end_witness:
  "\<exists>m s'. (pool_step ^^ m) (map (call_prog sample_json scripted sample_options) two_calls,
      start_state [([], Inl busy), ([], Inr ''x''), ([], Inr ''x'')]) (map Done two_answers, s') \<and> m \<le> 32"
proof -
  obtain m s' where run: "(pool_step ^^ m) (map (call_prog sample_json scripted sample_options) two_calls,
      start_state [([], Inl busy), ([], Inr ''x''), ([], Inr ''x'')]) (map Done two_answers, s')"
    using two_calls_run rtranclp_imp_relpowp by metis
  with concurrent_calls_end [OF run] show ?thesis
    by (auto simp: two_calls_def call_steps_def)
qed

end
