(* ===== verification/Quickstart.thy ===== *)
theory Quickstart
  imports Terminal_Chat
begin

text \<open>
  \<^verbatim>\<open>examples/quickstart.cpp\<close>: a program that uses the library from the outside.  It shares the environment of
  the command line tool (\<^typ>\<open>('j, 'w) app\<close>).
\<close>

section \<open>The program\<close>

definition one_shot_text :: string where
  "one_shot_text = ''In one sentence: why does RAII matter in C++?''"

definition pitfalls_request :: "'j json_lib \<Rightarrow> 'j generate_request" where
  "pitfalls_request J =
     \<lparr>contents = [user_content ''List three pitfalls of std::shared_ptr.''],
      system_instruction = Some (user_content ''You are a terse senior C++ reviewer.''), tools = [],
      config = (plain_config J)\<lparr>temperature := Some (double_of_rat (3 / 10))\<rparr>, safety_settings = []\<rparr>"

definition chunk_printer :: "('j, 'w) app \<Rightarrow> ('j, 'w) stream_callback" where
  "chunk_printer A r w = (True, con_out (app_console A) (response_text r) w)"

definition print_tool_call ::
  "('j, 'w) app \<Rightarrow> 'j function_call \<Rightarrow> 'j function_response \<Rightarrow> 'w \<Rightarrow> string option \<times> 'w" where
  "print_tool_call A call r w =
     (let w = con_out (app_console A) (''[tool] '' @ fc_name call) w in
      case json_dump (app_json A) (fc_args call) of
        None \<Rightarrow> (Some ''type_error.316'', w)
      | Some args \<Rightarrow>
          (let w = con_out (app_console A) (args @ '' -> '') w in
           case json_dump (app_json A) (fr_response r) of
             None \<Rightarrow> (Some ''type_error.316'', w)
           | Some body \<Rightarrow> (None, con_out (app_console A) (body @ [NL]) w)))"

definition quickstart_chat :: "('j, 'w) app \<Rightarrow> client_options \<Rightarrow> ('j, 'w) chat_setting" where
  "quickstart_chat A opts =
     \<lparr>chat_json = app_json A, chat_env = app_env A, chat_client = opts,
      chat_opts = \<lparr>chat_system = None, chat_config = plain_config (app_json A), max_tool_rounds = 8\<rparr>,
      chat_registry = Some (register_defaults (app_json A) (app_math A) (app_wall A) []),
      observer = Some (print_tool_call A)\<rparr>"

definition counter_text :: "64 word \<Rightarrow> string" where
  "counter_text n = nat_to_string (unat n)"

definition counters_line :: "metrics \<Rightarrow> string" where
  "counters_line m =
     [NL] @ ''requests='' @ counter_text (requests m) @ '' retries='' @ counter_text (retries m) @
     '' prompt_tokens='' @ counter_text (prompt_total m) @ '' output_tokens='' @ counter_text (output_total m) @ [NL]"

text \<open>The three calls; an error of the first ends the program, those of the others do not.\<close>

definition report_stream :: "('j, 'w) app \<Rightarrow> error option \<Rightarrow> 'w client_state \<Rightarrow> 'w client_state" where
  "report_stream A e s =
     (let s = say A [NL, NL] s in case e of None \<Rightarrow> s | Some e \<Rightarrow> complain A (describe e @ [NL]) s)"

definition quickstart_talk :: "('j, 'w) app \<Rightarrow> client_options \<Rightarrow> 'w client_state \<Rightarrow> ending \<times> 'w client_state" where
  "quickstart_talk A opts s =
     (let (answer, _, s) =
        send (quickstart_chat A opts) None ''What is (2^32 - 1) / 5? Use a tool.'' new_session s
      in case answer of
           Inr r \<Rightarrow> (let s = say A (response_text r @ [NL]) s in (Exit 0, say A (counters_line (metrics s)) s))
         | Inl (Failed e) \<Rightarrow> (Exit 0, say A (counters_line (metrics s)) s)
         | Inl f \<Rightarrow> (Escaped f, s))"

definition quickstart_stream :: "('j, 'w) app \<Rightarrow> client_options \<Rightarrow> 'w client_state \<Rightarrow> ending \<times> 'w client_state" where
  "quickstart_stream A opts s =
     (let (streamed, _, s) =
        stream (app_json A) (app_env A) opts (pitfalls_request (app_json A)) (Some (chunk_printer A)) s
      in case streamed of
           Inr r \<Rightarrow> quickstart_talk A opts (report_stream A None s)
         | Inl (Failed e) \<Rightarrow> quickstart_talk A opts (report_stream A (Some e) s)
         | Inl f \<Rightarrow> (Escaped f, s))"

definition quickstart_main :: "('j, 'w) app \<Rightarrow> 'w client_state \<Rightarrow> ending \<times> 'w client_state" where
  "quickstart_main A s =
     (case from_env (app_getenv A) of
        Inl (Failed e) \<Rightarrow> (Exit 1, complain A (describe e @ [NL]) s)
      | Inl f \<Rightarrow> (Escaped f, s)
      | Inr options \<Rightarrow>
          (let opts = new_client options;
               (reply, s) = generate_text (app_json A) (app_env A) opts one_shot_text s
           in case reply of
                Inr r \<Rightarrow> quickstart_stream A opts (say A (response_text r @ [NL, NL]) s)
              | Inl (Failed e) \<Rightarrow> (Exit 1, complain A (describe e @ [NL]) s)
              | Inl f \<Rightarrow> (Escaped f, s)))"

section \<open>What it shows\<close>

definition on_screen :: "'w \<times> terminal \<Rightarrow> string" where
  "on_screen w = shown (snd w)"

interpretation screen_view: moving_view "lift_env E" on_screen prefix
  by unfold_locales (auto simp: lift_env_def on_screen_def split: prod.split)

lemma console_screen [simp]:
  "on_screen (con_out term_console t w) = on_screen w @ t" "on_screen (con_err term_console t w) = on_screen w"
  by (simp_all add: term_console_def on_screen_def on_terminal_def)

lemma say_screen:
  assumes "app_console A = term_console"
  shows "on_screen (world (say A t s)) = on_screen (world s) @ t"
    and "on_screen (world (complain A t s)) = on_screen (world s)"
  by (simp_all add: say_def complain_def assms)

lemma quickstart_tools_grow:
  assumes "terminal_app A"
  shows "tools_move prefix on_screen (quickstart_chat A opts)"
proof -
  from assms obtain wall where A: "app_wall A = wall_beside wall" "app_console A = term_console"
    by (auto simp: terminal_app_def)
  have "moves prefix on_screen (current_time_tool (app_json A) (app_wall A) args)" for args
    by (auto simp: moves_def current_time_tool_def A wall_beside_def on_screen_def split: prod.split)
  moreover have "moves prefix on_screen (evaluate_tool (app_json A) (app_math A) args)" for args
    by (auto simp: moves_def evaluate_tool_def split: option.split sum.split failure.split)
  moreover have "moves prefix on_screen (print_tool_call A call r)" for call r
    by (auto simp: moves_def print_tool_call_def A Let_def split: option.split)
  ultimately show ?thesis
    by (auto simp: tools_move_def quickstart_chat_def register_defaults_def add_tool_def)
qed

lemma quickstart_talk_shows:
  assumes A: "terminal_app A" and run: "quickstart_talk A opts s = (Exit n, s')"
  shows "n = 0 \<and> calls_within 9 s s' \<and>
    (\<exists>talk. on_screen (world s') = on_screen (world s) @ talk @ counters_line (metrics s'))"
proof -
  from A obtain E where E: "app_env A = lift_env E" "app_console A = term_console" by (rule terminal_app_sel)
  obtain answer c s1 where send:
    "send (quickstart_chat A opts) None ''What is (2^32 - 1) / 5? Use a tool.'' new_session s = (answer, c, s1)"
    by (metis prod_cases3)
  have env: "chat_env (quickstart_chat A opts) = lift_env E" by (simp add: quickstart_chat_def E)
  have "prefix (on_screen (world s)) (on_screen (world s1))"
    by (rule screen_view.send_moves [OF env quickstart_tools_grow [OF A] _ send]) simp
  then obtain talk where "on_screen (world s1) = on_screen (world s) @ talk" by (auto simp: prefix_def)
  moreover have "calls_within 9 s s1"
    using send_rounds_requests [OF send [unfolded send_def]] by (simp add: quickstart_chat_def calls_within_def)
  ultimately show ?thesis
    using run send
    by (auto simp: quickstart_talk_def Let_def say_screen [OF E(2)] calls_within_def split: sum.splits failure.splits)
qed

text \<open>
  The example program on a terminal, with any network.  If it is not left by an exception it ends with 1,
  having shown nothing, or with 0: then it has shown the text of the first reply, the texts of the chunks of
  the second (each once, also when the stream failed), the chat, and as its last line the client's counters
  as they are at the end; and that client has served two requests for the first two parts and at most nine
  for the chat.
\<close>

theorem quickstart_shows:
  assumes "terminal_app A" "quickstart_main A s = (Exit n, s')"
  shows "if n = 0 then
      \<exists>options reply s1 streamed seen s2 talk j.
        from_env (app_getenv A) = Inr options \<and>
        generate_text (app_json A) (app_env A) (new_client options) one_shot_text s = (Inr reply, s1) \<and>
        stream (app_json A) (app_env A) (new_client options) (pitfalls_request (app_json A))
          (Some (chunk_printer A)) (say A (response_text reply @ [NL, NL]) s1) = (streamed, seen, s2) \<and>
        on_screen (world s') = on_screen (world s) @ response_text reply @ [NL, NL] @
          concat (map response_text seen) @ [NL, NL] @ talk @ counters_line (metrics s') \<and>
        requests (metrics s') = requests (metrics s) + 2 + of_nat j \<and> j \<le> 9
    else n = 1 \<and> on_screen (world s') = on_screen (world s)"
proof -
  from assms(1) obtain E where E: "app_env A = lift_env E" "app_console A = term_console" by (rule terminal_app_sel)
  show ?thesis
  proof (cases "from_env (app_getenv A)")
    case (Inl f)
    with assms(2) show ?thesis by (auto simp: quickstart_main_def say_screen [OF E(2)] split: failure.splits)
  next
    case (Inr options)
    let ?opts = "new_client options"
    obtain reply s1 where gen: "generate_text (app_json A) (app_env A) ?opts one_shot_text s = (reply, s1)" by fastforce
    note run1 = gen [unfolded generate_text_def E]
    have s1: "on_screen (world s1) = on_screen (world s)" "requests (metrics s1) = requests (metrics s) + 1"
      using screen_view.generate_view [OF run1] generate_books [OF run1] by (auto simp: call_accounts_def)
    show ?thesis
    proof (cases reply)
      case (Inl f)
      with assms(2) Inr gen s1 show ?thesis
        by (auto simp: quickstart_main_def say_screen [OF E(2)] split: failure.splits)
    next
      case (Inr r)
      let ?s2 = "say A (response_text r @ [NL, NL]) s1"
      obtain streamed seen s3 where str:
        "stream (app_json A) (app_env A) ?opts (pitfalls_request (app_json A)) (Some (chunk_printer A)) ?s2
          = (streamed, seen, s3)" by (metis prod_cases3)
      have "on_screen (world s3) = on_screen (world ?s2) @ concat (map response_text seen)"
        by (rule screen_view.stream_follows [OF str [unfolded E],
              where Q = "\<lambda>seen v. v = on_screen (world ?s2) @ concat (map response_text seen)"])
          (auto simp: chunk_printer_def E)
      then have s3: "on_screen (world s3) = on_screen (world s) @ response_text r @ [NL, NL] @ concat (map response_text seen)"
        by (simp add: say_screen [OF E(2)] s1)
      have req3: "requests (metrics s3) = requests (metrics s) + 2"
        using stream_books [OF str] by (auto simp: call_accounts_def s1)
      obtain e where talk: "quickstart_talk A ?opts (report_stream A e s3) = (Exit n, s')"
        using assms(2) \<open>from_env _ = _\<close> gen Inr str
        by (auto simp: quickstart_main_def quickstart_stream_def Let_def split: sum.splits failure.splits)
      have "on_screen (world (report_stream A e s3)) = on_screen (world s3) @ [NL, NL]"
        "metrics (report_stream A e s3) = metrics s3"
        by (auto simp: report_stream_def Let_def say_screen [OF E(2)] split: option.split)
      with quickstart_talk_shows [OF assms(1) talk] s3 req3 \<open>from_env _ = _\<close> gen Inr str show ?thesis
        by (auto simp: calls_within_def intro!: exI [of _ options] exI [of _ r] exI [of _ s1] exI [of _ streamed]
            exI [of _ seen] exI [of _ s3])
    qed
  qed
qed

text \<open>A network that answers the first request and none of the others.\<close>

definition quickstart_app :: "(jval, script \<times> terminal) app" where
  "quickstart_app = sample_terminal_app\<lparr>app_getenv := (\<lambda>v. if v = ''GEMINI_API_KEY'' then Some ''k'' else None)\<rparr>"

definition quickstart_options :: client_options where
  "quickstart_options = default_options\<lparr>api_key := ''k''\<rparr>"

lemma quickstart_app_sel:
  "app_json quickstart_app = sample_json" "app_env quickstart_app = lift_env scripted"
  "app_console quickstart_app = term_console" "from_env (app_getenv quickstart_app) = Inr quickstart_options"
  by (simp_all add: quickstart_app_def sample_terminal_app_def from_env_def env_or_def quickstart_options_def
      default_options_def)

lemma quickstart_client:
  "api_key (new_client quickstart_options) = ''k''" "model (new_client quickstart_options) = default_model"
  "retry (new_client quickstart_options) = default_policy"
  by (simp_all add: new_client_def quickstart_options_def default_options_def default_model_def)

lemma lifted_script:
  "tr_send (net (lift_env scripted)) q (w, v) = (answer (snd (fst (next_answer w))), snd (next_answer w), v)"
  "tr_stream (net (lift_env scripted)) q (w, v) =
     (fst (fst (next_answer w)), \<lambda>_. answer (snd (fst (next_answer w))), snd (next_answer w), v)"
  "clock (lift_env scripted) u = (0, u)"
  by (simp_all add: lift_env_def split: prod.split)

lemma not_retried: "\<not> retryable (make_error KCancelled m)"
  by (simp add: retryable_def make_error_def)

lemma quickstart_first:
  "generate_text sample_json (lift_env scripted) (new_client quickstart_options) t
     (start_state ([([], Inr ''x'')], v)) =
   (Inr empty_response, \<lparr>metrics = zero_metrics\<lparr>requests := 1, attempts := 1\<rparr>, sleeps = [], world = ([], v)\<rparr>)"
  by (simp add: generate_text_def generate_def validate_def quickstart_client default_model_def sample_dump read_clock_def
      lifted_script with_retry.simps generate_attempt_def count_attempt_def count_request_def start_state_def next_answer_def
      sample_check bind_result_def sample_parse finish_call_def check_blocked_def record_result_def elapsed_ms_def
      empty_response_def zero_usage_def zero_metrics_def)

lemma quickstart_second:
  assumes "world s = ([], v)" "contents request \<noteq> []"
  shows "\<exists>e s1. stream sample_json (lift_env scripted) (new_client quickstart_options) request (Some f) s =
     (Inl (Failed e), [], s1) \<and> world s1 = ([], v)"
  using assms
  by (simp add: stream_def validate_def quickstart_client default_model_def sample_dump read_clock_def lifted_script
      with_retry.simps stream_attempt_def start_attempt_def stream_outcome_def count_attempt_def count_request_def
      next_answer_def sample_check not_retried finish_call_def check_blocked_def record_result_def count_failure_def)

lemma quickstart_third:
  assumes "world s = ([], v)" "contents request \<noteq> []"
  shows "\<exists>e s1. generate sample_json (lift_env scripted) (new_client quickstart_options) request s =
     (Inl (Failed e), s1)"
  using assms
  by (simp add: generate_def validate_def quickstart_client default_model_def sample_dump read_clock_def lifted_script
      with_retry.simps generate_attempt_def count_attempt_def count_request_def bind_result_def
      next_answer_def sample_check not_retried finish_call_def check_blocked_def record_result_def count_failure_def)

theorem quickstart_shows_witness:
  "\<exists>s' talk. quickstart_main quickstart_app (start_state ([([], Inr ''x'')], blank_terminal)) = (Exit 0, s') \<and>
     on_screen (world s') = [NL, NL, NL, NL] @ talk @ counters_line (metrics s')"
proof -
  let ?A = quickstart_app and ?opts = "new_client quickstart_options" and ?s = "start_state ([([], Inr ''x'')], blank_terminal)"
    and ?r = "empty_response :: jval generate_response"
  obtain s1 where first: "generate_text sample_json (lift_env scripted) ?opts one_shot_text ?s = (Inr ?r, s1)"
    "world s1 = ([], blank_terminal)" using quickstart_first by fastforce
  have nonempty: "contents (pitfalls_request sample_json) \<noteq> []"
    "contents (build_request (quickstart_chat ?A ?opts) [m]) \<noteq> []" for m
    by (simp_all add: pitfalls_request_def build_request_def)
  obtain v2 where v2: "world (say ?A (response_text ?r @ [NL, NL]) s1) = ([], v2)"
    by (simp add: say_def first(2) quickstart_app_sel term_console_def on_terminal_def)
  obtain e2 s3 where second: "stream sample_json (lift_env scripted) ?opts (pitfalls_request sample_json)
      (Some (chunk_printer ?A)) (say ?A (response_text ?r @ [NL, NL]) s1) = (Inl (Failed e2), [], s3)"
    "world s3 = ([], v2)"
    using quickstart_second [OF v2 nonempty(1), of "chunk_printer ?A"] by blast
  obtain v4 where v4: "world (report_stream ?A (Some e2) s3) = ([], v4)"
    by (simp add: report_stream_def say_def complain_def second(2) quickstart_app_sel term_console_def on_terminal_def)
  obtain e3 s5 where "generate sample_json (lift_env scripted) ?opts
      (build_request (quickstart_chat ?A ?opts) [user_content ''What is (2^32 - 1) / 5? Use a tool.''])
      (report_stream ?A (Some e2) s3) = (Inl (Failed e3), s5)"
    using quickstart_third [OF v4 nonempty(2)] by blast
  then have "\<exists>c. send (quickstart_chat ?A ?opts) None ''What is (2^32 - 1) / 5? Use a tool.'' new_session
      (report_stream ?A (Some e2) s3) = (Inl (Failed e3), c, s5)"
    by (simp add: send_def new_session_def push_def ask_def quickstart_chat_def quickstart_app_sel rollback_def
        eval_nat_numeral)
  then obtain s' where run: "quickstart_main ?A ?s = (Exit 0, s')"
    using first second
    by (auto simp: quickstart_main_def quickstart_app_sel quickstart_stream_def quickstart_talk_def)
  have A: "terminal_app ?A"
    by (auto simp: terminal_app_def quickstart_app_def sample_terminal_app_def wall_beside_def fun_eq_iff
        intro!: exI [of _ "\<lambda>w. (0, w)"])
  from quickstart_shows [OF A run] first(1) second(1) run show ?thesis
    by (auto simp: quickstart_app_sel start_state_def blank_terminal_def on_screen_def response_text_def
        empty_response_def)
qed

end
