(* ===== verification/Spec2Isabelle.thy ===== *)
theory Spec2Isabelle
  imports Errors Sse Types Strtod Wall_Clock Transport Serialization Retry Client Client_Properties
    Expression Tools Chat Code_Extract Process Task Check_Header Runner Report Parallel_Run
    Lru_Cache Thread_Pool Spsc_Queue Token_Bucket Semver Duration Cli_Args Logging Curl_Transport Usage_Text
    Command_Line Terminal Terminal_Chat Utf8 Tool_Errors Repair_Errors Interrupts Concurrent_Calls Quickstart
begin

text \<open>
  Verification library for gemini-cpp, a C++ client of the Gemini API with a harness that lets a model
  solve coding tasks, compiles and runs its answers, and reports the results.

  \<^bold>\<open>The program and the theories.\<close>  The program is a stack of layers, and a theory models each part of it.

  \<^item> \<^verbatim>\<open>Prelude\<close> (byte strings, search, splitting, integers of fixed width), \<^verbatim>\<open>Double\<close> (binary64 with its
    rounding), \<^verbatim>\<open>Strtod\<close> (\<^verbatim>\<open>std::strtod\<close>, \<^verbatim>\<open>std::from_chars\<close>) and \<^verbatim>\<open>Wall_Clock\<close> (\<^verbatim>\<open>gmtime_r\<close>, \<^verbatim>\<open>strftime\<close>
    and the time stamps of \<^verbatim>\<open>logging.cpp\<close>, \<^verbatim>\<open>runner.cpp\<close>, \<^verbatim>\<open>tools.cpp\<close>): the language and its library, as
    far as the sources use them.
  \<^item> \<^verbatim>\<open>Errors\<close> (\<^verbatim>\<open>error.hpp\<close>, \<^verbatim>\<open>error.cpp\<close>): error values.  A call returns \<open>failure + 'a\<close>, where a
    failure is an error value, an exception that leaves the call, or behaviour the standard leaves
    undefined; so every \<^verbatim>\<open>return make_error\<close>, throw and undefined conversion is a branch of the model.
  \<^item> \<^verbatim>\<open>Json\<close>: nlohmann::json, which the build fetches, as a record of functions and the locale \<open>json_api\<close>
    of the laws its documentation promises; \<open>jval_lib\<close> is an interpretation of it.  \<^verbatim>\<open>Utf8\<close>: which strings
    the library refuses to print.
  \<^item> \<^verbatim>\<open>Types\<close> (\<^verbatim>\<open>types.hpp\<close>, \<^verbatim>\<open>types.cpp\<close>): contents, parts, requests, responses, and the folding of a
    stream of responses into one.  \<^verbatim>\<open>Serialization\<close> (\<^verbatim>\<open>serialization.hpp\<close>, \<^verbatim>\<open>.cpp\<close>): their JSON.
  \<^item> \<^verbatim>\<open>Sse\<close> (\<^verbatim>\<open>sse.hpp\<close>, \<^verbatim>\<open>sse.cpp\<close>): the incremental parser of server-sent events, with handlers as
    functions on a state.
  \<^item> \<^verbatim>\<open>Transport\<close> (\<^verbatim>\<open>transport.hpp\<close>): the interface to the network.  \<^verbatim>\<open>Curl_Transport\<close>
    (\<^verbatim>\<open>curl_transport.cpp\<close>): its implementation on libcurl, which is a parameter.
  \<^item> \<^verbatim>\<open>Retry\<close> (\<^verbatim>\<open>retry.hpp\<close>, \<^verbatim>\<open>retry.cpp\<close>), \<^verbatim>\<open>Client\<close> and \<^verbatim>\<open>Client_Properties\<close> (\<^verbatim>\<open>client.hpp\<close>,
    \<^verbatim>\<open>client.cpp\<close>): the client, with its counters, delays, streaming and paging.  \<^verbatim>\<open>Concurrent_Calls\<close>: the
    same operations cut into atomic steps, for threads that share a client.
  \<^item> \<^verbatim>\<open>Expression\<close> and \<^verbatim>\<open>Tools\<close> (\<^verbatim>\<open>tools.hpp\<close>, \<^verbatim>\<open>tools.cpp\<close>): the calculator and the registry of tools;
    \<^verbatim>\<open>Chat\<close> (\<^verbatim>\<open>chat.hpp\<close>, \<^verbatim>\<open>chat.cpp\<close>): conversations that call them.  \<^verbatim>\<open>Interrupts\<close>: what becomes of an
    interruption between the transport, the client and a conversation.
  \<^item> \<^verbatim>\<open>Code_Extract\<close>, \<^verbatim>\<open>Process\<close>, \<^verbatim>\<open>Task\<close>, \<^verbatim>\<open>Check_Header\<close>, \<^verbatim>\<open>Runner\<close>, \<^verbatim>\<open>Parallel_Run\<close>, \<^verbatim>\<open>Report\<close> (the files
    of the same names under \<^verbatim>\<open>eval/\<close>; the run of \<^verbatim>\<open>runner.cpp\<close> is \<^verbatim>\<open>Parallel_Run\<close>): finding the code in an
    answer, running a child with limits, loading tasks, evaluating one, all of them, and reporting.
    \<^verbatim>\<open>Repair_Errors\<close>: what a log that is cut within a character does to the evaluation.
  \<^item> \<^verbatim>\<open>Logging\<close> (\<^verbatim>\<open>logging.cpp\<close>), \<^verbatim>\<open>Cli_Args\<close> (\<^verbatim>\<open>cli_args.cpp\<close>), \<^verbatim>\<open>Usage_Text\<close> and \<^verbatim>\<open>Command_Line\<close>
    (\<^verbatim>\<open>main.cpp\<close>): the program itself; \<^verbatim>\<open>Terminal\<close> and \<^verbatim>\<open>Terminal_Chat\<close>: \<^verbatim>\<open>ask\<close> and \<^verbatim>\<open>chat\<close> on a
    terminal; \<^verbatim>\<open>Tool_Errors\<close>: how the message of a tool can end a chat.  \<^verbatim>\<open>Quickstart\<close>
    (\<^verbatim>\<open>examples/quickstart.cpp\<close>): the example program.
  \<^item> \<^verbatim>\<open>Lru_Cache\<close>, \<^verbatim>\<open>Thread_Pool\<close>, \<^verbatim>\<open>Spsc_Queue\<close>, \<^verbatim>\<open>Token_Bucket\<close>, \<^verbatim>\<open>Semver\<close>, \<^verbatim>\<open>Duration\<close>: the reference
    solutions under \<^verbatim>\<open>tasks/\<close>, against which the tests of the tasks are validated.

  \<^bold>\<open>How state is modelled.\<close>  What a component reads and writes outside of itself is a state \<open>'w\<close> that its
  operations pass on: \<^verbatim>\<open>environment\<close> is the network, the clock, the sleep and the random draws of the
  client, \<^verbatim>\<open>os\<close> and \<^verbatim>\<open>host\<close> the processes and the files of the runner, \<^verbatim>\<open>console\<close> the terminal.  The
  theorems hold for all of them.  The state of a class is a record (\<open>client_state\<close>, \<open>chat_session\<close>,
  \<open>sse_parser\<close>, \<open>lru\<close>, \<open>bucket\<close>); what threads do is a step relation on a state (\<open>pool_step\<close> of
  \<^verbatim>\<open>Concurrent_Calls\<close>, \<open>step\<close> of \<^verbatim>\<open>Parallel_Run\<close>, \<open>tstep\<close> of \<^verbatim>\<open>Thread_Pool\<close>, \<open>qstep\<close> of \<^verbatim>\<open>Spsc_Queue\<close>), in which a read or a write of
  an atomic variable and a critical section are single steps.

  \<^bold>\<open>What the lemmas show.\<close>  For the stream: the events do not depend on how the bytes arrive, and are those
  of the text as a whole; folding the chunks loses nothing.  For the client: the counters add up, a
  request is sent at most as often as the policy says and again only if nothing has been handed over,
  and delays stay within their bounds; calls of several threads lose no update of a counter and all end;
  an interrupted reply is a partial response and never an error.  For a conversation: the history is well
  formed, or as before when a call fails.  For the calculator: it accepts exactly the expressions of its grammar and gives
  their values, and always ends.  For the harness: the outcome of an attempt is what its processes did,
  every task is evaluated and reported once whatever the interleaving, the run ends, no two evaluations
  share a directory, the report counts what happened, and the exit code says whether all tasks passed.
  For the command line: which ones are accepted and what they mean, and that
  an answer is shown once and in full, streaming or not; that a chat ends when the typed lines do, after a
  bounded number of calls for each, and that a tool's message that is not UTF-8 ends it at once; likewise a log that
  is not UTF-8 ends the evaluation of a task.  For the reference solutions:
  refinement of a finite map with recency order, first-in-first-out without races, all jobs done and no
  deadlock, the precedence of semantic versions, the grammar and the exact value of durations, and what
  a rate limiter promises.

  \<^bold>\<open>Bounds and fuel.\<close>  The parser of expressions runs on fuel \<open>8 * length + 8\<close>, which is shown to be
  enough for every text.  The loops of \<^verbatim>\<open>Process\<close>, the listing of models and the loop of \<^verbatim>\<open>gemini-cpp chat\<close>
  need not end; they are partial functions, and that they end is shown where it holds (for a machine
  on which time goes on, for a server that ends its listing, for lines that run out).  Rounds of tool calls and of repair are
  counted.  The exit code is exact up to \<open>2^27\<close> tasks.  Integers that can wrap are words (the counters of
  the client, the indices of the queue, the sums of durations); times and sizes that the sources keep
  in 64 bits and that come from outside are unbounded integers, with a bound as a hypothesis where it
  matters.

  \<^bold>\<open>Not modelled.\<close>  libcurl, the parser and the printer of JSON, the elementary functions of \<^verbatim>\<open>libm\<close>, the
  kernel and the file system are parameters.  In the interleavings of calls an attempt is one step (it does
  not touch the counters), and \<^verbatim>\<open>list_models\<close>, whose loop over the pages need not end, is left to the
  sequential model; the log lines that the client and the runner write are left out of them (\<^verbatim>\<open>Logging\<close>
  models the writing).  Memory management, move semantics and moved-from objects have no counterpart.  The
  programs under \<^verbatim>\<open>tests/\<close> and the \<^verbatim>\<open>tests.cpp\<close> of the tasks are tests.  The weak orderings of atomics are
  modelled by interleaving only, which is exact for counters that are only added to, and an abstraction
  for the indices of the queue.
\<close>

end
